(* ===== verification/PS_Prelude.thy ===== *)
theory PS_Prelude
  imports Main
    "HOL-Library.Word"
    "HOL-Library.Char_ord"
    "HOL-Library.List_Lexorder"
    "HOL-Library.Multiset"
begin

unbundle bit_operations_syntax

text \<open>
  The prelude of the development: the machine integer types, the part of \<open>std::string_view\<close> the
  sources use (find, rfind, substr, trimming, comma splitting), fixed-width little- and big-endian
  integers, and the generic interfaces (a self-delimiting codec, a scan for the best candidate, a
  state machine with an invariant) that the component theories interpret.

  A C++ \<open>char\<close> or \<open>std::byte\<close> is an Isabelle \<open>char\<close> (a byte), ordered as an unsigned byte; a
  \<open>std::string\<close>, a \<open>std::string_view\<close> and a byte span are a \<open>string\<close>.  The sources compare plain
  \<open>char\<close>s only against ASCII ranges, where the signed and the unsigned order agree.  A \<open>size_t\<close> is
  a \<open>nat\<close>: every such value is the length of, or an index into, a buffer in memory.
\<close>

section \<open>Types and collections\<close>

type_synonym u8 = "8 word"
type_synonym u16 = "16 word"
type_synonym u32 = "32 word"
type_synonym u64 = "64 word"

named_theorems sv_simps \<open>equations of the string view operations\<close>
named_theorems codec_simps \<open>round trips and lengths of the integer codecs\<close>

section \<open>String views\<close>

text \<open>The index of the first occurrence of a character, \<open>npos\<close> as \<open>None\<close>.\<close>

fun sv_find :: "char \<Rightarrow> string \<Rightarrow> nat option" where
  "sv_find c [] = None"
| "sv_find c (x # xs) = (if x = c then Some 0 else map_option Suc (sv_find c xs))"

text \<open>\<open>s.find(c, pos)\<close>: the search starts at \<open>pos\<close>, the answer is an index of \<open>s\<close>.\<close>

definition sv_find_from :: "char \<Rightarrow> nat \<Rightarrow> string \<Rightarrow> nat option" where
  "sv_find_from c pos s = map_option (\<lambda>i. pos + i) (sv_find c (drop pos s))"

definition sv_rfind :: "char \<Rightarrow> string \<Rightarrow> nat option" where
  "sv_rfind c s = map_option (\<lambda>i. length s - Suc i) (sv_find c (rev s))"

definition starts_with :: "string \<Rightarrow> string \<Rightarrow> bool" where
  "starts_with p s \<longleftrightarrow> take (length p) s = p"

text \<open>\<open>s.find(needle)\<close> for a string needle.\<close>

fun sv_find_str :: "string \<Rightarrow> string \<Rightarrow> nat option" where
  "sv_find_str n [] = (if n = [] then Some 0 else None)"
| "sv_find_str n (x # xs) =
     (if starts_with n (x # xs) then Some 0 else map_option Suc (sv_find_str n xs))"

text \<open>\<open>s.substr(pos, n)\<close> for \<open>pos\<close> within the view; the length is clipped to the view.\<close>

definition sv_substr :: "nat \<Rightarrow> nat \<Rightarrow> string \<Rightarrow> string" where
  "sv_substr pos n s = take n (drop pos s)"

text \<open>The cut at an optional position: the view before it, and the view after the separator.\<close>

definition before :: "nat option \<Rightarrow> string \<Rightarrow> string" where
  "before pos s = (case pos of None \<Rightarrow> s | Some i \<Rightarrow> take i s)"

definition after :: "nat option \<Rightarrow> string \<Rightarrow> string" where
  "after pos s = (case pos of None \<Rightarrow> [] | Some i \<Rightarrow> drop (Suc i) s)"

definition trim_left :: "(char \<Rightarrow> bool) \<Rightarrow> string \<Rightarrow> string" where
  "trim_left P s = dropWhile P s"

definition trim_right :: "(char \<Rightarrow> bool) \<Rightarrow> string \<Rightarrow> string" where
  "trim_right P s = rev (dropWhile P (rev s))"

definition trim :: "(char \<Rightarrow> bool) \<Rightarrow> string \<Rightarrow> string" where
  "trim P s = trim_right P (trim_left P s)"

definition is_ows :: "char \<Rightarrow> bool" where
  "is_ows c \<longleftrightarrow> c = CHR '' '' \<or> c = CHR 0x09"

definition is_digit_char :: "char \<Rightarrow> bool" where
  "is_digit_char c \<longleftrightarrow> CHR ''0'' \<le> c \<and> c \<le> CHR ''9''"

definition digit_value :: "char \<Rightarrow> nat" where
  "digit_value c = of_char c - of_char (CHR ''0'')"

text \<open>
  The list loop the sources write for every comma-separated header: while the view is not empty,
  cut a token at the next comma and continue behind it.  A trailing comma yields no empty token.
\<close>

function list_members :: "char \<Rightarrow> string \<Rightarrow> string list" where
  "list_members d s =
     (if s = [] then []
      else before (sv_find d s) s # list_members d (after (sv_find d s) s))"
  by pat_completeness auto
termination
  by (relation "measure (\<lambda>(d, s). length s)")
     (auto simp: after_def split: option.splits)

declare list_members.simps [simp del]

section \<open>Fixed-width integers in bytes\<close>

text \<open>The \<open>n\<close> low bytes of a value, least significant first, and the value of such a run.\<close>

fun le_bytes :: "nat \<Rightarrow> nat \<Rightarrow> string" where
  "le_bytes 0 v = []"
| "le_bytes (Suc n) v = char_of (v mod 256) # le_bytes n (v div 256)"

fun le_val :: "string \<Rightarrow> nat" where
  "le_val [] = 0"
| "le_val (c # cs) = of_char c + 256 * le_val cs"

definition be_bytes :: "nat \<Rightarrow> nat \<Rightarrow> string" where
  "be_bytes n v = rev (le_bytes n v)"

definition be_val :: "string \<Rightarrow> nat" where
  "be_val s = le_val (rev s)"

section \<open>Lemmas on string views\<close>

lemma sv_find_None [simp]: "sv_find c s = None \<longleftrightarrow> c \<notin> set s"
  by (induction s) auto

lemma sv_find_Some: "sv_find c s = Some i \<longleftrightarrow> i < length s \<and> s ! i = c \<and> c \<notin> set (take i s)"
proof (induction s arbitrary: i)
  case Nil
  then show ?case by simp
next
  case (Cons x xs)
  then show ?case by (cases i) (auto split: if_splits)
qed

lemma before_simps [simp]: "before None s = s" "before (Some i) s = take i s"
  by (simp_all add: before_def)

lemma after_simps [simp]: "after None s = []" "after (Some i) s = drop (Suc i) s"
  by (simp_all add: after_def)

lemma length_after_less: "s \<noteq> [] \<Longrightarrow> length (after p s) < length s"
  by (auto simp: after_def split: option.splits)

lemma sv_find_notin [sv_simps]: "c \<notin> set s \<Longrightarrow> sv_find c s = None"
  by simp

lemma sv_find_append_Cons [sv_simps]: "c \<notin> set xs \<Longrightarrow> sv_find c (xs @ c # ys) = Some (length xs)"
  by (induction xs) auto

lemma before_append_Cons [sv_simps]: "c \<notin> set xs \<Longrightarrow> before (sv_find c (xs @ c # ys)) (xs @ c # ys) = xs"
  by (simp add: sv_find_append_Cons)

lemma after_append_Cons [sv_simps]: "c \<notin> set xs \<Longrightarrow> after (sv_find c (xs @ c # ys)) (xs @ c # ys) = ys"
  by (simp add: sv_find_append_Cons)

lemma before_notin [sv_simps]: "c \<notin> set s \<Longrightarrow> before (sv_find c s) s = s"
  by (simp add: sv_find_notin)

lemma after_notin [sv_simps]: "c \<notin> set s \<Longrightarrow> after (sv_find c s) s = []"
  by (simp add: sv_find_notin)

lemma sv_find_splitE:
  assumes "c \<in> set s"
  obtains "s = before (sv_find c s) s @ c # after (sv_find c s) s"
    and "c \<notin> set (before (sv_find c s) s)"
proof -
  from split_list_first [OF assms] obtain xs ys where s: "s = xs @ c # ys" "c \<notin> set xs"
    by blast
  then have "before (sv_find c s) s = xs" and "after (sv_find c s) s = ys"
    by (simp_all add: sv_simps)
  with s show ?thesis by (auto intro: that)
qed

lemma before_notin_set [simp]: "c \<notin> set (before (sv_find c s) s)"
  by (metis before_notin sv_find_splitE)

lemma set_before_subset: "set (before p s) \<subseteq> set s"
  by (auto simp: before_def dest: in_set_takeD split: option.splits)

lemma set_after_subset: "set (after p s) \<subseteq> set s"
  by (auto simp: after_def dest: in_set_dropD split: option.splits)

lemma starts_with_append [simp]: "starts_with p (p @ s)"
  by (simp add: starts_with_def)

lemma starts_with_iff: "starts_with p s \<longleftrightarrow> (\<exists>t. s = p @ t)"
  by (metis append_eq_conv_conj append_take_drop_id starts_with_def)

lemma sv_find_str_None: "sv_find_str n s = None \<longleftrightarrow> (\<forall>u v. s \<noteq> u @ n @ v)"
proof (induction s)
  case Nil
  then show ?case by auto
next
  case (Cons x xs)
  have "(\<exists>u v. x # xs = u @ n @ v) \<longleftrightarrow> starts_with n (x # xs) \<or> (\<exists>u v. xs = u @ n @ v)"
    by (auto simp: starts_with_iff Cons_eq_append_conv)
  with Cons show ?case by auto
qed

lemma sv_find_str_Some:
  "sv_find_str n s = Some i \<Longrightarrow> i \<le> length s \<and> starts_with n (drop i s)"
  by (induction s arbitrary: i) (auto simp: starts_with_def split: if_splits)

lemma sv_find_str_least:
  "sv_find_str n s = Some i \<Longrightarrow> j < i \<Longrightarrow> \<not> starts_with n (drop j s)"
proof (induction s arbitrary: i j)
  case Nil
  then show ?case by (simp split: if_splits)
next
  case (Cons x xs)
  then show ?case by (cases j) (auto split: if_splits)
qed

lemma trim_left_idem [simp]: "trim_left P (trim_left P s) = trim_left P s"
  by (simp add: trim_left_def)

lemma set_trim_subset: "set (trim P s) \<subseteq> set s"
  by (metis set_dropWhileD set_rev subsetI trim_def trim_left_def trim_right_def)

lemma trim_id: "s = [] \<or> (\<not> P (hd s) \<and> \<not> P (last s)) \<Longrightarrow> trim P s = s"
  by (auto simp: trim_def trim_right_def trim_left_def dropWhile_eq_self_iff [THEN iffD2] hd_rev)

lemma dropWhile_all: "list_all P l \<Longrightarrow> dropWhile P (l @ t) = dropWhile P t"
  by (induction l) simp_all

lemma trim_padded:
  assumes "list_all P l" "list_all P r" "s = [] \<or> (\<not> P (hd s) \<and> \<not> P (last s))"
  shows "trim P (l @ s @ r) = s"
proof -
  have r: "list_all P (rev r)" using assms(2) by (simp add: list_all_iff)
  have d: "dropWhile P r = []" using dropWhile_all [OF assms(2), of "[]"] by simp
  have s: "dropWhile P (s @ r) = s @ r" if "s \<noteq> []"
    using that assms(3) by (cases s) simp_all
  have rev_s: "dropWhile P (rev s) = rev s" if "s \<noteq> []"
    using that assms(3) by (cases s rule: rev_cases) simp_all
  show ?thesis
  proof (cases "s = []")
    case True
    then show ?thesis
      by (simp only: trim_def trim_left_def trim_right_def dropWhile_all [OF assms(1)] append_Nil d)
         (simp only: rev.simps dropWhile.simps)
  next
    case False
    then show ?thesis
      by (simp only: trim_def trim_left_def trim_right_def dropWhile_all [OF assms(1)]
          s [OF False] rev_s [OF False] rev_append dropWhile_all [OF r] rev_rev_ident)
  qed
qed

lemma in_dropWhile_iff: "\<not> P c \<Longrightarrow> c \<in> set (dropWhile P s) \<longleftrightarrow> c \<in> set s"
  by (induction s) auto

lemma in_trim_iff: "\<not> P c \<Longrightarrow> c \<in> set (trim P s) \<longleftrightarrow> c \<in> set s"
  by (simp add: trim_def trim_left_def trim_right_def in_dropWhile_iff)

lemma length_trim_le: "length (trim P s) \<le> length s"
  by (metis length_dropWhile_le length_rev order_trans trim_def trim_left_def trim_right_def)

lemma list_members_Nil [simp]: "list_members d [] = []"
  by (simp add: list_members.simps)

lemma list_members_last: "d \<notin> set s \<Longrightarrow> s \<noteq> [] \<Longrightarrow> list_members d s = [s]"
  by (simp add: list_members.simps [of d s] sv_simps)

lemma list_members_append_Cons:
  "d \<notin> set t \<Longrightarrow> list_members d (t @ d # s) = t # list_members d s"
  by (simp add: list_members.simps [of d "t @ d # s"] sv_simps)

text \<open>A text between two separators is a member, whatever stands before and after it.\<close>

lemma list_members_middle: "d \<notin> set t \<Longrightarrow> t \<in> set (list_members d (x @ d # t @ d # y))"
proof (induction x rule: length_induct)
  case (1 x)
  show ?case
  proof (cases "d \<in> set x")
    case True
    then obtain x1 x2 where "x = x1 @ d # x2" "d \<notin> set x1" by (meson split_list_first)
    with 1 show ?thesis by (simp add: list_members_append_Cons)
  next
    case False
    with 1 show ?thesis by (simp add: list_members_append_Cons)
  qed
qed

lemma list_members_no_sep: "t \<in> set (list_members d s) \<Longrightarrow> d \<notin> set t"
proof (induction d s rule: list_members.induct)
  case (1 d s)
  show ?case
  proof (cases "s = []")
    case True
    with 1 show ?thesis by simp
  next
    case False
    with 1 show ?thesis by (auto simp: list_members.simps [of d s])
  qed
qed

lemma list_members_subset: "t \<in> set (list_members d s) \<Longrightarrow> set t \<subseteq> set s"
proof (induction d s rule: list_members.induct)
  case (1 d s)
  show ?case
  proof (cases "s = []")
    case True
    with 1 show ?thesis by simp
  next
    case False
    with 1 show ?thesis
      using set_before_subset set_after_subset
      by (fastforce simp: list_members.simps [of d s])
  qed
qed

section \<open>Lemmas on the integer codecs\<close>

lemma length_le_bytes [simp, codec_simps]: "length (le_bytes n v) = n"
  by (induction n arbitrary: v) auto

lemma length_be_bytes [simp, codec_simps]: "length (be_bytes n v) = n"
  by (simp add: be_bytes_def)

lemma of_char_less_256 [simp]: "of_char c < (256 :: nat)"
  using of_char_mod_256 [of c, where 'a = nat] by (metis mod_less_divisor zero_less_numeral)

lemma le_val_le_bytes [codec_simps]: "le_val (le_bytes n v) = v mod 256 ^ n"
proof (induction n arbitrary: v)
  case 0
  then show ?case by simp
next
  case (Suc n)
  then show ?case by (simp add: mod_mult2_eq)
qed

lemma be_val_be_bytes [codec_simps]: "be_val (be_bytes n v) = v mod 256 ^ n"
  by (simp add: be_val_def be_bytes_def codec_simps)

lemma le_val_less: "le_val s < 256 ^ length s"
proof (induction s)
  case Nil
  then show ?case by simp
next
  case (Cons c s)
  have "of_char c + 256 * le_val s < 256 + 256 * le_val s" by simp
  also have "\<dots> \<le> 256 * 256 ^ length s" using Cons by simp
  finally show ?case by simp
qed

lemma be_val_less: "be_val s < 256 ^ length s"
  using le_val_less [of "rev s"] by (simp add: be_val_def)

lemma le_bytes_le_val: "le_bytes (length s) (le_val s) = s"
  by (induction s) auto

lemma unat_mod_size [codec_simps]:
  "unat (w :: u16) mod 65536 = unat w"
  "unat (x :: u32) mod 4294967296 = unat x"
  "unat (y :: u64) mod 18446744073709551616 = unat y"
  using unsigned_less [of w, where 'a = nat] unsigned_less [of x, where 'a = nat]
    unsigned_less [of y, where 'a = nat] by simp_all

lemma word_le_roundtrip_u16 [codec_simps]: "word_of_nat (le_val (le_bytes 2 (unat w))) = (w :: u16)"
  by (simp add: codec_simps)

lemma word_le_roundtrip_u32 [codec_simps]: "word_of_nat (le_val (le_bytes 4 (unat w))) = (w :: u32)"
  by (simp add: codec_simps)

lemma word_le_roundtrip_u64 [codec_simps]: "word_of_nat (le_val (le_bytes 8 (unat w))) = (w :: u64)"
  by (simp add: codec_simps)

lemma word_be_roundtrip_u32 [codec_simps]: "word_of_nat (be_val (be_bytes 4 (unat w))) = (w :: u32)"
  by (simp add: codec_simps)

section \<open>Readers and framed codecs\<close>

text \<open>
  A reader takes a prefix of the bytes that are left and fails when they are too few; the decoders are
  chains of readers and checks in the option monad.
\<close>

definition get_bytes :: "nat \<Rightarrow> string \<Rightarrow> (string \<times> string) option" where
  "get_bytes n s = (if length s < n then None else Some (take n s, drop n s))"

definition get_u8 :: "string \<Rightarrow> (nat \<times> string) option" where
  "get_u8 s = (case s of [] \<Rightarrow> None | c # r \<Rightarrow> Some (of_char c, r))"

definition get_be32 :: "string \<Rightarrow> (nat \<times> string) option" where
  "get_be32 s = (if length s < 4 then None else Some (be_val (take 4 s), drop 4 s))"

definition check :: "bool \<Rightarrow> unit option" where
  "check b = (if b then Some () else None)"

lemma get_bytes_append [codec_simps]: "length a = n \<Longrightarrow> get_bytes n (a @ r) = Some (a, r)"
  by (simp add: get_bytes_def)

lemma get_u8_Cons [codec_simps]: "get_u8 (c # r) = Some (of_char c, r)"
  by (simp add: get_u8_def)

lemma get_be32_append [codec_simps]: "get_be32 (be_bytes 4 v @ r) = Some (v mod 2 ^ 32, r)"
  by (simp add: get_be32_def codec_simps)

lemma check_True [codec_simps]: "check True = Some ()"
  by (simp add: check_def)

lemma check_Some [simp]: "check b = Some u \<longleftrightarrow> b"
  by (simp add: check_def)

text \<open>
  A self-delimiting codec: decoding the encoding of a valid value, whatever bytes follow, gives what
  the decoder shows of the value.  Then two encodings with the same bytes show the same value.
\<close>

locale framed_codec =
  fixes valid :: "'a \<Rightarrow> bool" and enc :: "'a \<Rightarrow> string" and dec :: "string \<Rightarrow> 'b option"
    and view :: "'a \<Rightarrow> 'b"
  assumes dec_enc: "valid x \<Longrightarrow> dec (enc x @ rest) = Some (view x)"
begin

lemma dec_enc_exact: "valid x \<Longrightarrow> dec (enc x) = Some (view x)"
  using dec_enc [of x "[]"] by simp

lemma enc_unique: "valid x \<Longrightarrow> valid y \<Longrightarrow> enc x @ r = enc y @ r' \<Longrightarrow> view x = view y"
  by (metis dec_enc option.inject)

end

text \<open>
  A record codec inside a stream: decoding returns the record and the rest of the stream.  Both directions
  are laws, so a stream of a known number of records is decoded exactly when it is the concatenation of their
  encodings.
\<close>

fun read_many :: "(string \<Rightarrow> ('a \<times> string) option) \<Rightarrow> nat \<Rightarrow> string \<Rightarrow> ('a list \<times> string) option" where
  "read_many dec 0 s = Some ([], s)"
| "read_many dec (Suc n) s =
     (case dec s of None \<Rightarrow> None
      | Some (x, r) \<Rightarrow> (case read_many dec n r of None \<Rightarrow> None | Some (xs, t) \<Rightarrow> Some (x # xs, t)))"

locale stream_codec =
  fixes valid :: "'a \<Rightarrow> bool" and enc :: "'a \<Rightarrow> string" and dec :: "string \<Rightarrow> ('a \<times> string) option"
  assumes stream_dec_enc: "valid x \<Longrightarrow> dec (enc x @ rest) = Some (x, rest)"
    and stream_enc_dec: "dec s = Some (x, rest) \<Longrightarrow> valid x \<and> s = enc x @ rest"
begin

lemma read_many_enc: "list_all valid xs \<Longrightarrow> read_many dec (length xs) (concat (map enc xs) @ rest) = Some (xs, rest)"
  by (induction xs) (simp_all add: stream_dec_enc)

lemma read_many_dec:
  "read_many dec n s = Some (xs, rest) \<Longrightarrow> length xs = n \<and> list_all valid xs \<and> s = concat (map enc xs) @ rest"
proof (induction n arbitrary: s xs)
  case 0
  then show ?case by simp
next
  case (Suc n)
  then obtain x r ys where "dec s = Some (x, r)" "read_many dec n r = Some (ys, rest)" "xs = x # ys"
    by (auto split: option.splits)
  with Suc.IH stream_enc_dec show ?case by fastforce
qed

end

section \<open>Sorting\<close>

text \<open>
  What \<open>std::sort\<close> promises for a strict weak order: a permutation in which no element is less than
  an earlier one.  The order of equivalent elements is not specified, so the algorithm is a parameter.
\<close>

locale std_sort =
  fixes lt :: "'a \<Rightarrow> 'a \<Rightarrow> bool" and srt :: "'a list \<Rightarrow> 'a list"
  assumes srt_mset: "mset (srt xs) = mset xs"
    and srt_sorted: "sorted_wrt (\<lambda>a b. \<not> lt b a) (srt xs)"
begin

lemma srt_set: "set (srt xs) = set xs"
  using srt_mset [of xs] by (metis set_mset_mset)

lemma srt_length: "length (srt xs) = length xs"
  using srt_mset [of xs] by (metis size_mset)

end

text \<open>\<open>std::unique\<close>: each element equivalent to the last one kept is dropped.\<close>

fun std_unique :: "('a \<Rightarrow> 'a \<Rightarrow> bool) \<Rightarrow> 'a list \<Rightarrow> 'a list" where
  "std_unique eq [] = []"
| "std_unique eq [x] = [x]"
| "std_unique eq (x # y # xs) =
     (if eq x y then std_unique eq (x # xs) else x # std_unique eq (y # xs))"

lemma std_unique_keys:
  "(\<And>a b. eq a b \<longleftrightarrow> f a = f b) \<Longrightarrow> map f (std_unique eq xs) = remdups_adj (map f xs)"
  by (induction eq xs rule: std_unique.induct) auto

lemma std_unique_subset: "set (std_unique eq xs) \<subseteq> set xs"
  by (induction eq xs rule: std_unique.induct) auto

lemma strict_sorted_remdups_adj: "sorted xs \<Longrightarrow> sorted_wrt (<) (remdups_adj (xs :: 'k::linorder list))"
  by (induction xs rule: remdups_adj.induct) fastforce+

text \<open>
  Sorting by a key and dropping neighbours with equal keys yields the set of the keys in strictly increasing order.
  The list itself depends only on the set of elements when no two of them share a key.
\<close>

context std_sort
begin

lemma srt_unique_keys:
  assumes "\<And>a b. lt a b \<longleftrightarrow> f a < (f b :: 'k::linorder)" and "\<And>a b. eq a b \<longleftrightarrow> f a = f b"
  shows "sorted_wrt (<) (map f (std_unique eq (srt xs)))" and "f ` set (std_unique eq (srt xs)) = f ` set xs"
    and "set (std_unique eq (srt xs)) \<subseteq> set xs"
proof -
  have "sorted (map f (srt xs))"
    using srt_sorted [of xs] by (simp add: assms(1) not_less sorted_map)
  then show "sorted_wrt (<) (map f (std_unique eq (srt xs)))"
    by (simp add: std_unique_keys [OF assms(2)] strict_sorted_remdups_adj)
  have "set (map f (std_unique eq (srt xs))) = set (map f (srt xs))"
    by (simp only: std_unique_keys [OF assms(2)] remdups_adj_set)
  then show "f ` set (std_unique eq (srt xs)) = f ` set xs" by (simp add: srt_set)
  show "set (std_unique eq (srt xs)) \<subseteq> set xs" using std_unique_subset [of eq "srt xs"] by (simp add: srt_set)
qed

lemma srt_unique_determined:
  assumes "\<And>a b. lt a b \<longleftrightarrow> f a < (f b :: 'k::linorder)" and "\<And>a b. eq a b \<longleftrightarrow> f a = f b"
    and "inj_on f (set xs)" and "set xs = set ys"
  shows "std_unique eq (srt xs) = std_unique eq (srt ys)"
proof -
  note xs = srt_unique_keys [OF assms(1,2), of xs] and ys = srt_unique_keys [OF assms(1,2), of ys]
  have "map f (std_unique eq (srt xs)) = map f (std_unique eq (srt ys))"
    using xs(1,2) ys(1,2) assms(4) by (intro strict_sorted_equal) auto
  moreover have "inj_on f (set (std_unique eq (srt xs)) \<union> set (std_unique eq (srt ys)))"
    using xs(3) ys(3) assms(3,4) by (blast intro: inj_on_subset)
  ultimately show ?thesis by (simp add: inj_on_map_eq_map)
qed

end

section \<open>Scanning for the best candidate\<close>

text \<open>
  The contract of a loop that keeps the best candidate seen so far.  A candidate may have a key; the
  loop state shows the index and the key of the current best, and one step replaces it exactly when
  the new key is strictly greater.  The clients get: the result has a maximal key, there is a result
  exactly when some candidate has a key, and the winning key does not depend on the order.
\<close>

locale best_scan =
  fixes key :: "'a \<Rightarrow> 'k::linorder option"
    and step :: "nat \<Rightarrow> 'a \<Rightarrow> 's \<Rightarrow> 's"
    and init :: 's
    and best :: "'s \<Rightarrow> (nat \<times> 'k) option"
    and ok :: "'s \<Rightarrow> bool"
  assumes ok_init: "ok init"
    and best_init: "best init = None"
    and ok_step: "ok s \<Longrightarrow> ok (step i x s)"
    and best_step: "ok s \<Longrightarrow> best (step i x s) =
      (case key x of None \<Rightarrow> best s
       | Some k \<Rightarrow> (case best s of None \<Rightarrow> Some (i, k)
                    | Some (j, k') \<Rightarrow> if k' < k then Some (i, k) else best s))"
begin

fun scan :: "nat \<Rightarrow> 'a list \<Rightarrow> 's \<Rightarrow> 's" where
  "scan i [] s = s"
| "scan i (x # xs) s = scan (Suc i) xs (step i x s)"

lemma scan_snoc: "scan i (xs @ [x]) s = step (i + length xs) x (scan i xs s)"
  by (induction xs arbitrary: i s) auto

lemma ok_scan: "ok s \<Longrightarrow> ok (scan i xs s)"
  by (induction xs arbitrary: i s) (auto simp: ok_step)

definition is_best :: "'a list \<Rightarrow> nat \<Rightarrow> 'k \<Rightarrow> bool" where
  "is_best xs i k \<longleftrightarrow> i < length xs \<and> key (xs ! i) = Some k \<and>
     (\<forall>x \<in> set xs. \<forall>k'. key x = Some k' \<longrightarrow> k' \<le> k)"

lemma best_scan_spec:
  "case best (scan 0 xs init) of
     None \<Rightarrow> (\<forall>x \<in> set xs. key x = None)
   | Some (i, k) \<Rightarrow> is_best xs i k"
proof (induction xs rule: rev_induct)
  case Nil
  then show ?case by (simp add: best_init)
next
  case (snoc x xs)
  have ok: "ok (scan 0 xs init)" by (simp add: ok_init ok_scan)
  show ?case
  proof (cases "key x")
    case None
    with snoc ok show ?thesis
      by (auto simp: scan_snoc best_step is_best_def nth_append split: option.splits)
  next
    case (Some k)
    show ?thesis
    proof (cases "best (scan 0 xs init)")
      case None
      with snoc ok Some show ?thesis
        by (auto simp: scan_snoc best_step is_best_def nth_append)
    next
      case best: (Some ik)
      obtain j k' where ik: "ik = (j, k')" by force
      with snoc best have jk: "is_best xs j k'" by simp
      have "k' < k \<Longrightarrow> is_best (xs @ [x]) (length xs) k"
        using jk Some by (auto simp: is_best_def)
      moreover have "\<not> k' < k \<Longrightarrow> is_best (xs @ [x]) j k'"
        using jk Some by (auto simp: is_best_def nth_append)
      ultimately show ?thesis
        using ok Some best ik by (simp add: scan_snoc best_step)
    qed
  qed
qed

lemma best_scan_None: "best (scan 0 xs init) = None \<longleftrightarrow> (\<forall>x \<in> set xs. key x = None)"
  using best_scan_spec [of xs] by (auto simp: is_best_def split: option.splits)

lemma best_scan_Some: "best (scan 0 xs init) = Some (i, k) \<Longrightarrow> is_best xs i k"
  using best_scan_spec [of xs] by simp

lemma best_key_perm:
  assumes "mset xs = mset ys"
  shows "map_option snd (best (scan 0 xs init)) = map_option snd (best (scan 0 ys init))"
proof -
  have set: "set xs = set ys" using assms by (metis set_mset_mset)
  show ?thesis
  proof (cases "best (scan 0 xs init)")
    case None
    with set have "best (scan 0 ys init) = None" by (simp add: best_scan_None)
    with None show ?thesis by simp
  next
    case (Some ik)
    then obtain i k where xs: "best (scan 0 xs init) = Some (i, k)" by force
    then have "best (scan 0 ys init) \<noteq> None" using set best_scan_None by (metis option.distinct(1))
    then obtain j l where ys: "best (scan 0 ys init) = Some (j, l)" by force
    have "is_best xs i k" "is_best ys j l" using xs ys by (simp_all add: best_scan_Some)
    then have "k \<le> l" "l \<le> k" using set nth_mem by (metis is_best_def)+
    with xs ys show ?thesis by simp
  qed
qed

end

end
