(* ===== verification/String_Util.thy ===== *)
theory String_Util
  imports PS_Prelude
begin

text \<open>
  The string helpers of \<open>lib/base/string_util.h\<close> and \<open>lib/base/string_util.cc\<close>: HTML white space,
  locale-independent case folding and comparison, escaping, substring replacement, the
  constant-time comparison and the percent-encoding walk.  A loop over an index of a view is a
  recursion over the view behind that index.  Output parameters are returned.
\<close>

section \<open>HTML white space\<close>

definition IsHtmlSpace :: "char \<Rightarrow> bool" where
  "IsHtmlSpace c \<longleftrightarrow>
     c = CHR '' '' \<or> c = CHR 0x09 \<or> c = CHR 0x0A \<or> c = CHR 0x0C \<or> c = CHR 0x0D"

text \<open>The trimming functions change the view in place and report whether anything was removed.\<close>

definition TrimLeadingHtmlWhitespace :: "string \<Rightarrow> bool \<times> string" where
  "TrimLeadingHtmlWhitespace str =
     (let n = length (takeWhile IsHtmlSpace str) in (0 < n, drop n str))"

definition TrimTrailingHtmlWhitespace :: "string \<Rightarrow> bool \<times> string" where
  "TrimTrailingHtmlWhitespace str =
     (let size = length str - length (takeWhile IsHtmlSpace (rev str))
      in if size \<noteq> length str then (True, take size str) else (False, str))"

definition TrimHtmlWhitespace :: "string \<Rightarrow> bool \<times> string" where
  "TrimHtmlWhitespace str =
     (let (lead, str1) = TrimLeadingHtmlWhitespace str;
          (trail, str2) = TrimTrailingHtmlWhitespace str1
      in (lead \<or> trail, str2))"

section \<open>Case-insensitive operations\<close>

definition UpperChar :: "char \<Rightarrow> char" where
  "UpperChar c = (if CHR ''a'' \<le> c \<and> c \<le> CHR ''z''
     then char_of (of_char c - of_char (CHR ''a'') + of_char (CHR ''A'') :: nat) else c)"

definition LowerChar :: "char \<Rightarrow> char" where
  "LowerChar c = (if CHR ''A'' \<le> c \<and> c \<le> CHR ''Z''
     then char_of (of_char c - of_char (CHR ''A'') + of_char (CHR ''a'') :: nat) else c)"

definition AsciiToLower :: "string \<Rightarrow> string" where
  "AsciiToLower sv = map LowerChar sv"

text \<open>The comparison walks the common length of the two views and then compares the lengths.\<close>

fun StringCaseCompare :: "string \<Rightarrow> string \<Rightarrow> int" where
  "StringCaseCompare [] [] = 0"
| "StringCaseCompare [] (d # ds) = -1"
| "StringCaseCompare (c # cs) [] = 1"
| "StringCaseCompare (c # cs) (d # ds) =
     (if UpperChar c < UpperChar d then -1
      else if UpperChar c > UpperChar d then 1
      else StringCaseCompare cs ds)"

definition StringCaseEqual :: "string \<Rightarrow> string \<Rightarrow> bool" where
  "StringCaseEqual s1 s2 \<longleftrightarrow> length s1 = length s2 \<and> StringCaseCompare s1 s2 = 0"

definition StringCaseStartsWith :: "string \<Rightarrow> string \<Rightarrow> bool" where
  "StringCaseStartsWith str pre \<longleftrightarrow>
     length str \<ge> length pre \<and> StringCaseCompare (take (length pre) str) pre = 0"

definition StringCaseEndsWith :: "string \<Rightarrow> string \<Rightarrow> bool" where
  "StringCaseEndsWith str suf \<longleftrightarrow>
     length str \<ge> length suf \<and> StringCaseCompare (drop (length str - length suf) str) suf = 0"

definition FindIgnoreCase :: "string \<Rightarrow> string \<Rightarrow> nat option" where
  "FindIgnoreCase haystack needle =
     (if needle = [] then Some 0
      else if length needle > length haystack then None
      else find (\<lambda>i. StringCaseStartsWith (drop i haystack) needle)
             [0 ..< Suc (length haystack - length needle)])"

section \<open>Escaping\<close>

definition hex_char :: "nat \<Rightarrow> char" where
  "hex_char n = ''0123456789abcdef'' ! n"

text \<open>The \<open>printf\<close> conversions \<open>%04x\<close> and \<open>%03o\<close> on a byte.\<close>

definition fmt_04x :: "nat \<Rightarrow> string" where
  "fmt_04x n = map (\<lambda>k. hex_char (n div 16 ^ k mod 16)) [3, 2, 1, 0]"

definition fmt_03o :: "nat \<Rightarrow> string" where
  "fmt_03o n = map (\<lambda>k. hex_char (n div 8 ^ k mod 8)) [2, 1, 0]"

definition CEscape_char :: "char \<Rightarrow> string" where
  "CEscape_char ch =
     (if ch = CHR 0x0A then [CHR 0x5C, CHR ''n'']
      else if ch = CHR 0x0D then [CHR 0x5C, CHR ''r'']
      else if ch = CHR 0x09 then [CHR 0x5C, CHR ''t'']
      else if ch = CHR 0x22 then [CHR 0x5C, CHR 0x22]
      else if ch = CHR 0x27 then [CHR 0x5C, CHR 0x27]
      else if ch = CHR 0x5C then [CHR 0x5C, CHR 0x5C]
      else if of_char ch < (32 :: nat) \<or> of_char ch \<ge> (127 :: nat)
        then CHR 0x5C # fmt_03o (of_char ch)
      else [ch])"

definition CEscape :: "string \<Rightarrow> string" where
  "CEscape src = concat (map CEscape_char src)"

definition BackslashEscape :: "string \<Rightarrow> string \<Rightarrow> string \<Rightarrow> string" where
  "BackslashEscape src to_escape dest =
     dest @ concat (map (\<lambda>c. if sv_find c to_escape \<noteq> None then [CHR 0x5C, c] else [c]) src)"

definition JsonEscapeMinimal_char :: "char \<Rightarrow> string" where
  "JsonEscapeMinimal_char c =
     (if c = CHR 0x22 then [CHR 0x5C, CHR 0x22]
      else if c = CHR 0x5C then [CHR 0x5C, CHR 0x5C]
      else if c = CHR 0x08 then [CHR 0x5C, CHR ''b'']
      else if c = CHR 0x0C then [CHR 0x5C, CHR ''f'']
      else if c = CHR 0x0A then [CHR 0x5C, CHR ''n'']
      else if c = CHR 0x0D then [CHR 0x5C, CHR ''r'']
      else if c = CHR 0x09 then [CHR 0x5C, CHR ''t'']
      else if of_char c < (0x20 :: nat) then [CHR 0x5C, CHR ''u''] @ fmt_04x (of_char c)
      else [c])"

definition JsonEscapeMinimal :: "string \<Rightarrow> string" where
  "JsonEscapeMinimal s = concat (map JsonEscapeMinimal_char s)"

definition JsonEscapeHtmlSafe_char :: "char \<Rightarrow> string" where
  "JsonEscapeHtmlSafe_char c =
     (if c = CHR 0x22 then [CHR 0x5C, CHR 0x22]
      else if c = CHR 0x5C then [CHR 0x5C, CHR 0x5C]
      else if c = CHR ''<'' then CHR 0x5C # ''u003c''
      else if c = CHR ''>'' then CHR 0x5C # ''u003e''
      else if c = CHR 0x08 then [CHR 0x5C, CHR ''b'']
      else if c = CHR 0x0C then [CHR 0x5C, CHR ''f'']
      else if c = CHR 0x0A then [CHR 0x5C, CHR ''n'']
      else if c = CHR 0x0D then [CHR 0x5C, CHR ''r'']
      else if c = CHR 0x09 then [CHR 0x5C, CHR ''t'']
      else if of_char c < (0x20 :: nat) then [CHR 0x5C, CHR ''u''] @ fmt_04x (of_char c)
      else [c])"

definition JsonEscapeHtmlSafe :: "string \<Rightarrow> string" where
  "JsonEscapeHtmlSafe s = concat (map JsonEscapeHtmlSafe_char s)"

section \<open>Substrings\<close>

text \<open>
  The loops of the three functions below, on the part of the text behind the current position.
  The callers return before the loop when the substring is empty.
\<close>

function replace_loop :: "string \<Rightarrow> string \<Rightarrow> string \<Rightarrow> string \<times> nat" where
  "replace_loop sub rep s =
     (if sub = [] then (s, 0)
      else case sv_find_str sub s of
        None \<Rightarrow> (s, 0)
      | Some found \<Rightarrow>
          (let (r, n) = replace_loop sub rep (drop (found + length sub) s)
           in (take found s @ rep @ r, Suc n)))"
  by pat_completeness auto
termination
proof (relation "measure (\<lambda>(sub, rep, s). length s)", simp)
  fix sub rep s :: string and found
  assume "sub \<noteq> []" and "sv_find_str sub s = Some found"
  then have "s \<noteq> []" by auto
  with \<open>sub \<noteq> []\<close>
  show "((sub, rep, drop (found + length sub) s), (sub, rep, s))
      \<in> measure (\<lambda>(sub, rep, s). length s)"
    by simp
qed

declare replace_loop.simps [simp del]

definition GlobalReplaceSubstring :: "string \<Rightarrow> string \<Rightarrow> string \<Rightarrow> nat \<times> string" where
  "GlobalReplaceSubstring sub rep s =
     (if s = [] \<or> sub = [] then (0, s)
      else let (result, count) = replace_loop sub rep s
           in if count > 0 then (count, result) else (count, s))"

function erase_loop :: "string \<Rightarrow> string \<Rightarrow> string \<Rightarrow> string \<times> nat" where
  "erase_loop left right s =
     (if left = [] then (s, 0)
      else case sv_find_str left s of
        None \<Rightarrow> (s, 0)
      | Some pos \<Rightarrow>
          (case sv_find_str right (drop (pos + length left) s) of
             None \<Rightarrow> (take pos s @ drop pos s, 0)
           | Some e \<Rightarrow>
               (let (r, n) = erase_loop left right
                               (drop (pos + length left + e + length right) s)
                in (take pos s @ r, Suc n))))"
  by pat_completeness auto
termination
proof (relation "measure (\<lambda>(left, right, s). length s)", simp)
  fix left right s :: string and pos e
  assume "left \<noteq> []" and "sv_find_str left s = Some pos"
  then have "s \<noteq> []" by auto
  with \<open>left \<noteq> []\<close>
  show "((left, right, drop (pos + length left + e + length right) s), (left, right, s))
      \<in> measure (\<lambda>(left, right, s). length s)"
    by simp
qed

declare erase_loop.simps [simp del]

definition GlobalEraseBracketedSubstring :: "string \<Rightarrow> string \<Rightarrow> string \<Rightarrow> nat \<times> string" where
  "GlobalEraseBracketedSubstring left right s =
     (if s = [] \<or> left = [] \<or> right = [] then (0, s)
      else if sv_find_str left s = None then (0, s)
      else let (result, count) = erase_loop left right s in (count, result))"

fun count_loop :: "string \<Rightarrow> string \<Rightarrow> nat" where
  "count_loop sub [] = 0"
| "count_loop sub (c # cs) = (if starts_with sub (c # cs) then 1 else 0) + count_loop sub cs"

text \<open>Each match moves the search position by one character, so every start of a match counts.\<close>

definition CountSubstring :: "string \<Rightarrow> string \<Rightarrow> nat" where
  "CountSubstring txt sub = (if sub = [] then 0 else count_loop sub txt)"

section \<open>Constant-time comparison\<close>

definition byte_or_zero :: "string \<Rightarrow> nat \<Rightarrow> nat" where
  "byte_or_zero a i = (if i < length a then of_char (a ! i) else 0)"

definition ConstantTimeCompare :: "string \<Rightarrow> string \<Rightarrow> bool" where
  "ConstantTimeCompare a b \<longleftrightarrow>
     fold (\<lambda>i result. result OR (byte_or_zero a i XOR byte_or_zero b i))
       [0 ..< max (length a) (length b)] (length a XOR length b) = 0"

definition CountCharacterMismatches :: "string \<Rightarrow> string \<Rightarrow> nat" where
  "CountCharacterMismatches s1 s2 =
     (let n = min (length s1) (length s2)
      in length (filter (\<lambda>i. s1 ! i \<noteq> s2 ! i) [0 ..< n]) + (max (length s1) (length s2) - n))"

section \<open>Shell-like strings\<close>

fun scan_quoted :: "char \<Rightarrow> string \<Rightarrow> string \<times> string" where
  "scan_quoted q [] = ([], [])"
| "scan_quoted q (c # cs) =
     (if c = q then ([], cs)
      else if c = CHR 0x5C \<and> cs \<noteq> [] then
        (let (part, rest) = scan_quoted q (tl cs) in (hd cs # part, rest))
      else (let (part, rest) = scan_quoted q cs in (c # part, rest)))"

lemma scan_quoted_length: "length (snd (scan_quoted q s)) \<le> length s"
  by (induction q s rule: scan_quoted.induct) (auto split: prod.splits)

function ParseShellLikeString :: "string \<Rightarrow> string list" where
  "ParseShellLikeString input =
     (case input of [] \<Rightarrow> []
      | c # cs \<Rightarrow>
          if c = CHR 0x22 \<or> c = CHR 0x27 then
            fst (scan_quoted c cs) # ParseShellLikeString (snd (scan_quoted c cs))
          else if \<not> IsHtmlSpace c then
            takeWhile (\<lambda>x. \<not> IsHtmlSpace x) input
              # ParseShellLikeString (dropWhile (\<lambda>x. \<not> IsHtmlSpace x) input)
          else ParseShellLikeString cs)"
  by pat_completeness auto
termination
  by (relation "measure length")
     (auto simp: le_imp_less_Suc scan_quoted_length length_dropWhile_le)

declare ParseShellLikeString.simps [simp del]

definition PieceAfterEquals :: "string \<Rightarrow> string" where
  "PieceAfterEquals piece =
     (case sv_find (CHR ''='') piece of
        None \<Rightarrow> []
      | Some pos \<Rightarrow> snd (TrimHtmlWhitespace (drop (Suc pos) piece)))"

section \<open>Digits and percent-encoding\<close>

definition digit_u32 :: "char \<Rightarrow> char \<Rightarrow> u32" where
  "digit_u32 c base = word_of_nat (of_char c - of_char base)"

text \<open>The accumulators return whether \<open>c\<close> was a digit, and the new value.\<close>

definition AccumulateDecimalValue :: "char \<Rightarrow> u32 \<Rightarrow> bool \<times> u32" where
  "AccumulateDecimalValue c value =
     (if CHR ''0'' \<le> c \<and> c \<le> CHR ''9'' then
        (let v = value * 10 + digit_u32 c (CHR ''0'')
         in (True, if v > 0x110000 then 0x110000 else v))
      else (False, value))"

definition AccumulateHexValue :: "char \<Rightarrow> u32 \<Rightarrow> bool \<times> u32" where
  "AccumulateHexValue c value =
     (let clamp = (\<lambda>v :: u32. if v > 0x110000 then 0x110000 else v)
      in if CHR ''0'' \<le> c \<and> c \<le> CHR ''9'' then
           (True, clamp (push_bit 4 value OR digit_u32 c (CHR ''0'')))
         else if CHR ''a'' \<le> c \<and> c \<le> CHR ''f'' then
           (True, clamp (push_bit 4 value OR (digit_u32 c (CHR ''a'') + 10)))
         else if CHR ''A'' \<le> c \<and> c \<le> CHR ''F'' then
           (True, clamp (push_bit 4 value OR (digit_u32 c (CHR ''A'') + 10)))
         else (False, value))"

definition IsHexDigit :: "char \<Rightarrow> bool" where
  "IsHexDigit c \<longleftrightarrow>
     (CHR ''0'' \<le> c \<and> c \<le> CHR ''9'') \<or> (CHR ''a'' \<le> c \<and> c \<le> CHR ''f'') \<or>
     (CHR ''A'' \<le> c \<and> c \<le> CHR ''F'')"

definition IsDecimalDigit :: "char \<Rightarrow> bool" where
  "IsDecimalDigit c \<longleftrightarrow> CHR ''0'' \<le> c \<and> c \<le> CHR ''9''"

definition IsAsciiAlphaNumeric :: "char \<Rightarrow> bool" where
  "IsAsciiAlphaNumeric c \<longleftrightarrow>
     (CHR ''a'' \<le> c \<and> c \<le> CHR ''z'') \<or> (CHR ''A'' \<le> c \<and> c \<le> CHR ''Z'') \<or>
     (CHR ''0'' \<le> c \<and> c \<le> CHR ''9'')"

definition HexDigitValue :: "char \<Rightarrow> int" where
  "HexDigitValue c =
     (if CHR ''0'' \<le> c \<and> c \<le> CHR ''9'' then of_char c - of_char (CHR ''0'')
      else if CHR ''a'' \<le> c \<and> c \<le> CHR ''f'' then of_char c - of_char (CHR ''a'') + 10
      else if CHR ''A'' \<le> c \<and> c \<le> CHR ''F'' then of_char c - of_char (CHR ''A'') + 10
      else -1)"

text \<open>
  The two callbacks append to the result; they are functions to the appended text.  A percent sign
  starts a triple only when two more characters follow and both are hexadecimal.
\<close>

definition percent_triple :: "string \<Rightarrow> bool" where
  "percent_triple s \<longleftrightarrow>
     2 < length s \<and> s ! 0 = CHR ''%'' \<and> HexDigitValue (s ! 1) \<ge> 0 \<and> HexDigitValue (s ! 2) \<ge> 0"

function TransformPercentEncoded ::
  "(char \<Rightarrow> int \<Rightarrow> int \<Rightarrow> string) \<Rightarrow> (char \<Rightarrow> string) \<Rightarrow> string \<Rightarrow> string" where
  "TransformPercentEncoded on_decoded on_literal input =
     (if input = [] then []
      else if percent_triple input then
        (let hi = HexDigitValue (input ! 1); lo = HexDigitValue (input ! 2)
         in on_decoded (char_of (nat (hi * 16 + lo))) hi lo
              @ TransformPercentEncoded on_decoded on_literal (drop 3 input))
      else on_literal (hd input)
             @ TransformPercentEncoded on_decoded on_literal (tl input))"
  by pat_completeness auto
termination
  by (relation "measure (\<lambda>(d, l, s). length s)") auto

declare TransformPercentEncoded.simps [simp del]

section \<open>Case folding\<close>

lemma LowerChar_idem [simp]: "LowerChar (LowerChar c) = LowerChar c"
  by (simp add: LowerChar_def less_eq_char_def)

lemma UpperChar_LowerChar [simp]: "UpperChar (LowerChar c) = UpperChar c"
  by (auto simp: UpperChar_def LowerChar_def less_eq_char_def)

lemma LowerChar_UpperChar [simp]: "LowerChar (UpperChar c) = LowerChar c"
  by (auto simp: UpperChar_def LowerChar_def less_eq_char_def)

lemma UpperChar_eq_iff: "UpperChar c = UpperChar d \<longleftrightarrow> LowerChar c = LowerChar d"
  by (metis LowerChar_UpperChar UpperChar_LowerChar)

lemma AsciiToLower_idem [simp]: "AsciiToLower (AsciiToLower s) = AsciiToLower s"
  by (simp add: AsciiToLower_def)

lemma AsciiToLower_append [simp]: "AsciiToLower (a @ b) = AsciiToLower a @ AsciiToLower b"
  by (simp add: AsciiToLower_def)

lemma length_AsciiToLower [simp]: "length (AsciiToLower s) = length s"
  by (simp add: AsciiToLower_def)

lemma StringCaseCompare_0: "StringCaseCompare s1 s2 = 0 \<longleftrightarrow> AsciiToLower s1 = AsciiToLower s2"
  by (induction s1 s2 rule: StringCaseCompare.induct)
     (auto simp: AsciiToLower_def UpperChar_eq_iff [symmetric])

lemma StringCaseEqual_iff: "StringCaseEqual s1 s2 \<longleftrightarrow> AsciiToLower s1 = AsciiToLower s2"
  by (auto simp: StringCaseEqual_def StringCaseCompare_0 dest: arg_cong [where f = length])

lemma StringCaseCompare_sym: "StringCaseCompare s2 s1 = - StringCaseCompare s1 s2"
  by (induction s1 s2 rule: StringCaseCompare.induct) auto

lemma StringCaseStartsWith_iff:
  "StringCaseStartsWith str pre \<longleftrightarrow> starts_with (AsciiToLower pre) (AsciiToLower str)"
  unfolding StringCaseStartsWith_def StringCaseCompare_0 starts_with_def AsciiToLower_def length_map take_map
  by (auto dest: map_eq_imp_length_eq)

section \<open>Constant-time comparison\<close>

lemma xor_eq_0_nat [simp]: "(a :: nat) XOR b = 0 \<longleftrightarrow> a = b"
  by (auto simp: bit_eq_iff bit_xor_iff)

lemma or_eq_0_nat [simp]: "(a :: nat) OR b = 0 \<longleftrightarrow> a = 0 \<and> b = 0"
  by (auto simp: bit_eq_iff bit_or_iff)

lemma fold_or_eq_0:
  "fold (\<lambda>i r. r OR f i) xs (r0 :: nat) = 0 \<longleftrightarrow> r0 = 0 \<and> (\<forall>i \<in> set xs. f i = 0)"
  by (induction xs arbitrary: r0) auto

section \<open>Unescaping\<close>

text \<open>
  The reader of a JSON string body: the escapes of RFC 8259, restricted to one-byte values.  As the grammar
  demands, a raw quotation mark (which would end the string) and a raw control character are refused.
\<close>

definition json_simple_escape :: "char \<Rightarrow> char option" where
  "json_simple_escape e =
     map_of [(CHR 0x22, CHR 0x22), (CHR 0x5C, CHR 0x5C), (CHR ''/'', CHR ''/''),
             (CHR ''b'', CHR 0x08), (CHR ''f'', CHR 0x0C), (CHR ''n'', CHR 0x0A),
             (CHR ''r'', CHR 0x0D), (CHR ''t'', CHR 0x09)] e"

definition json_hex4 :: "string \<Rightarrow> char option" where
  "json_hex4 s =
     (if length s = 4 \<and> list_all (\<lambda>c. HexDigitValue c \<ge> 0) s
      then Some (char_of (nat (foldl (\<lambda>v c. v * 16 + HexDigitValue c) 0 s)))
      else None)"

function json_unescape :: "string \<Rightarrow> string option" where
  "json_unescape s =
     (case s of [] \<Rightarrow> Some []
      | c # cs \<Rightarrow>
          if c = CHR 0x22 \<or> of_char c < (0x20 :: nat) then None
          else if c \<noteq> CHR 0x5C then map_option ((#) c) (json_unescape cs)
          else (case cs of [] \<Rightarrow> None
                | e # r \<Rightarrow>
                    if e = CHR ''u'' then
                      (case json_hex4 (take 4 r) of None \<Rightarrow> None
                       | Some x \<Rightarrow> map_option ((#) x) (json_unescape (drop 4 r)))
                    else
                      (case json_simple_escape e of None \<Rightarrow> None
                       | Some x \<Rightarrow> map_option ((#) x) (json_unescape r))))"
  by pat_completeness auto
termination
  by (relation "measure length") auto

declare json_unescape.simps [simp del]

lemma json_unescape_Nil [simp]: "json_unescape [] = Some []"
  by (simp add: json_unescape.simps)

lemma json_unescape_plain:
  "c \<noteq> CHR 0x5C \<Longrightarrow> c \<noteq> CHR 0x22 \<Longrightarrow> \<not> of_char c < (0x20 :: nat) \<Longrightarrow>
   json_unescape (c # r) = map_option ((#) c) (json_unescape r)"
  by (simp add: json_unescape.simps [of "c # r"])

lemma json_unescape_simple:
  "e \<noteq> CHR ''u'' \<Longrightarrow> json_simple_escape e = Some x \<Longrightarrow>
   json_unescape (CHR 0x5C # e # r) = map_option ((#) x) (json_unescape r)"
  by (simp add: json_unescape.simps [of "CHR 0x5C # e # r"])

lemma json_unescape_u:
  "length h = 4 \<Longrightarrow> json_hex4 h = Some x \<Longrightarrow>
   json_unescape (CHR 0x5C # CHR ''u'' # h @ r) = map_option ((#) x) (json_unescape r)"
  by (simp add: json_unescape.simps [of "CHR 0x5C # CHR ''u'' # h @ r"])

lemma json_hex4_lt_gt:
  "json_hex4 ''003c'' = Some (CHR ''<'')" "json_hex4 ''003e'' = Some (CHR ''>'')"
  by code_simp+

lemma HexDigitValue_hex_char: "k < 16 \<Longrightarrow> HexDigitValue (hex_char k) = int k"
proof -
  have "[0 ..< 16] = [0, 1, 2, 3, 4, 5, 6, 7, 8, 9, 10, 11, 12, 13, 14, 15 :: nat]"
    by (simp add: upt_rec)
  then have "list_all (\<lambda>k. HexDigitValue (hex_char k) = int k) [0 ..< 16]"
    by (simp add: hex_char_def HexDigitValue_def less_eq_char_def)
  then show "k < 16 \<Longrightarrow> ?thesis" by (simp add: list_all_iff)
qed

lemma json_hex4_control:
  assumes "of_char c < (32 :: nat)"
  shows "json_hex4 (fmt_04x (of_char c)) = Some c"
proof -
  define n :: nat where "n = of_char c"
  have n: "n < 32" and c: "c = char_of n" using assms by (simp_all add: n_def)
  then have "n div 16 ^ 3 = 0" "n div 16 ^ 2 = 0" "n div 16 < 16" by simp_all
  moreover have "nat (int (n div 16) * 16 + int (n mod 16)) = n"
    by (metis div_mult_mod_eq nat_int of_nat_add of_nat_mult of_nat_numeral)
  ultimately show ?thesis
    unfolding json_hex4_def fmt_04x_def c by (simp add: HexDigitValue_hex_char)
qed

lemma length_fmt_04x [simp]: "length (fmt_04x n) = 4"
  by (simp add: fmt_04x_def)

lemma json_simple_escape_values [simp]:
  "json_simple_escape (CHR 0x22) = Some (CHR 0x22)" "json_simple_escape (CHR 0x5C) = Some (CHR 0x5C)"
  "json_simple_escape (CHR ''b'') = Some (CHR 0x08)" "json_simple_escape (CHR ''f'') = Some (CHR 0x0C)"
  "json_simple_escape (CHR ''n'') = Some (CHR 0x0A)" "json_simple_escape (CHR ''r'') = Some (CHR 0x0D)"
  "json_simple_escape (CHR ''t'') = Some (CHR 0x09)"
  by (simp_all add: json_simple_escape_def)

lemma json_unescape_minimal_char:
  "json_unescape (JsonEscapeMinimal_char c @ r) = map_option ((#) c) (json_unescape r)"
  by (simp add: JsonEscapeMinimal_char_def json_unescape_plain json_unescape_simple
      json_unescape_u json_hex4_control)

lemma json_unescape_html_char:
  "json_unescape (JsonEscapeHtmlSafe_char c @ r) = map_option ((#) c) (json_unescape r)"
  using json_unescape_u [of "''003c''" "CHR ''<''" r] json_unescape_u [of "''003e''" "CHR ''>''" r]
  by (simp add: JsonEscapeHtmlSafe_char_def json_unescape_plain json_unescape_simple
      json_unescape_u json_hex4_control json_hex4_lt_gt)

lemma hex_char_alnum: "n < 16 \<Longrightarrow> hex_char n \<in> set ''0123456789abcdef''"
  unfolding hex_char_def by (rule nth_mem) simp

lemma set_fmt_04x: "set (fmt_04x n) \<subseteq> set ''0123456789abcdef''"
proof
  fix x assume "x \<in> set (fmt_04x n)"
  then obtain k where "x = hex_char (n div 16 ^ k mod 16)"
    unfolding fmt_04x_def set_map by blast
  then show "x \<in> set ''0123456789abcdef''"
    using hex_char_alnum [of "n div 16 ^ k mod 16"] by simp
qed

lemma html_char_safe:
  assumes "x \<in> set (JsonEscapeHtmlSafe_char c)"
  shows "x \<noteq> CHR ''<''" and "x \<noteq> CHR ''>''" and "of_char x \<ge> (0x20 :: nat)"
  using assms set_fmt_04x [of "of_char c"]
  by (auto simp: JsonEscapeHtmlSafe_char_def split: if_splits)

section \<open>Properties\<close>

text \<open>
  the constant-time comparison, which folds every byte of both views into one accumulator
  without an early exit, answers exactly whether the two strings are equal.
\<close>

theorem ConstantTimeCompare_iff_eq: "ConstantTimeCompare a b \<longleftrightarrow> a = b"
proof -
  have "ConstantTimeCompare a b \<longleftrightarrow>
      length a = length b \<and> (\<forall>i < max (length a) (length b). byte_or_zero a i = byte_or_zero b i)"
    unfolding ConstantTimeCompare_def fold_or_eq_0 by auto
  also have "\<dots> \<longleftrightarrow> a = b"
    by (auto simp: byte_or_zero_def list_eq_iff_nth_eq)
  finally show ?thesis .
qed

text \<open>
  C18: the escaper for JSON inside a script element emits no angle bracket and no control character,
  and a JSON reader gets the original string back.
\<close>

theorem JsonEscapeHtmlSafe_safe_and_lossless:
  "CHR ''<'' \<notin> set (JsonEscapeHtmlSafe s) \<and> CHR ''>'' \<notin> set (JsonEscapeHtmlSafe s) \<and>
   list_all (\<lambda>c. of_char c \<ge> (0x20 :: nat)) (JsonEscapeHtmlSafe s) \<and>
   json_unescape (JsonEscapeHtmlSafe s) = Some s"
proof -
  have "json_unescape (JsonEscapeHtmlSafe s) = Some s"
    by (induction s) (simp_all add: JsonEscapeHtmlSafe_def json_unescape_html_char)
  then show ?thesis
    using html_char_safe by (auto simp: JsonEscapeHtmlSafe_def list_all_iff)
qed

text \<open>occurrences that overlap are all counted.\<close>

theorem CountSubstring_overlapping: "CountSubstring ''aaaaa'' ''aaa'' = 3"
  by code_simp

end
