(* ===== verification/Capability_Mask.thy ===== *)
theory Capability_Mask
  imports String_Util
begin

text \<open>
  The capability mask of \<open>lib/classify/capability_mask.h\<close> and \<open>capability_mask.cc\<close>: the header
  parsers, the mask built from a request, its 32-bit encoding, and the dimension iterator of
  \<open>lib/classify/dimension_iterator.h\<close>.  The enumerations have the source's constructors; the
  two-bit viewport field also has the value 3, which \<open>Decode\<close> can produce and no enumerator names.
\<close>

section \<open>Enumerations and the mask\<close>

datatype ImageFormat = kOriginal | kWebP | kAvif | kSvg

datatype Viewport = kMobile | kTablet | kDesktop | kViewport3

datatype PixelDensity = k1x | k2xPlus

datatype SaveData = kOff | kOn

datatype TransferEncoding = kIdentity | kGzip | kBrotli | kReserved

record CapabilityMask =
  image_format :: ImageFormat
  viewport :: Viewport
  pixel_density :: PixelDensity
  save_data :: SaveData
  transfer_encoding :: TransferEncoding

definition CapabilityMask_default :: CapabilityMask where
  "CapabilityMask_default =
     \<lparr>image_format = kOriginal, viewport = kDesktop, pixel_density = k1x, save_data = kOff,
      transfer_encoding = kIdentity\<rparr>"

definition kWarmupSentinel :: u32 where
  "kWarmupSentinel = 0xFFFFFFFE"

definition kLlmsTxtSentinel :: u32 where
  "kLlmsTxtSentinel = 0xFFFFFFFD"

definition kOriginRefreshedSentinel :: u32 where
  "kOriginRefreshedSentinel = 0xFFFFFFFC"

definition kEarlyHintsSentinel :: u32 where
  "kEarlyHintsSentinel = 0xFFFFFFFF"

definition kImageSelectionVary :: string where
  "kImageSelectionVary = ''Accept, Save-Data, User-Agent, Sec-CH-DPR''"

section \<open>Header parsers\<close>

definition FindCaseInsensitive :: "string \<Rightarrow> string \<Rightarrow> nat \<Rightarrow> nat option" where
  "FindCaseInsensitive haystack needle pos =
     (if needle = [] then (if pos \<le> length haystack then Some pos else None)
      else if length needle > length haystack then None
      else find (\<lambda>i. list_all (\<lambda>j. LowerChar (haystack ! (i + j)) = LowerChar (needle ! j))
                      [0 ..< length needle])
             [pos ..< Suc (length haystack - length needle)])"

definition sv_find_str_from :: "string \<Rightarrow> nat \<Rightarrow> string \<Rightarrow> nat option" where
  "sv_find_str_from n pos s = map_option (\<lambda>i. pos + i) (sv_find_str n (drop pos s))"

definition accept_left_ok :: "string \<Rightarrow> nat \<Rightarrow> bool" where
  "accept_left_ok accept found \<longleftrightarrow>
     found = 0 \<or> accept ! (found - 1) = CHR '','' \<or> accept ! (found - 1) = CHR '' '' \<or>
     accept ! (found - 1) = CHR 0x09"

definition accept_right_ok :: "string \<Rightarrow> nat \<Rightarrow> bool" where
  "accept_right_ok accept e \<longleftrightarrow>
     e \<ge> length accept \<or> accept ! e = CHR '','' \<or> accept ! e = CHR '';'' \<or>
     accept ! e = CHR '' '' \<or> accept ! e = CHR 0x09"

function AcceptContains_loop :: "string \<Rightarrow> string \<Rightarrow> nat \<Rightarrow> bool" where
  "AcceptContains_loop accept mime_type pos =
     (if pos < length accept then
        (case sv_find_str_from mime_type pos accept of
           None \<Rightarrow> False
         | Some found \<Rightarrow>
             if accept_left_ok accept found \<and> accept_right_ok accept (found + length mime_type)
             then True
             else AcceptContains_loop accept mime_type (found + 1))
      else False)"
  by pat_completeness auto
termination
  by (relation "measure (\<lambda>(a, m, pos). length a - pos)") (auto simp: sv_find_str_from_def)

declare AcceptContains_loop.simps [simp del]

definition AcceptContains :: "string \<Rightarrow> string \<Rightarrow> bool" where
  "AcceptContains accept mime_type = AcceptContains_loop accept mime_type 0"

definition ua_has :: "string \<Rightarrow> string \<Rightarrow> bool" where
  "ua_has user_agent word \<longleftrightarrow> FindCaseInsensitive user_agent word 0 \<noteq> None"

definition ParseViewport :: "string \<Rightarrow> Viewport" where
  "ParseViewport user_agent =
     (let has_mobile = ua_has user_agent ''mobile'';
          has_android = ua_has user_agent ''android'';
          has_ipad = ua_has user_agent ''ipad''
      in if has_ipad \<or> ua_has user_agent ''tablet'' then kTablet
         else if has_android \<and> \<not> has_mobile then kTablet
         else if has_mobile \<or> has_android \<or> ua_has user_agent ''iphone'' \<or> ua_has user_agent ''ipod''
         then kMobile
         else kDesktop)"

definition EqualsCI :: "string \<Rightarrow> string \<Rightarrow> bool" where
  "EqualsCI a b \<longleftrightarrow>
     length a = length b \<and> list_all (\<lambda>i. LowerChar (a ! i) = LowerChar (b ! i)) [0 ..< length a]"

text \<open>The \<open>q=0\<close> test of one Accept-Encoding entry whose parameters start behind \<open>semi\<close>.\<close>

definition q_disables :: "string \<Rightarrow> bool" where
  "q_disables q_val \<longleftrightarrow>
     starts_with ''0'' q_val \<and>
     (length q_val = 1 \<or> q_val ! 1 = CHR ''.'' \<or> q_val ! 1 = CHR '','' \<or> q_val ! 1 = CHR '' '') \<and>
     list_all (\<lambda>ch. ch = CHR ''0'' \<or> ch = CHR ''.'')
       (takeWhile (\<lambda>ch. ch \<noteq> CHR '','' \<and> ch \<noteq> CHR '' '') q_val)"

definition entry_disabled :: "string \<Rightarrow> nat option \<Rightarrow> bool" where
  "entry_disabled entry semi =
     (case semi of None \<Rightarrow> False
      | Some i \<Rightarrow>
          (let params = drop (Suc i) entry
           in case FindCaseInsensitive params ''q='' 0 of
                None \<Rightarrow> False
              | Some q_pos \<Rightarrow> q_disables (trim_left is_ows (drop (q_pos + 2) params))))"

function EncodingAccepted :: "string \<Rightarrow> string \<Rightarrow> bool" where
  "EncodingAccepted accept_encoding token =
     (if accept_encoding = [] then False
      else
        (let s = trim_left is_ows accept_encoding;
             entry = before (sv_find (CHR '','') s) s;
             semi = sv_find (CHR '';'') entry;
             name = trim_right is_ows (before semi entry)
         in if EqualsCI name token then \<not> entry_disabled entry semi
            else EncodingAccepted (after (sv_find (CHR '','') s) s) token))"
  by pat_completeness auto
termination
proof (relation "measure (\<lambda>(s, t). length s)", simp)
  fix a t s :: string and x xa xb
  assume "a \<noteq> []" and "s = trim_left is_ows a"
  then have "length s \<le> length a" and "a \<noteq> []"
    by (simp_all add: trim_left_def length_dropWhile_le)
  then have "length (after (sv_find (CHR '','') s) s) < length a"
    by (metis after_notin length_after_less length_greater_0_conv list.size(3) order_less_le_trans
        sv_find.simps(1) after_simps(1))
  then show "((after (sv_find (CHR '','') s) s, t), a, t) \<in> measure (\<lambda>(s, t). length s)"
    by simp
qed

declare EncodingAccepted.simps [simp del]

definition DprHintIsHighDensity :: "string \<Rightarrow> bool option" where
  "DprHintIsHighDensity val =
     (let value = trim is_ows val
      in if value = [] then None
         else
           (let ints = takeWhile is_digit_char value;
                rest = dropWhile is_digit_char value;
                int_part = foldl (\<lambda>v c. if v < 1000 then v * 10 + digit_value c else v) 0 ints;
                dot = rest \<noteq> [] \<and> hd rest = CHR ''.'';
                fracs = (if dot then takeWhile is_digit_char (tl rest) else []);
                rest2 = (if dot then dropWhile is_digit_char (tl rest) else rest);
                first_frac = (if fracs = [] then 0 else digit_value (hd fracs))
            in if rest2 \<noteq> [] \<or> (ints = [] \<and> fracs = []) then None
               else Some (int_part \<ge> 2 \<or> (int_part = 1 \<and> first_frac \<ge> 5))))"

definition ParseAcceptEncoding :: "string \<Rightarrow> TransferEncoding" where
  "ParseAcceptEncoding accept_encoding =
     (if accept_encoding = [] then kIdentity
      else
        (let has_br = EncodingAccepted accept_encoding ''br'';
             has_gzip = EncodingAccepted accept_encoding ''gzip'';
             has_star = EncodingAccepted accept_encoding ''*''
         in if has_br then kBrotli
            else if has_star then
              (if FindCaseInsensitive accept_encoding ''br'' 0 = None then kBrotli
               else if has_gzip then kGzip
               else if FindCaseInsensitive accept_encoding ''gzip'' 0 = None then kGzip
               else kIdentity)
            else if has_gzip then kGzip
            else kIdentity))"

definition WantsAgentMarkdown :: "string \<Rightarrow> bool" where
  "WantsAgentMarkdown accept = AcceptContains accept ''text/markdown''"

definition FromHeaders :: "string \<Rightarrow> string \<Rightarrow> string \<Rightarrow> string \<Rightarrow> string \<Rightarrow> CapabilityMask" where
  "FromHeaders accept user_agent save_data_hdr accept_encoding sec_ch_dpr =
     (let mask = CapabilityMask_default;
          mask = mask\<lparr>image_format :=
            (if AcceptContains accept ''image/avif'' then kAvif
             else if accept = [] \<or> AcceptContains accept ''image/webp'' \<or>
                     AcceptContains accept ''image/*'' \<or> AcceptContains accept ''*/*''
             then kWebP
             else kOriginal)\<rparr>;
          mask = mask\<lparr>viewport := ParseViewport user_agent\<rparr>;
          mask =
            (case DprHintIsHighDensity sec_ch_dpr of
               Some high \<Rightarrow> mask\<lparr>pixel_density := (if high then k2xPlus else k1x)\<rparr>
             | None \<Rightarrow>
                 if viewport mask = kMobile \<or> sv_find_str ''2x'' user_agent \<noteq> None \<or>
                    sv_find_str ''Retina'' user_agent \<noteq> None
                 then mask\<lparr>pixel_density := k2xPlus\<rparr> else mask);
          mask =
            (if save_data_hdr \<noteq> [] \<and>
                (EqualsCI save_data_hdr ''on'' \<or> save_data_hdr = ''1'' \<or> EqualsCI save_data_hdr ''true'')
             then mask\<lparr>save_data := kOn\<rparr> else mask)
      in mask\<lparr>transfer_encoding := ParseAcceptEncoding accept_encoding\<rparr>)"

section \<open>Encoding\<close>

fun ImageFormat_raw :: "ImageFormat \<Rightarrow> u32" where
  "ImageFormat_raw kOriginal = 0"
| "ImageFormat_raw kWebP = 1"
| "ImageFormat_raw kAvif = 2"
| "ImageFormat_raw kSvg = 3"

fun Viewport_raw :: "Viewport \<Rightarrow> u32" where
  "Viewport_raw kMobile = 0"
| "Viewport_raw kTablet = 1"
| "Viewport_raw kDesktop = 2"
| "Viewport_raw kViewport3 = 3"

fun PixelDensity_raw :: "PixelDensity \<Rightarrow> u32" where
  "PixelDensity_raw k1x = 0"
| "PixelDensity_raw k2xPlus = 1"

fun SaveData_raw :: "SaveData \<Rightarrow> u32" where
  "SaveData_raw kOff = 0"
| "SaveData_raw kOn = 1"

fun TransferEncoding_raw :: "TransferEncoding \<Rightarrow> u32" where
  "TransferEncoding_raw kIdentity = 0"
| "TransferEncoding_raw kGzip = 1"
| "TransferEncoding_raw kBrotli = 2"
| "TransferEncoding_raw kReserved = 3"

text \<open>The casts back, on the masked one- or two-bit values.\<close>

definition ImageFormat_cast :: "u32 \<Rightarrow> ImageFormat" where
  "ImageFormat_cast x = (if x = 0 then kOriginal else if x = 1 then kWebP else if x = 2 then kAvif else kSvg)"

definition Viewport_cast :: "u32 \<Rightarrow> Viewport" where
  "Viewport_cast x = (if x = 0 then kMobile else if x = 1 then kTablet else if x = 2 then kDesktop else kViewport3)"

definition PixelDensity_cast :: "u32 \<Rightarrow> PixelDensity" where
  "PixelDensity_cast x = (if x = 0 then k1x else k2xPlus)"

definition SaveData_cast :: "u32 \<Rightarrow> SaveData" where
  "SaveData_cast x = (if x = 0 then kOff else kOn)"

definition TransferEncoding_cast :: "u32 \<Rightarrow> TransferEncoding" where
  "TransferEncoding_cast x = (if x = 0 then kIdentity else if x = 1 then kGzip else if x = 2 then kBrotli else kReserved)"

definition Encode :: "CapabilityMask \<Rightarrow> u32" where
  "Encode m =
     (ImageFormat_raw (image_format m) AND 0x03) OR
     push_bit 2 (Viewport_raw (viewport m) AND 0x03) OR
     push_bit 4 (PixelDensity_raw (pixel_density m) AND 0x01) OR
     push_bit 5 (SaveData_raw (save_data m) AND 0x01) OR
     push_bit 6 (TransferEncoding_raw (transfer_encoding m) AND 0x03)"

definition Decode :: "u32 \<Rightarrow> CapabilityMask" where
  "Decode encoded =
     \<lparr>image_format = ImageFormat_cast (encoded AND 0x03),
      viewport = Viewport_cast (drop_bit 2 encoded AND 0x03),
      pixel_density = PixelDensity_cast (drop_bit 4 encoded AND 0x01),
      save_data = SaveData_cast (drop_bit 5 encoded AND 0x01),
      transfer_encoding = TransferEncoding_cast (drop_bit 6 encoded AND 0x03)\<rparr>"

text \<open>The value 3 falls through the switch to the desktop default.\<close>

fun ViewportWidthRange :: "Viewport \<Rightarrow> nat \<times> nat" where
  "ViewportWidthRange kMobile = (0, 479)"
| "ViewportWidthRange kTablet = (480, 1279)"
| "ViewportWidthRange kDesktop = (1280, 65535)"
| "ViewportWidthRange kViewport3 = (1280, 65535)"

section \<open>Dimension iterator\<close>

record DimensionIteratorConfig =
  iterate_formats :: bool
  iterate_viewports :: bool
  iterate_densities :: bool
  iterate_savedata :: bool

definition DimensionIterator_Count :: "DimensionIteratorConfig \<Rightarrow> nat" where
  "DimensionIterator_Count config =
     (let count = 1;
          count = (if iterate_formats config then count * 3 else count);
          count = (if iterate_viewports config then count * 3 else count);
          count = (if iterate_densities config then count * 2 else count)
      in if iterate_savedata config then count * 2 else count)"

text \<open>The masks in the order the callback receives them.\<close>

definition DimensionIterator_ForEach ::
  "DimensionIteratorConfig \<Rightarrow> CapabilityMask \<Rightarrow> CapabilityMask list" where
  "DimensionIterator_ForEach config base =
     (let formats = (if iterate_formats config then [kOriginal, kWebP, kAvif] else [image_format base]);
          viewports = (if iterate_viewports config then [kMobile, kTablet, kDesktop] else [viewport base]);
          densities = (if iterate_densities config then [k1x, k2xPlus] else [pixel_density base]);
          savedata = (if iterate_savedata config then [kOff, kOn] else [save_data base])
      in concat (map (\<lambda>fmt. concat (map (\<lambda>vp. concat (map (\<lambda>den. map (\<lambda>sd.
           \<lparr>image_format = fmt, viewport = vp, pixel_density = den, save_data = sd,
            transfer_encoding = transfer_encoding base\<rparr>)
           savedata) densities)) viewports)) formats))"

definition DimensionIterator_ForWarmup :: "DimensionIteratorConfig \<Rightarrow> CapabilityMask list" where
  "DimensionIterator_ForWarmup config = DimensionIterator_ForEach config CapabilityMask_default"

section \<open>Encoding\<close>

lemmas mask_cast_defs = ImageFormat_cast_def Viewport_cast_def PixelDensity_cast_def
  SaveData_cast_def TransferEncoding_cast_def

lemma and_3_cases: "(x :: u32) AND 3 \<in> {0, 1, 2, 3}"
proof -
  have "unat (x AND 3) = unat x mod 4"
    using take_bit_eq_mask [of 2 "unat x"]
    by (simp add: unsigned_and_eq mask_eq_exp_minus_1 take_bit_eq_mod)
  then have "unat (x AND 3) < 4" by simp
  then have "unat (x AND 3) = 0 \<or> unat (x AND 3) = 1 \<or> unat (x AND 3) = 2 \<or> unat (x AND 3) = 3"
    by linarith
  then show ?thesis by (auto simp: word_unat_eq_iff)
qed

lemma and_1_cases: "(x :: u32) AND 1 \<in> {0, 1}"
  by (simp add: and_one_eq odd_iff_mod_2_eq_one mod2_eq_if)

lemma raw_cast [simp]:
  "ImageFormat_raw (ImageFormat_cast (x AND 3)) = x AND 3"
  "Viewport_raw (Viewport_cast (x AND 3)) = x AND 3"
  "TransferEncoding_raw (TransferEncoding_cast (x AND 3)) = x AND 3"
  using and_3_cases [of x] by (auto simp: mask_cast_defs)

lemma raw_cast_1 [simp]:
  "PixelDensity_raw (PixelDensity_cast (x AND 1)) = x AND 1"
  "SaveData_raw (SaveData_cast (x AND 1)) = x AND 1"
  using and_1_cases [of x] by (auto simp: mask_cast_defs)

lemma and_take_bit:
  "(x :: u32) AND 3 = take_bit 2 x" "x AND 1 = take_bit (Suc 0) x" "x AND 0xFF = take_bit 8 x"
  by (simp_all add: take_bit_eq_mask mask_eq_exp_minus_1)

lemma Encode_Decode: "Encode (Decode w) = w AND 0xFF"
proof (rule bit_word_eqI)
  fix n
  assume "n < LENGTH(32)"
  have eq: "Encode (Decode w) = (w AND 3) OR push_bit 2 (drop_bit 2 w AND 3)
      OR push_bit 4 (drop_bit 4 w AND 1) OR push_bit 5 (drop_bit 5 w AND 1)
      OR push_bit 6 (drop_bit 6 w AND 3)"
    unfolding Encode_def Decode_def by simp
  have "n = 0 \<or> n = 1 \<or> n = 2 \<or> n = 3 \<or> n = 4 \<or> n = 5 \<or> n = 6 \<or> n = 7 \<or> 8 \<le> n"
    by linarith
  then show "bit (Encode (Decode w)) n \<longleftrightarrow> bit (w AND 0xFF) n"
    unfolding eq and_take_bit
    by (elim disjE)
       (auto simp: bit_or_iff bit_push_bit_iff bit_take_bit_iff bit_drop_bit_eq even_drop_bit_iff_not_bit)
qed

lemma Decode_Encode: "Decode (Encode m) = m"
  by (cases m; cases "image_format m"; cases "viewport m"; cases "pixel_density m";
      cases "save_data m"; cases "transfer_encoding m")
     (simp_all add: Encode_def Decode_def mask_cast_defs)

lemma Encode_le: "Encode m \<le> 0xFF"
proof -
  have "Encode m = Encode m AND 0xFF" using Encode_Decode [of "Encode m"] by (simp add: Decode_Encode)
  then show ?thesis by (metis word_and_le1)
qed

section \<open>Whole tokens of an Accept header\<close>

lemma sv_find_str_from_None:
  "sv_find_str_from n pos s = None \<longleftrightarrow> (\<forall>i \<ge> pos. i \<le> length s \<longrightarrow> \<not> starts_with n (drop i s))"
  if "pos \<le> length s"
proof -
  have "(\<exists>u v. drop pos s = u @ n @ v) \<longleftrightarrow> (\<exists>i \<ge> pos. i \<le> length s \<and> starts_with n (drop i s))"
  proof
    assume "\<exists>u v. drop pos s = u @ n @ v"
    then obtain u v where uv: "drop pos s = u @ n @ v" by blast
    then have "drop (pos + length u) s = n @ v"
      by (metis add.commute append_eq_conv_conj drop_drop)
    moreover have "pos + length u \<le> length s"
      using that arg_cong [OF uv, of length] by simp
    ultimately show "\<exists>i \<ge> pos. i \<le> length s \<and> starts_with n (drop i s)"
      by (metis le_add1 starts_with_append)
  next
    assume "\<exists>i \<ge> pos. i \<le> length s \<and> starts_with n (drop i s)"
    then obtain i v where "pos \<le> i" "drop i s = n @ v" by (auto simp: starts_with_iff)
    then have "drop pos s = take (i - pos) (drop pos s) @ n @ v"
      by (metis append_take_drop_id drop_drop le_add_diff_inverse2)
    then show "\<exists>u v. drop pos s = u @ n @ v" by blast
  qed
  then show ?thesis
    by (auto simp: sv_find_str_from_def sv_find_str_None)
qed

lemma sv_find_str_from_Some:
  assumes "sv_find_str_from n pos s = Some f" "pos \<le> length s"
  shows "pos \<le> f" "f \<le> length s" "starts_with n (drop f s)"
    "\<And>i. pos \<le> i \<Longrightarrow> i < f \<Longrightarrow> \<not> starts_with n (drop i s)"
proof -
  obtain k where k: "sv_find_str n (drop pos s) = Some k" "f = pos + k"
    using assms(1) by (auto simp: sv_find_str_from_def)
  show "pos \<le> f" "f \<le> length s" "starts_with n (drop f s)"
    using sv_find_str_Some [OF k(1)] k(2) assms(2) by (auto simp: add.commute)
  show "\<not> starts_with n (drop i s)" if "pos \<le> i" "i < f" for i
    using sv_find_str_least [OF k(1), of "i - pos"] that k(2) by simp
qed

definition token_at :: "string \<Rightarrow> string \<Rightarrow> nat \<Rightarrow> bool" where
  "token_at accept mime i \<longleftrightarrow>
     starts_with mime (drop i accept) \<and> accept_left_ok accept i \<and>
     accept_right_ok accept (i + length mime)"

lemma AcceptContains_loop_iff:
  "m \<noteq> [] \<Longrightarrow> AcceptContains_loop a m pos \<longleftrightarrow> (\<exists>i \<ge> pos. i < length a \<and> token_at a m i)"
proof (induction a m pos rule: AcceptContains_loop.induct)
  case (1 a m pos)
  show ?case
  proof (cases "pos < length a")
    case False
    then show ?thesis by (auto simp: AcceptContains_loop.simps [of a m pos])
  next
    case True
    show ?thesis
    proof (cases "sv_find_str_from m pos a")
      case None
      then have "\<not> AcceptContains_loop a m pos"
        by (simp add: AcceptContains_loop.simps [of a m pos])
      with None True show ?thesis
        by (auto simp: sv_find_str_from_None token_at_def)
    next
      case (Some f)
      note f = sv_find_str_from_Some [OF Some less_imp_le [OF True]]
      have "f < length a" using f(2,3) 1(2) by (cases "f = length a") (auto simp: starts_with_def)
      moreover have "token_at a m i \<Longrightarrow> pos \<le> i \<Longrightarrow> f \<le> i" for i
        using f(4) [of i] by (force simp: token_at_def)
      ultimately have after_f: "(\<exists>i \<ge> pos. i < length a \<and> token_at a m i) \<longleftrightarrow>
          token_at a m f \<or> (\<exists>i \<ge> f + 1. i < length a \<and> token_at a m i)"
        using f(1) by (metis Suc_eq_plus1 Suc_le_eq le_neq_implies_less less_imp_le order_trans)
      show ?thesis
      proof (cases "accept_left_ok a f \<and> accept_right_ok a (f + length m)")
        case True
        with Some \<open>pos < length a\<close> f(3) show ?thesis
          unfolding after_f by (simp add: AcceptContains_loop.simps [of a m pos] token_at_def)
      next
        case False
        with 1 Some \<open>pos < length a\<close> have "AcceptContains_loop a m (f + 1) \<longleftrightarrow>
            (\<exists>i \<ge> f + 1. i < length a \<and> token_at a m i)" by blast
        with False Some \<open>pos < length a\<close> show ?thesis
          unfolding after_f by (auto simp: AcceptContains_loop.simps [of a m pos] token_at_def)
      qed
    qed
  qed
qed

lemma token_at_iff:
  assumes "m \<noteq> []"
  shows "(\<exists>i < length a. token_at a m i) \<longleftrightarrow>
    (\<exists>u v. a = u @ m @ v \<and> (u = [] \<or> last u \<in> set '', '' \<or> last u = CHR 0x09) \<and>
       (v = [] \<or> hd v \<in> set '',; '' \<or> hd v = CHR 0x09))" (is "?L = ?R")
proof
  assume ?L
  then obtain i where i: "i < length a" "token_at a m i" by blast
  then obtain v where v: "drop i a = m @ v" by (auto simp: token_at_def starts_with_iff)
  define u where "u = take i a"
  have a: "a = u @ m @ v" using v by (metis append_take_drop_id u_def)
  moreover have "length u = i" using i by (simp add: u_def)
  ultimately show ?R using i(2)
    by (intro exI [of _ u] exI [of _ v])
       (auto simp: token_at_def accept_left_ok_def accept_right_ok_def nth_append last_conv_nth hd_conv_nth)
next
  assume ?R
  then obtain u v where a: "a = u @ m @ v" and "u = [] \<or> last u \<in> set '', '' \<or> last u = CHR 0x09"
    "v = [] \<or> hd v \<in> set '',; '' \<or> hd v = CHR 0x09" by blast
  then have "token_at a m (length u)"
    by (auto simp: token_at_def accept_left_ok_def accept_right_ok_def nth_append last_conv_nth hd_conv_nth)
  with a assms show ?L by (intro exI [of _ "length u"]) auto
qed

section \<open>FromHeaders\<close>

lemma ParseViewport_cases: "ParseViewport ua \<noteq> kViewport3"
  by (simp add: ParseViewport_def Let_def)

lemma ParseAcceptEncoding_cases: "ParseAcceptEncoding ae \<noteq> kReserved"
  by (simp add: ParseAcceptEncoding_def Let_def)

lemma FromHeaders_fields:
  "image_format (FromHeaders a ua sd ae dpr) \<noteq> kSvg"
  "viewport (FromHeaders a ua sd ae dpr) = ParseViewport ua"
  "transfer_encoding (FromHeaders a ua sd ae dpr) = ParseAcceptEncoding ae"
  by (auto simp: FromHeaders_def Let_def split: option.splits)

lemma accept_wildcard:
  "AcceptContains ''*/*'' ''image/avif'' = AcceptContains [] ''image/avif''"
  "AcceptContains ''*/*'' ''*/*''"
  by code_simp+

section \<open>Device pixel ratio\<close>

definition dec_val :: "string \<Rightarrow> nat" where
  "dec_val ds = foldl (\<lambda>v c. v * 10 + digit_value c) 0 ds"

lemma foldl_dec: "foldl (\<lambda>v c. v * 10 + digit_value c) a ds = a * 10 ^ length ds + dec_val ds"
proof (induction ds rule: rev_induct)
  case Nil
  then show ?case by (simp add: dec_val_def)
next
  case (snoc d ds)
  then show ?case by (simp add: dec_val_def algebra_simps)
qed

lemma dec_val_simps [simp]:
  "dec_val [] = 0"
  "dec_val (c # cs) = digit_value c * 10 ^ length cs + dec_val cs"
  "dec_val (a @ b) = dec_val a * 10 ^ length b + dec_val b"
proof -
  show "dec_val [] = 0" by (simp add: dec_val_def)
  show "dec_val (c # cs) = digit_value c * 10 ^ length cs + dec_val cs"
    using foldl_dec [of "digit_value c" cs] by (simp add: dec_val_def)
  show "dec_val (a @ b) = dec_val a * 10 ^ length b + dec_val b"
    using foldl_dec [of "dec_val a" b] by (simp add: dec_val_def)
qed

lemma digit_value_less: "is_digit_char c \<Longrightarrow> digit_value c < 10"
  by (auto simp: is_digit_char_def digit_value_def less_eq_char_def)

lemma dec_val_less: "list_all is_digit_char ds \<Longrightarrow> dec_val ds < 10 ^ length ds"
proof (induction ds)
  case Nil
  then show ?case by simp
next
  case (Cons d ds)
  then have "digit_value d + 1 \<le> 10" "dec_val ds < 10 ^ length ds"
    using digit_value_less [of d] by auto
  then have "digit_value d * 10 ^ length ds + dec_val ds < (digit_value d + 1) * 10 ^ length ds" by simp
  also have "\<dots> \<le> 10 * 10 ^ length ds" using \<open>digit_value d + 1 \<le> 10\<close> by (rule mult_right_mono) simp
  finally show ?case by simp
qed

lemma saturating_dec:
  "v = w \<or> (1000 \<le> v \<and> 1000 \<le> w) \<Longrightarrow>
   (let v' = foldl (\<lambda>v c. if v < 1000 then v * 10 + digit_value c else v) v ds;
        w' = foldl (\<lambda>v c. v * 10 + digit_value c) w ds
    in v' = w' \<or> (1000 \<le> v' \<and> 1000 \<le> w'))"
proof (induction ds arbitrary: v w)
  case Nil
  then show ?case by simp
next
  case (Cons d ds)
  show ?case
    using Cons.prems by (simp only: foldl.simps, intro Cons.IH) auto
qed

lemma saturating_dec_iff:
  assumes "x = foldl (\<lambda>v c. if v < 1000 then v * 10 + digit_value c else v) 0 ds"
  shows "(2 \<le> x \<longleftrightarrow> 2 \<le> dec_val ds)" "(x = 1 \<longleftrightarrow> dec_val ds = 1)"
  using saturating_dec [of 0 0 ds] assms by (auto simp: Let_def dec_val_def)

lemma half_of_fraction:
  assumes "list_all is_digit_char f"
  shows "(10 ^ length f \<le> 2 * dec_val f) \<longleftrightarrow> f \<noteq> [] \<and> 5 \<le> digit_value (hd f)"
proof (cases f)
  case Nil
  then show ?thesis by simp
next
  case (Cons d ds)
  with assms have lt: "dec_val ds < 10 ^ length ds" using dec_val_less by simp
  show ?thesis
  proof (cases "5 \<le> digit_value d")
    case True
    then obtain k where "digit_value d = 5 + k" using le_Suc_ex by blast
    with Cons show ?thesis by (simp add: algebra_simps)
  next
    case False
    have "digit_value d * 10 ^ length ds + dec_val ds < (digit_value d + 1) * 10 ^ length ds"
      using lt by simp
    also have "\<dots> \<le> 5 * 10 ^ length ds" using False by (intro mult_right_mono) auto
    finally have "digit_value d * 10 ^ length ds + dec_val ds < 5 * 10 ^ length ds" .
    with Cons False show ?thesis by simp
  qed
qed

lemma dpr_threshold:
  assumes "list_all is_digit_char f"
  shows "3 * 10 ^ length f \<le> 2 * (x * 10 ^ length f + dec_val f) \<longleftrightarrow>
    2 \<le> x \<or> (x = 1 \<and> f \<noteq> [] \<and> 5 \<le> digit_value (hd f))"
proof -
  have lt: "dec_val f < 10 ^ length f" by (rule dec_val_less [OF assms])
  consider "x = 0" | "x = 1" | k where "x = k + 2" by (metis One_nat_def add_2_eq_Suc' not0_implies_Suc)
  then show ?thesis
  proof cases
    case 1
    with lt show ?thesis by simp
  next
    case 2
    with half_of_fraction [OF assms] show ?thesis by auto
  next
    case 3
    then show ?thesis by (simp add: algebra_simps)
  qed
qed

lemma digits_not_ows: "is_digit_char c \<Longrightarrow> \<not> is_ows c"
  by (auto simp: is_digit_char_def is_ows_def less_eq_char_def)

lemma dot_not_ows: "\<not> is_ows (CHR ''.'')" "\<not> is_digit_char (CHR ''.'')"
  by (auto simp: is_digit_char_def is_ows_def less_eq_char_def)

lemma dpr_trim:
  assumes "list_all is_digit_char i" "list_all is_digit_char f"
  shows "trim is_ows (i @ CHR ''.'' # f) = i @ CHR ''.'' # f"
proof (rule trim_id)
  show "i @ CHR ''.'' # f = [] \<or> \<not> is_ows (hd (i @ CHR ''.'' # f)) \<and> \<not> is_ows (last (i @ CHR ''.'' # f))"
    using assms digits_not_ows dot_not_ows
    by (cases i; cases f rule: rev_cases) (auto simp: list_all_iff)
qed

lemma DprHint_decimal:
  assumes "list_all is_digit_char i" "list_all is_digit_char f" "i \<noteq> [] \<or> f \<noteq> []"
  shows "DprHintIsHighDensity (i @ CHR ''.'' # f) = Some (3 * 10 ^ length f \<le> 2 * dec_val (i @ f))"
proof -
  have tw: "takeWhile is_digit_char (i @ CHR ''.'' # f) = i"
    "dropWhile is_digit_char (i @ CHR ''.'' # f) = CHR ''.'' # f"
    "takeWhile is_digit_char f = f" "dropWhile is_digit_char f = []"
    using assms dot_not_ows(2) by (auto simp: list_all_iff takeWhile_tail dropWhile_append)
  have thr: "3 * 10 ^ length f \<le> 2 * dec_val (i @ f) \<longleftrightarrow>
      2 \<le> dec_val i \<or> (dec_val i = 1 \<and> f \<noteq> [] \<and> 5 \<le> digit_value (hd f))"
    unfolding dec_val_simps by (rule dpr_threshold [OF assms(2)])
  show ?thesis
    unfolding thr using assms saturating_dec_iff [OF refl, of i]
    by (auto simp: DprHintIsHighDensity_def Let_def dpr_trim tw)
qed

section \<open>Dimension iterator\<close>

lemma ForEach_length: "length (DimensionIterator_ForEach config base) = DimensionIterator_Count config"
  by (simp add: DimensionIterator_ForEach_def DimensionIterator_Count_def Let_def)

lemma mask_product_mem:
  "m \<in> set (concat (map (\<lambda>f. concat (map (\<lambda>v. concat (map (\<lambda>d. map (\<lambda>s.
       \<lparr>image_format = f, viewport = v, pixel_density = d, save_data = s, transfer_encoding = e\<rparr>)
       ss) ds)) vs)) fs)) \<longleftrightarrow>
   image_format m \<in> set fs \<and> viewport m \<in> set vs \<and> pixel_density m \<in> set ds \<and>
   save_data m \<in> set ss \<and> transfer_encoding m = e"
  by (cases m) (auto simp: image_iff)

lemma dimension_values:
  "set [kOriginal, kWebP, kAvif] = {f. f \<noteq> kSvg}" "set [kMobile, kTablet, kDesktop] = {v. v \<noteq> kViewport3}"
  "set [k1x, k2xPlus] = UNIV" "set [kOff, kOn] = UNIV" "set [x] = {x}"
  by (auto intro: ImageFormat.exhaust Viewport.exhaust PixelDensity.exhaust SaveData.exhaust)

lemma ForEach_mem:
  "m \<in> set (DimensionIterator_ForEach config base) \<longleftrightarrow>
     transfer_encoding m = transfer_encoding base \<and>
     (if iterate_formats config then image_format m \<noteq> kSvg else image_format m = image_format base) \<and>
     (if iterate_viewports config then viewport m \<noteq> kViewport3 else viewport m = viewport base) \<and>
     (iterate_densities config \<or> pixel_density m = pixel_density base) \<and>
     (iterate_savedata config \<or> save_data m = save_data base)"
  unfolding DimensionIterator_ForEach_def Let_def mask_product_mem
  by (cases "iterate_formats config"; cases "iterate_viewports config";
      cases "iterate_densities config"; cases "iterate_savedata config")
     (simp_all only: if_True if_False simp_thms dimension_values mem_Collect_eq UNIV_I singleton_iff, blast+)

lemma ForEach_distinct: "distinct (DimensionIterator_ForEach config base)"
  by (simp add: DimensionIterator_ForEach_def Let_def)

section \<open>Properties\<close>

text \<open>
  C16: the 32-bit encoding of a capability mask loses nothing, and decoding any 32-bit word keeps
  exactly its low eight bits: the cache's one-byte alternate id stands for the whole mask.
\<close>

theorem Encode_Decode_roundtrip:
  "Decode (Encode m) = m \<and> Encode (Decode w) = w AND 0xFF"
  by (simp add: Decode_Encode Encode_Decode)

text \<open>
  whatever the request headers are, the mask built from them names a real viewport and a real
  encoding, never the worker-only SVG format, and its encoding is never one of the four sentinels.
\<close>

theorem FromHeaders_never_sentinel:
  "image_format (FromHeaders a ua sd ae dpr) \<noteq> kSvg \<and>
   viewport (FromHeaders a ua sd ae dpr) \<noteq> kViewport3 \<and>
   transfer_encoding (FromHeaders a ua sd ae dpr) \<noteq> kReserved \<and>
   Encode (FromHeaders a ua sd ae dpr) \<notin>
     {kWarmupSentinel, kLlmsTxtSentinel, kOriginRefreshedSentinel, kEarlyHintsSentinel}"
proof -
  have "w \<le> 0xFF \<Longrightarrow> w \<notin> {kWarmupSentinel, kLlmsTxtSentinel, kOriginRefreshedSentinel, kEarlyHintsSentinel}"
    for w :: u32
    by (auto simp: kWarmupSentinel_def kLlmsTxtSentinel_def kOriginRefreshedSentinel_def
        kEarlyHintsSentinel_def)
  then show ?thesis
    using Encode_le by (simp add: FromHeaders_fields ParseViewport_cases ParseAcceptEncoding_cases)
qed

text \<open>
  C17: the Accept scan finds a media type exactly when the header contains it as a whole token:
  preceded by the start, a comma or white space, and followed by the end, a comma, a semicolon or
  white space.
\<close>

theorem AcceptContains_iff_token:
  assumes "mime \<noteq> []"
  shows "AcceptContains accept mime \<longleftrightarrow>
    (\<exists>u v. accept = u @ mime @ v \<and> (u = [] \<or> last u \<in> set '', '' \<or> last u = CHR 0x09) \<and>
       (v = [] \<or> hd v \<in> set '',; '' \<or> hd v = CHR 0x09))"
  using AcceptContains_loop_iff [OF assms, of accept 0] token_at_iff [OF assms, of accept]
  by (simp add: AcceptContains_def)

theorem AcceptContains_iff_token_witness:
  "AcceptContains ''text/html, image/webp;q=0.8'' ''image/webp'' \<and>
   ''image/webp'' \<noteq> []"
proof -
  have "\<exists>u v. ''text/html, image/webp;q=0.8'' = u @ ''image/webp'' @ v \<and>
      (u = [] \<or> last u \<in> set '', '' \<or> last u = CHR 0x09) \<and>
      (v = [] \<or> hd v \<in> set '',; '' \<or> hd v = CHR 0x09)"
    by (rule exI [of _ "''text/html, ''"], rule exI [of _ "'';q=0.8''"]) simp
  then show ?thesis
    using AcceptContains_iff_token [of "''image/webp''" "''text/html, image/webp;q=0.8''"] by simp
qed

text \<open>
  a device-pixel-ratio hint written as a decimal number (integer digits, a point, fraction
  digits) is classified as high density exactly when its numeric value is at least 1.5, although the
  code saturates the integer part and looks at one fraction digit only.
\<close>

theorem DprHint_at_least_one_and_a_half:
  assumes "list_all is_digit_char i" and "list_all is_digit_char f" and "i \<noteq> [] \<or> f \<noteq> []"
  shows "DprHintIsHighDensity (i @ CHR ''.'' # f) =
    Some (3 * 10 ^ length f \<le> 2 * dec_val (i @ f))"
  using assms by (rule DprHint_decimal)

theorem DprHint_at_least_one_and_a_half_witness:
  "DprHintIsHighDensity ''1.49'' = Some False"
  using DprHint_at_least_one_and_a_half [of "''1''" "''49''"]
  by (simp add: is_digit_char_def digit_value_def less_eq_char_def)

text \<open>
  a request without an Accept header gets the same mask as one with the wildcard it stands for,
  and neither of them opts into agent markdown.
\<close>

theorem FromHeaders_absent_accept:
  "FromHeaders [] ua sd ae dpr = FromHeaders ''*/*'' ua sd ae dpr \<and>
   \<not> WantsAgentMarkdown [] \<and> \<not> WantsAgentMarkdown ''*/*''"
proof -
  have "\<not> WantsAgentMarkdown [] \<and> \<not> WantsAgentMarkdown ''*/*''" by code_simp
  then show ?thesis by (simp add: FromHeaders_def accept_wildcard)
qed

text \<open>
  the dimension iterator visits each mask of the enabled product exactly once, as many as it
  announces, and never the SVG format or an invalid viewport for a dimension it iterates.
\<close>

theorem DimensionIterator_exact:
  "distinct (DimensionIterator_ForEach config base) \<and>
   length (DimensionIterator_ForEach config base) = DimensionIterator_Count config \<and>
   (m \<in> set (DimensionIterator_ForEach config base) \<longleftrightarrow>
     transfer_encoding m = transfer_encoding base \<and>
     (if iterate_formats config then image_format m \<noteq> kSvg else image_format m = image_format base) \<and>
     (if iterate_viewports config then viewport m \<noteq> kViewport3 else viewport m = viewport base) \<and>
     (iterate_densities config \<or> pixel_density m = pixel_density base) \<and>
     (iterate_savedata config \<or> save_data m = save_data base))"
  using ForEach_mem [of m config base] by (simp add: ForEach_distinct ForEach_length)

end
