(* ===== verification/Alternate_Id.thy ===== *)
theory Alternate_Id
  imports Capability_Mask
begin

text \<open>
  The alternate ids and the sentinel registry of \<open>lib/classify/alternate_id.h\<close>.  An alternate id is
  the low byte of a capability mask; the ids whose viewport bits are 3 are the sentinel classes.
\<close>

section \<open>Ids and classes\<close>

type_synonym AlternateId = u8

definition MaskToAlternateId :: "u8 \<Rightarrow> AlternateId" where
  "MaskToAlternateId mask_byte = mask_byte"

definition AlternateIdToMask :: "AlternateId \<Rightarrow> u8" where
  "AlternateIdToMask i = i"

datatype SentinelId = kOriginalContent | kEarlyHints | kWarmupRequest | kContentHash
  | kSubresourceManifest | kBrowserProfile | kHeadersSidecar | kAgentMarkdown | kLlmsTxt
  | kLlmsTxtMeta | kNegativeVerdict | kDeclineTombstone

fun SentinelId_raw :: "SentinelId \<Rightarrow> AlternateId" where
  "SentinelId_raw kOriginalContent = 0x0C"
| "SentinelId_raw kEarlyHints = 0x1C"
| "SentinelId_raw kWarmupRequest = 0x2C"
| "SentinelId_raw kContentHash = 0x3C"
| "SentinelId_raw kSubresourceManifest = 0x4C"
| "SentinelId_raw kBrowserProfile = 0x5C"
| "SentinelId_raw kHeadersSidecar = 0x6C"
| "SentinelId_raw kAgentMarkdown = 0x7C"
| "SentinelId_raw kLlmsTxt = 0x8C"
| "SentinelId_raw kLlmsTxtMeta = 0x9C"
| "SentinelId_raw kNegativeVerdict = 0xAC"
| "SentinelId_raw kDeclineTombstone = 0xBC"

datatype SentinelPayload = kOpaqueLegacy | kMetadataPrefix | kVersionedPayload

datatype SentinelWriter = kEmbedder | kReserved_writer | kDedicated

definition kHeadersSidecarFormatVersion :: nat where
  "kHeadersSidecarFormatVersion = 1"

definition kNegativeVerdictFormatVersion :: nat where
  "kNegativeVerdictFormatVersion = 1"

definition kDeclineTombstoneFormatVersion :: nat where
  "kDeclineTombstoneFormatVersion = 2"

record SentinelRegistryEntry =
  entry_id :: AlternateId
  entry_name :: string
  entry_payload :: SentinelPayload
  entry_writer :: SentinelWriter

definition registry_row :: "SentinelId \<Rightarrow> string \<Rightarrow> SentinelPayload \<Rightarrow> SentinelWriter \<Rightarrow> SentinelRegistryEntry" where
  "registry_row i n p w =
     \<lparr>entry_id = SentinelId_raw i, entry_name = n, entry_payload = p, entry_writer = w\<rparr>"

section \<open>The registry\<close>

definition kSentinelRegistry :: "SentinelRegistryEntry list" where
  "kSentinelRegistry =
    [registry_row kOriginalContent ''original_content'' kMetadataPrefix kDedicated,
     registry_row kEarlyHints ''early_hints'' kOpaqueLegacy kEmbedder,
     registry_row kWarmupRequest ''warmup'' kOpaqueLegacy kEmbedder,
     registry_row kContentHash ''content_hash'' kOpaqueLegacy kEmbedder,
     registry_row kSubresourceManifest ''subresource_manifest'' kOpaqueLegacy kEmbedder,
     registry_row kBrowserProfile ''browser_profile'' kOpaqueLegacy kEmbedder,
     registry_row kHeadersSidecar ''headers_sidecar'' kVersionedPayload kDedicated,
     registry_row kAgentMarkdown ''agent_markdown'' kMetadataPrefix kEmbedder,
     registry_row kLlmsTxt ''llms_txt'' kOpaqueLegacy kEmbedder,
     registry_row kLlmsTxtMeta ''llms_txt_meta'' kOpaqueLegacy kEmbedder,
     registry_row kNegativeVerdict ''negative_verdict'' kVersionedPayload kReserved_writer,
     registry_row kDeclineTombstone ''decline_tombstone'' kVersionedPayload kDedicated]"

definition FindSentinel :: "AlternateId \<Rightarrow> SentinelRegistryEntry option" where
  "FindSentinel i = find (\<lambda>entry. entry_id entry = i) kSentinelRegistry"

definition IsRegisteredSentinel :: "AlternateId \<Rightarrow> bool" where
  "IsRegisteredSentinel i \<longleftrightarrow> FindSentinel i \<noteq> None"

definition IsEmbedderWritableSentinel :: "AlternateId \<Rightarrow> bool" where
  "IsEmbedderWritableSentinel i =
     (case FindSentinel i of None \<Rightarrow> True | Some entry \<Rightarrow> entry_writer entry = kEmbedder)"

definition SentinelName :: "AlternateId \<Rightarrow> string" where
  "SentinelName i =
     (case FindSentinel i of Some entry \<Rightarrow> entry_name entry | None \<Rightarrow> ''unknown_sentinel'')"

definition SentinelPayloadOf :: "AlternateId \<Rightarrow> SentinelPayload option" where
  "SentinelPayloadOf i =
     (case FindSentinel i of None \<Rightarrow> None | Some entry \<Rightarrow> Some (entry_payload entry))"

definition IsSentinel :: "AlternateId \<Rightarrow> bool" where
  "IsSentinel i \<longleftrightarrow> drop_bit 2 i AND 0x03 = 0x03"

definition IsValidViewport :: "u8 \<Rightarrow> bool" where
  "IsValidViewport v \<longleftrightarrow> v \<le> 2"

definition kFrozenOpaqueLegacySentinels :: "AlternateId list" where
  "kFrozenOpaqueLegacySentinels =
     map SentinelId_raw [kEarlyHints, kWarmupRequest, kContentHash, kSubresourceManifest,
       kBrowserProfile, kLlmsTxt, kLlmsTxtMeta]"

section \<open>Lemmas\<close>

lemma registry_ids: "map entry_id kSentinelRegistry =
    [0x0C, 0x1C, 0x2C, 0x3C, 0x4C, 0x5C, 0x6C, 0x7C, 0x8C, 0x9C, 0xAC, 0xBC]"
  by (simp add: kSentinelRegistry_def registry_row_def)

lemma FindSentinel_None: "FindSentinel i = None \<longleftrightarrow> i \<notin> set (map entry_id kSentinelRegistry)"
  by (auto simp: FindSentinel_def find_None_iff)

lemma IsSentinel_iff_Decode:
  "IsSentinel (MaskToAlternateId (ucast (Encode m))) \<longleftrightarrow> viewport m = kViewport3"
  by (cases "image_format m"; cases "viewport m"; cases "pixel_density m"; cases "save_data m";
      cases "transfer_encoding m")
     (simp_all add: IsSentinel_def MaskToAlternateId_def Encode_def)

section \<open>Properties\<close>

text \<open>
  the sentinel registry is sound: every row is a sentinel id, no id appears twice, every
  enumerator has a row, exactly the frozen ids have the unversioned legacy shape, and the generic
  write surface refuses exactly the four dedicated or reserved classes.
\<close>

theorem sentinel_registry_sound:
  "list_all (\<lambda>e. IsSentinel (entry_id e)) kSentinelRegistry \<and>
   distinct (map entry_id kSentinelRegistry) \<and>
   IsRegisteredSentinel (SentinelId_raw s) \<and>
   (SentinelPayloadOf i = Some kOpaqueLegacy \<longleftrightarrow> i \<in> set kFrozenOpaqueLegacySentinels) \<and>
   (\<not> IsEmbedderWritableSentinel i \<longleftrightarrow>
      i \<in> SentinelId_raw ` {kOriginalContent, kHeadersSidecar, kNegativeVerdict, kDeclineTombstone})"
proof -
  have "IsRegisteredSentinel (SentinelId_raw s)"
    by (cases s) (simp_all add: IsRegisteredSentinel_def FindSentinel_None registry_ids)
  moreover have "SentinelPayloadOf i = Some kOpaqueLegacy \<longleftrightarrow> i \<in> set kFrozenOpaqueLegacySentinels"
    by (simp add: SentinelPayloadOf_def FindSentinel_def kSentinelRegistry_def registry_row_def
        kFrozenOpaqueLegacySentinels_def)
  moreover have "\<not> IsEmbedderWritableSentinel i \<longleftrightarrow>
      i \<in> SentinelId_raw ` {kOriginalContent, kHeadersSidecar, kNegativeVerdict, kDeclineTombstone}"
    by (simp add: IsEmbedderWritableSentinel_def FindSentinel_def kSentinelRegistry_def registry_row_def)
  moreover have "list_all (\<lambda>e. IsSentinel (entry_id e)) kSentinelRegistry"
    by (simp add: kSentinelRegistry_def registry_row_def IsSentinel_def)
  ultimately show ?thesis by (simp add: registry_ids)
qed

end
