(* ===== verification/Selector.thy ===== *)
theory Selector
  imports Alternate_Id "HOL-Library.Product_Lexorder"
begin

text \<open>
  The alternate selection of \<open>lib/classify/pagespeed_selector.cc\<close>: the score of a stored mask for a
  client mask and the loop that keeps the best alternate.  Of Cyclone's alternate records the code
  reads only the id, so a candidate list is a list of ids; the request metadata is a byte string.
\<close>

section \<open>Score\<close>

definition kSvgFormat :: int where
  "kSvgFormat = 3"

definition kAgentMarkdownScore :: int where
  "kAgentMarkdownScore = 100000"

definition kSaveDataMismatchPenalty :: int where
  "kSaveDataMismatchPenalty = 980"

definition ExtractFormat :: "u32 \<Rightarrow> int" where
  "ExtractFormat m = uint (m AND 0x03)"

definition ExtractViewport :: "u32 \<Rightarrow> int" where
  "ExtractViewport m = uint (drop_bit 2 m AND 0x03)"

definition ExtractDensity :: "u32 \<Rightarrow> int" where
  "ExtractDensity m = uint (drop_bit 4 m AND 0x01)"

definition ExtractSaveData :: "u32 \<Rightarrow> int" where
  "ExtractSaveData m = uint (drop_bit 5 m AND 0x01)"

definition ExtractEncoding :: "u32 \<Rightarrow> int" where
  "ExtractEncoding m = uint (drop_bit 6 m AND 0x03)"

definition ScoreAlternate :: "u32 \<Rightarrow> u32 \<Rightarrow> int" where
  "ScoreAlternate client stored =
     (if IsSentinel (ucast (stored AND 0xFF)) then 0
      else
        (let is_svg = (ExtractFormat stored = kSvgFormat)
         in if \<not> is_svg \<and> ExtractFormat client \<noteq> ExtractFormat stored \<and> ExtractFormat stored \<noteq> 0 then 0
            else
              (let score = (if is_svg then 1200
                            else if ExtractFormat client = ExtractFormat stored then 1000
                            else 100);
                   score = (if is_svg \<or> ExtractViewport client = ExtractViewport stored
                            then score + 2000 else score);
                   score = (if is_svg \<or> ExtractDensity client = ExtractDensity stored
                            then score + 40 else score);
                   score = (if is_svg \<and> ExtractSaveData client = 1 then score + 50
                            else if ExtractSaveData client = ExtractSaveData stored then score + 20
                            else if \<not> is_svg \<and> ExtractSaveData stored = 1
                            then score - kSaveDataMismatchPenalty
                            else score);
                   client_enc = ExtractEncoding client;
                   stored_enc = ExtractEncoding stored
               in if client_enc \<noteq> stored_enc \<and> stored_enc \<noteq> 0 then 0
                  else
                    (let score = (if client_enc = stored_enc then score + 60 else score + 5)
                     in if score > 0 then score else 1))))"

section \<open>Selection\<close>

record select_state =
  best_idx :: "nat option"
  best_score :: int
  best_mask :: u8

definition select_init :: select_state where
  "select_init = \<lparr>best_idx = None, best_score = 0, best_mask = 0\<rparr>"

text \<open>One iteration of the loop over the alternates, for the alternate \<open>alt\<close> at index \<open>i\<close>.\<close>

definition select_step :: "u32 \<Rightarrow> bool \<Rightarrow> nat \<Rightarrow> AlternateId \<Rightarrow> select_state \<Rightarrow> select_state" where
  "select_step client agent_request i alt st =
     (if IsSentinel alt then
        (if alt = SentinelId_raw kOriginalContent then st
         else if agent_request \<and> alt = SentinelId_raw kAgentMarkdown \<and>
                 kAgentMarkdownScore > best_score st
         then st\<lparr>best_score := kAgentMarkdownScore, best_idx := Some i\<rparr>
         else st)
      else
        (let stored = ucast (AlternateIdToMask alt);
             score = ScoreAlternate client stored;
             wins = (score > best_score st \<or>
                     (best_idx st \<noteq> None \<and> score = best_score st \<and>
                      (let cand_fmt = ExtractFormat stored;
                           best_fmt = ExtractFormat (ucast (best_mask st))
                       in cand_fmt > best_fmt \<or> (cand_fmt = best_fmt \<and> alt > best_mask st))))
         in if wins then \<lparr>best_idx = Some i, best_score = score, best_mask = alt\<rparr> else st))"

fun select_loop :: "u32 \<Rightarrow> bool \<Rightarrow> nat \<Rightarrow> AlternateId list \<Rightarrow> select_state \<Rightarrow> select_state" where
  "select_loop client agent i [] st = st"
| "select_loop client agent i (alt # alts) st =
     select_loop client agent (Suc i) alts (select_step client agent i alt st)"

definition metadata_client_mask :: "string \<Rightarrow> u32" where
  "metadata_client_mask request_metadata =
     (if length request_metadata \<ge> 4 then word_of_nat (le_val (take 4 request_metadata)) else 0)"

definition metadata_agent_request :: "string \<Rightarrow> bool" where
  "metadata_agent_request request_metadata \<longleftrightarrow>
     length request_metadata \<ge> 5 \<and> of_char (request_metadata ! 4) \<noteq> (0 :: nat)"

definition select :: "AlternateId list \<Rightarrow> string \<Rightarrow> nat option" where
  "select alternates request_metadata =
     (if alternates = [] then None
      else best_idx (select_loop (metadata_client_mask request_metadata)
             (metadata_agent_request request_metadata) 0 alternates select_init))"

section \<open>Score tiers\<close>

text \<open>
  The key the loop maximises: the score, then the format, then the mask byte; the agent markdown
  sentinel has the fixed top score, and every other sentinel and every zero score has no key.
\<close>

definition select_key :: "u32 \<Rightarrow> bool \<Rightarrow> AlternateId \<Rightarrow> (int \<times> int \<times> nat) option" where
  "select_key client agent alt =
     (if IsSentinel alt then
        (if agent \<and> alt = SentinelId_raw kAgentMarkdown then Some (kAgentMarkdownScore, 0, 0) else None)
      else if ScoreAlternate client (ucast alt) > 0
      then Some (ScoreAlternate client (ucast alt), ExtractFormat (ucast alt), unat alt)
      else None)"

definition state_best :: "select_state \<Rightarrow> (nat \<times> int \<times> int \<times> nat) option" where
  "state_best st = map_option (\<lambda>i. (i,
     if best_score st = kAgentMarkdownScore then (kAgentMarkdownScore, 0, 0)
     else (best_score st, ExtractFormat (ucast (best_mask st)), unat (best_mask st)))) (best_idx st)"

definition state_ok :: "select_state \<Rightarrow> bool" where
  "state_ok st \<longleftrightarrow>
     (best_idx st = None \<longleftrightarrow> best_score st = 0) \<and> 0 \<le> best_score st \<and> best_score st \<le> kAgentMarkdownScore"

lemmas score_consts = kSvgFormat_def kAgentMarkdownScore_def kSaveDataMismatchPenalty_def

lemma uint_and_1: "uint ((x :: u32) AND 1) = 0 \<or> uint (x AND 1) = 1"
  using and_1_cases [of x] by auto

lemma ExtractSaveData_cases: "ExtractSaveData m = 0 \<or> ExtractSaveData m = 1"
  unfolding ExtractSaveData_def by (rule uint_and_1)

lemma score_nonneg: "0 \<le> ScoreAlternate c s"
  by (simp add: ScoreAlternate_def Let_def)

lemma score_svg:
  "ExtractFormat s = 3 \<Longrightarrow> ScoreAlternate c s = 0 \<or> (3245 \<le> ScoreAlternate c s \<and> ScoreAlternate c s \<le> 3350)"
  by (simp add: ScoreAlternate_def Let_def score_consts)

lemma score_raster_max: "ExtractFormat s \<noteq> 3 \<Longrightarrow> ScoreAlternate c s \<le> 3120"
  by (simp add: ScoreAlternate_def Let_def score_consts)

lemma score_less_markdown: "ScoreAlternate c s < kAgentMarkdownScore"
  using score_svg [of s c] score_raster_max [of s c] by (cases "ExtractFormat s = 3") (auto simp: score_consts)

lemma select_step_best:
  assumes "state_ok st"
  shows "state_best (select_step c a i alt st) =
    (case select_key c a alt of None \<Rightarrow> state_best st
     | Some k \<Rightarrow> (case state_best st of None \<Rightarrow> Some (i, k)
                  | Some (j, k') \<Rightarrow> if k' < k then Some (i, k) else state_best st))"
proof (cases "IsSentinel alt")
  case True
  have "IsSentinel (SentinelId_raw kAgentMarkdown)" by (simp add: IsSentinel_def)
  with True assms show ?thesis
    by (cases "best_idx st")
       (auto simp: select_step_def select_key_def state_best_def state_ok_def score_consts)
next
  case False
  define s where "s = ScoreAlternate c (ucast alt)"
  have s: "0 \<le> s" "s < kAgentMarkdownScore"
    by (simp_all add: s_def score_nonneg score_less_markdown)
  show ?thesis
  proof (cases "best_idx st")
    case None
    with assms have "best_score st = 0" by (simp add: state_ok_def)
    with None False s show ?thesis
      by (auto simp: select_step_def select_key_def state_best_def Let_def AlternateIdToMask_def
          simp flip: s_def)
  next
    case (Some j)
    with assms have b: "0 < best_score st" "best_score st \<le> kAgentMarkdownScore"
      by (auto simp: state_ok_def)
    show ?thesis
    proof (cases "best_score st = kAgentMarkdownScore")
      case True
      with Some False s show ?thesis
        by (auto simp: select_step_def select_key_def state_best_def Let_def AlternateIdToMask_def
            less_prod_def simp flip: s_def)
    next
      case nmd: False
      with Some False s b show ?thesis
        by (auto simp: select_step_def select_key_def state_best_def Let_def AlternateIdToMask_def
            less_prod_def word_less_nat_alt simp flip: s_def)
    qed
  qed
qed

lemma select_step_ok: "state_ok st \<Longrightarrow> state_ok (select_step c a i alt st)"
  using score_nonneg [of c "ucast alt"] score_less_markdown [of c "ucast alt"]
  by (auto simp: select_step_def state_ok_def Let_def AlternateIdToMask_def score_consts)

interpretation sel: best_scan "select_key c a" "select_step c a" select_init state_best state_ok for c a
proof unfold_locales
  show "state_ok select_init" by (simp add: state_ok_def select_init_def score_consts)
  show "state_best select_init = None" by (simp add: state_best_def select_init_def)
qed (simp_all add: select_step_ok select_step_best)

lemma select_loop_scan: "select_loop c a i alts st = sel.scan c a i alts st"
  by (induction alts arbitrary: i st) auto

lemma select_best:
  "select alts meta = map_option fst (state_best (sel.scan (metadata_client_mask meta)
     (metadata_agent_request meta) 0 alts select_init))"
  by (cases alts) (auto simp: select_def select_loop_scan state_best_def map_option.compositionality o_def
      select_init_def option.map_ident)

lemma select_key_id:
  "select_key c a x = Some k \<Longrightarrow> select_key c a y = Some k \<Longrightarrow> x = y"
  using score_less_markdown [of c "ucast x"] score_less_markdown [of c "ucast y"]
  by (auto simp: select_key_def word_unat_eq_iff split: if_splits)

section \<open>Tiers\<close>

lemma score_exact:
  assumes "ScoreAlternate c s > 0" "ExtractFormat s \<noteq> 3" "ExtractFormat c = ExtractFormat s"
  shows "if ExtractSaveData c = 0 \<and> ExtractSaveData s = 1
         then (if ExtractViewport c = ExtractViewport s then 2025 \<le> ScoreAlternate c s \<and> ScoreAlternate c s \<le> 2120
               else 25 \<le> ScoreAlternate c s \<and> ScoreAlternate c s \<le> 120)
         else (if ExtractViewport c = ExtractViewport s then
                 3005 + 20 * (1 - ExtractSaveData c) \<le> ScoreAlternate c s \<and> ScoreAlternate c s \<le> 3120
               else 1005 + 20 * (1 - ExtractSaveData c) \<le> ScoreAlternate c s \<and> ScoreAlternate c s \<le> 1120)"
  using assms ExtractSaveData_cases [of c] ExtractSaveData_cases [of s]
  by (auto simp: ScoreAlternate_def Let_def score_consts split: if_splits)

lemma score_fallback:
  assumes "ScoreAlternate c s > 0" "ExtractFormat s \<noteq> 3" "ExtractFormat c \<noteq> ExtractFormat s"
  shows "ExtractFormat s = 0" 
    "if ExtractSaveData c = 0 \<and> ExtractSaveData s = 1
         then (if ExtractViewport c = ExtractViewport s then 1125 \<le> ScoreAlternate c s \<and> ScoreAlternate c s \<le> 1220
               else ScoreAlternate c s = 1)
         else (if ExtractViewport c = ExtractViewport s then
                 2105 + 20 * (1 - ExtractSaveData c) \<le> ScoreAlternate c s \<and> ScoreAlternate c s \<le> 2220
               else 105 + 20 * (1 - ExtractSaveData c) \<le> ScoreAlternate c s \<and> ScoreAlternate c s \<le> 220)"
  using assms ExtractSaveData_cases [of c] ExtractSaveData_cases [of s]
  by (auto simp: ScoreAlternate_def Let_def score_consts split: if_splits)

lemma score_positive_decodable:
  assumes "0 < ScoreAlternate c s"
  shows "ExtractFormat s \<in> {ExtractFormat c, 0, kSvgFormat}" "ExtractEncoding s \<in> {ExtractEncoding c, 0}"
  using assms by (auto simp: ScoreAlternate_def Let_def split: if_splits)

lemma select_some:
  assumes "select alts meta = Some i"
  shows "i < length alts \<and> (\<exists>k. select_key (metadata_client_mask meta) (metadata_agent_request meta) (alts ! i) = Some k)"
proof -
  from assms obtain k where "state_best (sel.scan (metadata_client_mask meta) (metadata_agent_request meta) 0 alts select_init) = Some (i, k)"
    by (auto simp: select_best)
  then show ?thesis using sel.best_scan_Some sel.is_best_def by metis
qed

section \<open>Properties\<close>

text \<open>
  C19: selection returns an alternate whose (score, format, mask byte) key is maximal among all the
  candidates that may be selected, and returns nothing exactly when there is none.
\<close>

theorem select_maximal:
  "case select alts meta of
     None \<Rightarrow> \<forall>x \<in> set alts. select_key (metadata_client_mask meta) (metadata_agent_request meta) x = None
   | Some i \<Rightarrow> i < length alts \<and>
       (\<exists>k. select_key (metadata_client_mask meta) (metadata_agent_request meta) (alts ! i) = Some k \<and>
          (\<forall>x \<in> set alts. \<forall>k'. select_key (metadata_client_mask meta) (metadata_agent_request meta) x = Some k'
             \<longrightarrow> k' \<le> k))"
  using sel.best_scan_spec [where xs = alts and c = "metadata_client_mask meta" and a = "metadata_agent_request meta"]
  by (auto simp: select_best sel.is_best_def split: option.splits)

theorem select_maximal_witness:
  "select [0x0C, 0x09, 0x0A] [CHR 0x0A, CHR 0x00, CHR 0x00, CHR 0x00] = Some 2"
proof -
  have m: "metadata_client_mask [CHR 0x0A, CHR 0x00, CHR 0x00, CHR 0x00] = 0x0A"
    "metadata_agent_request [CHR 0x0A, CHR 0x00, CHR 0x00, CHR 0x00] = False"
    by (simp_all add: metadata_client_mask_def metadata_agent_request_def)
  have k: "select_key 0x0A False 0x0C = None" "select_key 0x0A False 0x09 = None"
    "select_key 0x0A False 0x0A = Some (3120, 2, 10)"
    by (simp_all add: select_key_def IsSentinel_def ScoreAlternate_def Let_def score_consts
        ExtractFormat_def ExtractViewport_def ExtractDensity_def ExtractSaveData_def ExtractEncoding_def)
  show ?thesis
    using select_maximal [of "[0x0C, 0x09, 0x0A]" "[CHR 0x0A, CHR 0x00, CHR 0x00, CHR 0x00]"]
    by (auto simp: m k less_Suc_eq numeral_eq_Suc nth_Cons split: option.splits nat.splits)
qed

text \<open>
  C20: selection never depends on the order in which the cache lists the alternates: any permutation
  of the candidates selects the same alternate id.
\<close>

theorem select_order_independent:
  assumes "mset alts = mset alts'"
  shows "map_option ((!) alts) (select alts meta) = map_option ((!) alts') (select alts' meta)"
proof -
  let ?c = "metadata_client_mask meta" and ?a = "metadata_agent_request meta"
  let ?b = "\<lambda>xs. state_best (sel.scan ?c ?a 0 xs select_init)"
  have keys: "map_option snd (?b alts) = map_option snd (?b alts')"
    by (rule sel.best_key_perm [OF assms])
  show ?thesis
  proof (cases "?b alts")
    case None
    with keys show ?thesis by (simp add: select_best)
  next
    case (Some ik)
    with keys obtain i j k where ij: "?b alts = Some (i, k)" "?b alts' = Some (j, k)"
      by (cases ik) (auto simp: map_option_case split: option.splits)
    then have "select_key ?c ?a (alts ! i) = Some k" "select_key ?c ?a (alts' ! j) = Some k"
      using sel.best_scan_Some sel.is_best_def by metis+
    then have "alts ! i = alts' ! j" by (rule select_key_id)
    with ij show ?thesis by (simp add: select_best)
  qed
qed

theorem select_order_independent_witness:
  "map_option ((!) [0x08, 0x18 :: u8]) (select [0x08, 0x18] []) =
   map_option ((!) [0x18, 0x08 :: u8]) (select [0x18, 0x08] [])"
  using select_order_independent [of "[0x08, 0x18]" "[0x18, 0x08]" "[]"] by (simp add: add_mset_commute)

text \<open>
  a selected alternate is safe to serve: the durable original is never selected, a sentinel is
  selected only when it is the agent markdown and the request carries the agent flag, and a variant's
  format and encoding are ones the client negotiated, or the original format, SVG, or identity.
\<close>

theorem select_servable:
  assumes "select alts meta = Some i"
  shows "i < length alts \<and> alts ! i \<noteq> SentinelId_raw kOriginalContent \<and>
    (if IsSentinel (alts ! i)
     then alts ! i = SentinelId_raw kAgentMarkdown \<and> metadata_agent_request meta
     else ExtractFormat (ucast (alts ! i)) \<in> {ExtractFormat (metadata_client_mask meta), 0, kSvgFormat} \<and>
          ExtractEncoding (ucast (alts ! i)) \<in> {ExtractEncoding (metadata_client_mask meta), 0})"
proof -
  let ?c = "metadata_client_mask meta" and ?a = "metadata_agent_request meta"
  obtain k where "i < length alts" "select_key ?c ?a (alts ! i) = Some k" using select_some [OF assms] by blast
  moreover have "IsSentinel (SentinelId_raw kOriginalContent)" by (simp add: IsSentinel_def)
  ultimately show ?thesis
    using score_positive_decodable [of ?c "ucast (alts ! i)"]
    by (auto simp: select_key_def split: if_splits)
qed

theorem select_servable_witness:
  "select [0x7C] [CHR 0x0A, CHR 0x00, CHR 0x00, CHR 0x00, CHR 0x01] = Some 0 \<and>
   metadata_agent_request [CHR 0x0A, CHR 0x00, CHR 0x00, CHR 0x00, CHR 0x01]"
proof -
  have "select [0x7C] [CHR 0x0A, CHR 0x00, CHR 0x00, CHR 0x00, CHR 0x01] = Some 0"
    by (simp add: select_def select_step_def select_init_def IsSentinel_def score_consts
        metadata_agent_request_def)
  then show ?thesis
    using select_servable [of "[0x7C]" "[CHR 0x0A, CHR 0x00, CHR 0x00, CHR 0x00, CHR 0x01]" 0]
    by (simp add: IsSentinel_def)
qed

text \<open>
  the score tiers for one client: among raster variants a size-class match beats every variant at
  another size, a Save-Data variant offered to a client without Save-Data stays below every normal
  variant at the client's size, SVG beats every raster, and equal positive scores imply equal formats.
\<close>

theorem score_tiers:
  assumes "0 < ScoreAlternate c s1" and "0 < ScoreAlternate c s2"
  shows "(ExtractFormat s1 \<noteq> kSvgFormat \<and> ExtractFormat s2 \<noteq> kSvgFormat \<and>
      ExtractViewport s1 = ExtractViewport c \<and> ExtractViewport s2 \<noteq> ExtractViewport c
        \<longrightarrow> ScoreAlternate c s2 < ScoreAlternate c s1) \<and>
    (ExtractFormat s1 \<noteq> kSvgFormat \<and> ExtractViewport s1 = ExtractViewport c \<and> ExtractSaveData s1 = 0 \<and>
      ExtractFormat s2 \<noteq> kSvgFormat \<and> ExtractSaveData c = 0 \<and> ExtractSaveData s2 = 1
        \<longrightarrow> ScoreAlternate c s2 < ScoreAlternate c s1) \<and>
    (ExtractFormat s1 = kSvgFormat \<and> ExtractFormat s2 \<noteq> kSvgFormat
        \<longrightarrow> ScoreAlternate c s2 < ScoreAlternate c s1) \<and>
    (ScoreAlternate c s1 = ScoreAlternate c s2 \<longrightarrow> ExtractFormat s1 = ExtractFormat s2)"
proof -
  note t1 = score_exact [OF assms(1)] score_fallback [OF assms(1)]
  note t2 = score_exact [OF assms(2)] score_fallback [OF assms(2)]
  show ?thesis
    using score_svg [of s1 c] score_svg [of s2 c] score_raster_max [of s1 c] score_raster_max [of s2 c]
      assms t1 t2 ExtractSaveData_cases [of c]
    unfolding kSvgFormat_def by (smt (verit))
qed

theorem score_tiers_witness:
  "ScoreAlternate 0x01 0x09 < ScoreAlternate 0x01 0x00"
  using score_tiers [of "0x01" "0x00" "0x09"]
  by (simp add: ScoreAlternate_def IsSentinel_def Let_def score_consts ExtractFormat_def
      ExtractViewport_def ExtractDensity_def ExtractSaveData_def ExtractEncoding_def)

end
