(* ===== verification/Option_Context.thy ===== *)
theory Option_Context
  imports String_Util
begin

text \<open>
  The per-request option context of \<open>lib/classify/option_context.cc\<close>.  SHA-256 comes from the cache
  library; it is the argument \<open>sha\<close>, from which the code relies only on a digest of 32 bytes.
\<close>

definition kOptionContextFormatVersion :: string where
  "kOptionContextFormatVersion = ''psoc1''"

definition kMaxOptionContextBytes :: nat where
  "kMaxOptionContextBytes = 16384"

definition kOptionContextSignatureChars :: nat where
  "kOptionContextSignatureChars = 64"

definition kDefaultOptionContextSignature :: string where
  "kDefaultOptionContextSignature =
     ''c0908a1c05a3d6b96d4ea614f60993a83b1eabc4cf7dccfd2899610749554f01''"

datatype OptionContextStatus = kOk | kEmpty | kTooLarge | kUnknownFormat | kMalformedSignature
  | kSignatureMismatch

definition IsLowerHex :: "string \<Rightarrow> bool" where
  "IsLowerHex s =
     list_all (\<lambda>c. (CHR ''0'' \<le> c \<and> c \<le> CHR ''9'') \<or> (CHR ''a'' \<le> c \<and> c \<le> CHR ''f'')) s"

definition OptionContextSignature :: "(string \<Rightarrow> string) \<Rightarrow> string \<Rightarrow> string" where
  "OptionContextSignature sha payload =
     concat (map (\<lambda>b. [hex_char (of_char b div 16), hex_char (of_char b mod 16)]) (sha payload))"

definition IsDefaultOptionContext :: "string \<Rightarrow> bool" where
  "IsDefaultOptionContext signature \<longleftrightarrow> signature = [] \<or> signature = kDefaultOptionContextSignature"

definition ValidateOptionContext :: "(string \<Rightarrow> string) \<Rightarrow> string \<Rightarrow> string \<Rightarrow> OptionContextStatus" where
  "ValidateOptionContext sha payload signature =
     (if payload = [] \<and> signature = [] then kEmpty
      else if length payload > kMaxOptionContextBytes then kTooLarge
      else
        (let expected_opening = kOptionContextFormatVersion @ [CHR 0x0A]
         in if length payload < length expected_opening \<or>
               take (length expected_opening) payload \<noteq> expected_opening
            then kUnknownFormat
            else if length signature \<noteq> kOptionContextSignatureChars \<or> \<not> IsLowerHex signature
            then kMalformedSignature
            else if OptionContextSignature sha payload \<noteq> signature then kSignatureMismatch
            else kOk))"

fun OptionContextStatusName :: "OptionContextStatus \<Rightarrow> string" where
  "OptionContextStatusName kOk = ''ok''"
| "OptionContextStatusName kEmpty = ''empty''"
| "OptionContextStatusName kTooLarge = ''too-large''"
| "OptionContextStatusName kUnknownFormat = ''unknown-format''"
| "OptionContextStatusName kMalformedSignature = ''malformed-signature''"
| "OptionContextStatusName kSignatureMismatch = ''signature-mismatch''"

section \<open>Lemmas\<close>

lemma IsLowerHex_hex_char: "n < 16 \<Longrightarrow> IsLowerHex [hex_char n]"
  using hex_char_alnum [of n] by (auto simp: IsLowerHex_def less_eq_char_def)

lemma IsLowerHex_append [simp]: "IsLowerHex (a @ b) \<longleftrightarrow> IsLowerHex a \<and> IsLowerHex b"
  by (simp add: IsLowerHex_def)

lemma OptionContextSignature_hex: "IsLowerHex (OptionContextSignature sha p)"
proof -
  have "IsLowerHex (concat (map (\<lambda>b. [hex_char (of_char b div 16), hex_char (of_char b mod 16)]) bs))"
    for bs :: string
  proof (induction bs)
    case Nil
    then show ?case by (simp add: IsLowerHex_def)
  next
    case (Cons b bs)
    have "of_char b div 16 < (16 :: nat)"
      using of_char_less_256 [of b] by (simp add: less_mult_imp_div_less)
    then have "IsLowerHex [hex_char (of_char b div 16)]" "IsLowerHex [hex_char (of_char b mod 16)]"
      by (simp_all add: IsLowerHex_hex_char)
    then show ?case using Cons by (simp add: IsLowerHex_def)
  qed
  then show ?thesis by (simp add: OptionContextSignature_def)
qed

lemma OptionContextSignature_length: "length (OptionContextSignature sha p) = 2 * length (sha p)"
proof -
  have "length (concat (map (\<lambda>b. [f b, g b]) bs)) = 2 * length bs" for f g :: "char \<Rightarrow> char" and bs
    by (induction bs) auto
  then show ?thesis by (simp add: OptionContextSignature_def)
qed

lemma concat_replicate_pair: "concat (replicate n [x, x]) = replicate (2 * n) x"
  by (induction n) auto

section \<open>Properties\<close>

text \<open>
  a context is accepted exactly when its payload is bounded and opens with the known format token
  and the signature is the one this side derives from that payload; in particular the signature a
  correct peer sends is never refused.
\<close>

theorem ValidateOptionContext_ok_iff:
  assumes "length (sha payload) = 32"
  shows "ValidateOptionContext sha payload signature = kOk \<longleftrightarrow>
    length payload \<le> kMaxOptionContextBytes \<and>
    starts_with (kOptionContextFormatVersion @ [CHR 0x0A]) payload \<and>
    signature = OptionContextSignature sha payload"
proof -
  have "length (OptionContextSignature sha payload) = kOptionContextSignatureChars"
    using assms by (simp add: OptionContextSignature_length kOptionContextSignatureChars_def)
  then show ?thesis
    using OptionContextSignature_hex [of sha payload]
    by (auto simp: ValidateOptionContext_def Let_def starts_with_def kOptionContextFormatVersion_def)
qed

theorem ValidateOptionContext_ok_iff_witness:
  "ValidateOptionContext (\<lambda>_. replicate 32 (CHR 0x00)) (''psoc1'' @ [CHR 0x0A]) (replicate 64 (CHR ''0'')) = kOk"
proof -
  have "OptionContextSignature (\<lambda>_. replicate 32 (CHR 0x00)) (''psoc1'' @ [CHR 0x0A]) = replicate 64 (CHR ''0'')"
    using concat_replicate_pair [of 32 "CHR ''0''"]
    by (simp add: OptionContextSignature_def hex_char_def map_replicate)
  then show ?thesis
    using ValidateOptionContext_ok_iff [of "\<lambda>_. replicate 32 (CHR 0x00)" "''psoc1'' @ [CHR 0x0A]"
        "replicate 64 (CHR ''0'')"]
    by (simp add: kMaxOptionContextBytes_def starts_with_def kOptionContextFormatVersion_def)
qed

end
