(* ===== verification/Url_Normalizer.thy ===== *)
theory Url_Normalizer
  imports String_Util "HOL-Library.Product_Lexorder"
begin

text \<open>
  Cache-key normalisation: \<open>lib/classify/url_normalizer.cc\<close>, \<open>hostname.cc\<close> and \<open>content_type.cc\<close>.
  The unordered sets and the alias map of the configuration are a set and a map.  The order in which
  \<open>std::sort\<close> leaves equivalent parameters is unspecified, so \<open>NormalizeCacheUrl\<close> takes the sorting
  algorithm as an argument.
\<close>

section \<open>Content types\<close>

datatype ContentType = kHtml | kCss | kJs | kImage | kOther

definition StripParameters :: "string \<Rightarrow> string" where
  "StripParameters header = trim (\<lambda>c. c = CHR '' '') (before (sv_find (CHR '';'') header) header)"

definition IsTextHtmlMediaType :: "string \<Rightarrow> bool" where
  "IsTextHtmlMediaType header = StringCaseEqual (StripParameters header) ''text/html''"

definition ClassifyContentType :: "string \<Rightarrow> ContentType" where
  "ClassifyContentType header =
     (let mime = StripParameters header
      in if mime = [] then kOther
         else if StringCaseEqual mime ''text/html'' \<or> StringCaseEqual mime ''application/xhtml+xml''
         then kHtml
         else if StringCaseEqual mime ''text/css'' then kCss
         else if StringCaseEqual mime ''application/javascript'' \<or>
                 StringCaseEqual mime ''text/javascript'' \<or>
                 StringCaseEqual mime ''application/x-javascript'' \<or>
                 StringCaseEqual mime ''application/ecmascript'' \<or>
                 StringCaseEqual mime ''text/ecmascript''
         then kJs
         else if StringCaseStartsWith mime ''image/'' then kImage
         else kOther)"

fun ContentTypeMime :: "ContentType \<Rightarrow> string" where
  "ContentTypeMime kHtml = ''text/html''"
| "ContentTypeMime kCss = ''text/css''"
| "ContentTypeMime kJs = ''application/javascript''"
| "ContentTypeMime kImage = ''image/jpeg''"
| "ContentTypeMime kOther = ''application/octet-stream''"

fun ContentType_raw :: "ContentType \<Rightarrow> nat" where
  "ContentType_raw kHtml = 0"
| "ContentType_raw kCss = 1"
| "ContentType_raw kJs = 2"
| "ContentType_raw kImage = 3"
| "ContentType_raw kOther = 4"

definition ContentType_cast :: "nat \<Rightarrow> ContentType" where
  "ContentType_cast n =
     (if n = 0 then kHtml else if n = 1 then kCss else if n = 2 then kJs else if n = 3 then kImage
      else kOther)"

section \<open>Host names\<close>

text \<open>The split into host and port, \<open>port_part\<close> empty when there is none.\<close>

definition split_host_port :: "string \<Rightarrow> string \<times> string" where
  "split_host_port hostname =
     (if hostname \<noteq> [] \<and> hd hostname = CHR ''['' then
        (case sv_find (CHR '']'') hostname of
           None \<Rightarrow> (hostname, [])
         | Some bracket_end \<Rightarrow>
             if bracket_end + 1 < length hostname \<and> hostname ! (bracket_end + 1) = CHR '':''
             then (take (bracket_end + 1) hostname, drop (bracket_end + 2) hostname)
             else (hostname, []))
      else
        (case sv_rfind (CHR '':'') hostname of
           None \<Rightarrow> (hostname, [])
         | Some colon \<Rightarrow>
             (let candidate_port = drop (colon + 1) hostname
              in if candidate_port \<noteq> [] \<and> list_all is_digit_char candidate_port
                 then (take colon hostname, candidate_port)
                 else (hostname, []))))"

definition NormalizeHostname :: "string \<Rightarrow> string" where
  "NormalizeHostname hostname =
     (if hostname = [] then []
      else
        (let (host_part, port_part) = split_host_port hostname;
             result = map LowerChar host_part;
             result = (if result \<noteq> [] \<and> last result = CHR ''.'' then butlast result else result)
         in if port_part \<noteq> [] \<and> port_part \<noteq> ''80'' \<and> port_part \<noteq> ''443''
            then result @ CHR '':'' # port_part
            else result))"

section \<open>URLs\<close>

record UrlNormalizationConfig =
  strip_query_extensions :: "string set"
  strip_query_params :: "string set"
  host_aliases :: "string \<rightharpoonup> string"

definition IsUnreserved :: "char \<Rightarrow> bool" where
  "IsUnreserved c \<longleftrightarrow>
     (CHR ''A'' \<le> c \<and> c \<le> CHR ''Z'') \<or> (CHR ''a'' \<le> c \<and> c \<le> CHR ''z'') \<or>
     (CHR ''0'' \<le> c \<and> c \<le> CHR ''9'') \<or> c = CHR ''-'' \<or> c = CHR ''.'' \<or> c = CHR ''_'' \<or> c = CHR ''~''"

definition UpperHexDigit :: "int \<Rightarrow> char" where
  "UpperHexDigit v = char_of (nat (if v < 10 then of_char (CHR ''0'') + v else of_char (CHR ''A'') + v - 10))"

definition norm_decoded :: "char \<Rightarrow> int \<Rightarrow> int \<Rightarrow> string" where
  "norm_decoded decoded hi lo =
     (if IsUnreserved decoded then [decoded] else [CHR ''%'', UpperHexDigit hi, UpperHexDigit lo])"

definition NormalizePercentEncoding :: "string \<Rightarrow> string" where
  "NormalizePercentEncoding input = TransformPercentEncoded norm_decoded (\<lambda>c. [c]) input"

record QueryParam =
  param_key :: string
  param_value :: string
  has_equals :: bool

definition make_param :: "string \<Rightarrow> QueryParam" where
  "make_param param =
     (case sv_find (CHR ''='') param of
        None \<Rightarrow> \<lparr>param_key = param, param_value = [], has_equals = False\<rparr>
      | Some eq \<Rightarrow> \<lparr>param_key = take eq param, param_value = drop (eq + 1) param, has_equals = True\<rparr>)"

definition ParseQueryParams :: "string \<Rightarrow> QueryParam list" where
  "ParseQueryParams query = map make_param (filter (\<lambda>p. p \<noteq> []) (list_members (CHR ''&'') query))"

definition ExtractSchemeAndAuthority :: "string \<Rightarrow> string" where
  "ExtractSchemeAndAuthority url =
     (let first_slash = sv_find (CHR ''/'') url
      in case sv_find_str ''://'' url of
           None \<Rightarrow> url
         | Some scheme_end \<Rightarrow>
             if (case first_slash of None \<Rightarrow> True | Some fs \<Rightarrow> scheme_end < fs) then
               (case sv_find_from (CHR ''/'') (scheme_end + 3) url of
                  Some authority_end \<Rightarrow> drop authority_end url
                | None \<Rightarrow> ''/'')
             else url)"

text \<open>The path, the query, and whether there was a question mark.\<close>

definition ExtractPathAndQuery :: "string \<Rightarrow> string \<times> string \<times> bool" where
  "ExtractPathAndQuery url0 =
     (let url = before (sv_find (CHR ''#'') url0) url0
      in case sv_find (CHR ''?'') url of
           None \<Rightarrow> (url, [], False)
         | Some qmark \<Rightarrow> (take qmark url, drop (qmark + 1) url, True))"

definition ExtractLowercaseExtension :: "string \<Rightarrow> string" where
  "ExtractLowercaseExtension url =
     (let path = before (sv_find (CHR ''?'') url) url;
          path = before (sv_find (CHR ''#'') path) path;
          segment = (case sv_rfind (CHR ''/'') path of Some slash \<Rightarrow> drop (slash + 1) path | None \<Rightarrow> path)
      in case sv_rfind (CHR ''.'') segment of
           None \<Rightarrow> []
         | Some dot \<Rightarrow> if dot = length segment - 1 then [] else map LowerChar (drop dot segment))"

definition ExpandExtensionGroup :: "string \<Rightarrow> string list" where
  "ExpandExtensionGroup grp =
     (if grp = ''images'' then
        [''.jpg'', ''.jpeg'', ''.png'', ''.gif'', ''.webp'', ''.avif'', ''.svg'', ''.ico'', ''.bmp'', ''.tiff'']
      else if grp = ''static'' then
        [''.css'', ''.js'', ''.woff'', ''.woff2'', ''.ttf'', ''.eot'']
      else [])"

definition param_lt :: "QueryParam \<Rightarrow> QueryParam \<Rightarrow> bool" where
  "param_lt a b =
     (if param_key a \<noteq> param_key b then param_key a < param_key b else param_value a < param_value b)"

definition param_same :: "QueryParam \<Rightarrow> QueryParam \<Rightarrow> bool" where
  "param_same a b \<longleftrightarrow> param_key a = param_key b \<and> param_value a = param_value b"

definition param_text :: "QueryParam \<Rightarrow> string" where
  "param_text p = param_key p @ (if has_equals p then CHR ''='' # param_value p else [])"

fun join_params :: "QueryParam list \<Rightarrow> string" where
  "join_params [] = []"
| "join_params [p] = param_text p"
| "join_params (p # q # ps) = param_text p @ CHR ''&'' # join_params (q # ps)"

definition NormalizeCacheUrl ::
  "(QueryParam list \<Rightarrow> QueryParam list) \<Rightarrow> string \<Rightarrow> UrlNormalizationConfig \<Rightarrow> string" where
  "NormalizeCacheUrl srt url config =
     (let (path, query, has_query) = ExtractPathAndQuery (ExtractSchemeAndAuthority url)
      in if \<not> has_query then NormalizePercentEncoding path
         else
           (let norm_path = NormalizePercentEncoding path;
                norm_query = NormalizePercentEncoding query;
                ext = ExtractLowercaseExtension norm_path
            in if strip_query_extensions config \<noteq> {} \<and> ext \<noteq> [] \<and> ext \<in> strip_query_extensions config
               then norm_path
               else
                 (let params = ParseQueryParams norm_query;
                      params = filter (\<lambda>p. param_key p \<notin> strip_query_params config) params;
                      params = std_unique param_same (srt params)
                  in if params = [] then norm_path else norm_path @ CHR ''?'' # join_params params)))"

definition NormalizeCacheHostname :: "string \<Rightarrow> UrlNormalizationConfig \<Rightarrow> string" where
  "NormalizeCacheHostname hostname config =
     (let normalized = NormalizeHostname hostname
      in case host_aliases config normalized of Some a \<Rightarrow> a | None \<Rightarrow> normalized)"

text \<open>A sorting algorithm that keeps the order of equivalent parameters.\<close>

definition stable_param_sort :: "QueryParam list \<Rightarrow> QueryParam list" where
  "stable_param_sort ps = sort_key (\<lambda>p. (param_key p, param_value p)) ps"

lemma ContentType_cast_raw [simp]:
  "ContentType_cast (ContentType_raw t) = t" "ContentType_raw t \<le> 4" "ContentType_raw t mod 256 = ContentType_raw t"
  by (cases t; simp add: ContentType_cast_def)+

section \<open>Sorted parameter lists\<close>

definition param_kv :: "QueryParam \<Rightarrow> string \<times> string" where
  "param_kv p = (param_key p, param_value p)"

lemma param_lt_kv: "param_lt a b \<longleftrightarrow> param_kv a < param_kv b"
  by (auto simp: param_lt_def param_kv_def less_prod_def)

lemma param_same_kv: "param_same a b \<longleftrightarrow> param_kv a = param_kv b"
  by (simp add: param_same_def param_kv_def)

interpretation stable: std_sort param_lt stable_param_sort
proof unfold_locales
  fix ps
  show "mset (stable_param_sort ps) = mset ps" by (simp add: stable_param_sort_def)
  have "sorted (map param_kv (stable_param_sort ps))"
    unfolding stable_param_sort_def param_kv_def by (rule sorted_sort_key)
  then show "sorted_wrt (\<lambda>a b. \<not> param_lt b a) (stable_param_sort ps)"
    by (simp add: sorted_map param_lt_kv not_less)
qed

lemma path_query_split:
  assumes "p = CHR ''/'' # r" "CHR ''?'' \<notin> set p" "CHR ''#'' \<notin> set p" "CHR ''#'' \<notin> set q"
  shows "ExtractPathAndQuery (ExtractSchemeAndAuthority (p @ CHR ''?'' # q)) = (p, q, True)"
proof -
  have "ExtractSchemeAndAuthority (p @ CHR ''?'' # q) = p @ CHR ''?'' # q"
    by (simp add: ExtractSchemeAndAuthority_def assms(1) Let_def split: option.splits)
  moreover have "sv_find (CHR ''#'') (p @ CHR ''?'' # q) = None"
    using assms by simp
  ultimately show ?thesis
    using assms(2) by (simp add: ExtractPathAndQuery_def Let_def sv_simps)
qed

definition kept_params :: "UrlNormalizationConfig \<Rightarrow> string \<Rightarrow> QueryParam set" where
  "kept_params config q =
     {p \<in> set (ParseQueryParams (NormalizePercentEncoding q)). param_key p \<notin> strip_query_params config}"

lemma kept_params_filter:
  "kept_params config q =
   set (filter (\<lambda>p. param_key p \<notin> strip_query_params config) (ParseQueryParams (NormalizePercentEncoding q)))"
  by (simp add: kept_params_def)

text \<open>The cache URL of a path with the given parameters.\<close>

definition cache_url_text :: "UrlNormalizationConfig \<Rightarrow> string \<Rightarrow> QueryParam list \<Rightarrow> string" where
  "cache_url_text config p ps =
     (let norm_path = NormalizePercentEncoding p; ext = ExtractLowercaseExtension norm_path
      in if ext \<noteq> [] \<and> ext \<in> strip_query_extensions config \<or> ps = [] then norm_path
         else norm_path @ CHR ''?'' # join_params ps)"

lemma NormalizeCacheUrl_text:
  assumes "p = CHR ''/'' # r" "CHR ''?'' \<notin> set p" "CHR ''#'' \<notin> set p" "CHR ''#'' \<notin> set q"
  shows "NormalizeCacheUrl srt (p @ CHR ''?'' # q) config =
    cache_url_text config p (std_unique param_same (srt (filter (\<lambda>p. param_key p \<notin> strip_query_params config)
      (ParseQueryParams (NormalizePercentEncoding q)))))"
  using path_query_split [OF assms] by (auto simp: NormalizeCacheUrl_def cache_url_text_def Let_def)

text \<open>Two parameters with the same key and value differ only in the equals sign of an empty value.\<close>

definition bare_and_empty :: "QueryParam set \<Rightarrow> string \<Rightarrow> bool" where
  "bare_and_empty S k \<longleftrightarrow>
     \<lparr>param_key = k, param_value = [], has_equals = False\<rparr> \<in> S \<and>
     \<lparr>param_key = k, param_value = [], has_equals = True\<rparr> \<in> S"

lemma kept_params_inj:
  assumes "\<nexists>k. bare_and_empty (kept_params config q) k"
  shows "inj_on param_kv (kept_params config q)"
proof (rule inj_onI)
  fix a b assume ab: "a \<in> kept_params config q" "b \<in> kept_params config q" "param_kv a = param_kv b"
  have bare: "param_value p = []" if "p \<in> kept_params config q" "\<not> has_equals p" for p
    using that by (auto simp: kept_params_def ParseQueryParams_def make_param_def simp del: sv_find_None split: option.splits)
  show "a = b"
  proof (rule ccontr)
    assume "a \<noteq> b"
    then have "has_equals a \<noteq> has_equals b" using ab(3) by (cases a; cases b) (auto simp: param_kv_def)
    then have "bare_and_empty (kept_params config q) (param_key a)"
      using ab bare [of a] bare [of b] unfolding bare_and_empty_def param_kv_def
      by (cases a; cases b; cases "has_equals a") auto
    with assms show False by blast
  qed
qed

section \<open>Percent-encoding\<close>

text \<open>
  A text is well escaped when every percent sign starts a triple, and normal when in addition each
  triple is in upper case and stands for a character that must stay escaped.
\<close>

function well_escaped :: "string \<Rightarrow> bool" where
  "well_escaped s =
     (if s = [] then True
      else if hd s = CHR ''%'' then percent_triple s \<and> well_escaped (drop 3 s)
      else well_escaped (tl s))"
  by pat_completeness auto
termination
  by (relation "measure length") auto

declare well_escaped.simps [simp del]

lemma percent_triple_not: "hd s \<noteq> CHR ''%'' \<Longrightarrow> \<not> percent_triple s"
  by (cases s) (auto simp: percent_triple_def)

lemma tpe_Nil [simp]: "TransformPercentEncoded d l [] = []"
  by (simp add: TransformPercentEncoded.simps)

lemma tpe_literal:
  "c \<noteq> CHR ''%'' \<Longrightarrow> TransformPercentEncoded d l (c # s) = l c @ TransformPercentEncoded d l s"
  by (simp add: TransformPercentEncoded.simps [of d l "c # s"] percent_triple_def)

lemma tpe_triple:
  "HexDigitValue a \<ge> 0 \<Longrightarrow> HexDigitValue b \<ge> 0 \<Longrightarrow>
   TransformPercentEncoded d l (CHR ''%'' # a # b # s) =
     d (char_of (nat (HexDigitValue a * 16 + HexDigitValue b))) (HexDigitValue a) (HexDigitValue b)
       @ TransformPercentEncoded d l s"
  by (simp add: TransformPercentEncoded.simps [of d l "CHR ''%'' # a # b # s"] percent_triple_def Let_def
      numeral_3_eq_3)

lemma HexDigitValue_bound: "HexDigitValue c < 16" "-1 \<le> HexDigitValue c"
  by (auto simp: HexDigitValue_def less_eq_char_def simp flip: of_nat_of_char [of c, where 'a = int])

lemma of_char_int_char_of: "(of_char (char_of (n :: nat)) :: int) = int (n mod 256)"
  by (metis of_char_of of_nat_of_char)

lemma UpperHexDigit_inverse:
  assumes "0 \<le> v" "v < 16"
  shows "HexDigitValue (UpperHexDigit v) = v"
proof -
  have "v = 0 \<or> v = 1 \<or> v = 2 \<or> v = 3 \<or> v = 4 \<or> v = 5 \<or> v = 6 \<or> v = 7 \<or>
      v = 8 \<or> v = 9 \<or> v = 10 \<or> v = 11 \<or> v = 12 \<or> v = 13 \<or> v = 14 \<or> v = 15"
    using assms by presburger
  then show ?thesis
    by (elim disjE) (simp_all add: UpperHexDigit_def HexDigitValue_def less_eq_char_def of_char_int_char_of)
qed

lemma percent_not_unreserved: "\<not> IsUnreserved (CHR ''%'')"
  by (simp add: IsUnreserved_def less_eq_char_def)

lemma percent_tripleE:
  assumes "percent_triple s"
  obtains a b r where "s = CHR ''%'' # a # b # r" "HexDigitValue a \<ge> 0" "HexDigitValue b \<ge> 0"
  using assms
  by (cases s; cases "tl s"; cases "tl (tl s)") (auto simp: percent_triple_def)

lemma norm_norm:
  "well_escaped s \<Longrightarrow> NormalizePercentEncoding (NormalizePercentEncoding s) = NormalizePercentEncoding s"
proof (induction s rule: well_escaped.induct)
  case (1 s)
  show ?case
  proof (cases "s = []")
    case True
    then show ?thesis by (simp add: NormalizePercentEncoding_def)
  next
    case ne: False
    show ?thesis
    proof (cases "hd s = CHR ''%''")
      case False
      then obtain c t where s: "s = c # t" "c \<noteq> CHR ''%''" using ne by (cases s) auto
      with 1 ne show ?thesis
        by (simp add: NormalizePercentEncoding_def tpe_literal well_escaped.simps [of "c # t"])
    next
      case True
      then have "percent_triple s" "well_escaped (drop 3 s)"
        using 1(3) ne by (simp_all add: well_escaped.simps [of s])
      then obtain a b r where s: "s = CHR ''%'' # a # b # r" "HexDigitValue a \<ge> 0" "HexDigitValue b \<ge> 0"
        by (elim percent_tripleE)
      have IH: "NormalizePercentEncoding (NormalizePercentEncoding r) = NormalizePercentEncoding r"
        using 1(1) [OF ne True] \<open>well_escaped (drop 3 s)\<close> s by (simp add: numeral_3_eq_3)
      define x where "x = char_of (nat (HexDigitValue a * 16 + HexDigitValue b))"
      show ?thesis
      proof (cases "IsUnreserved x")
        case True
        then have "x \<noteq> CHR ''%''" using percent_not_unreserved by auto
        with True IH s show ?thesis
          by (simp add: NormalizePercentEncoding_def tpe_triple tpe_literal norm_decoded_def flip: x_def)
      next
        case False
        with IH s show ?thesis
          by (simp add: NormalizePercentEncoding_def tpe_triple norm_decoded_def UpperHexDigit_inverse
              HexDigitValue_bound flip: x_def)
      qed
    qed
  qed
qed

section \<open>Host names\<close>

lemma sv_rfind_append: "c \<notin> set ys \<Longrightarrow> sv_rfind c (xs @ c # ys) = Some (length xs)"
  using sv_find_append_Cons [of c "rev ys" "rev xs"] by (simp add: sv_rfind_def)

lemma sv_rfind_None: "sv_rfind c s = None \<longleftrightarrow> c \<notin> set s"
  by (simp add: sv_rfind_def)

lemma digit_not_colon: "list_all is_digit_char ds \<Longrightarrow> CHR '':'' \<notin> set ds"
  by (auto simp: list_all_iff is_digit_char_def less_eq_char_def)

definition plain_host :: "string \<Rightarrow> bool" where
  "plain_host h \<longleftrightarrow> h \<noteq> [] \<and> CHR '':'' \<notin> set h \<and> hd h \<noteq> CHR ''['' \<and> last h \<noteq> CHR ''.''"

lemma split_plain:
  assumes "plain_host h" "dot = [] \<or> dot = ''.''"
  shows "split_host_port (h @ dot) = (h @ dot, [])"
    and "port \<noteq> [] \<Longrightarrow> list_all is_digit_char port \<Longrightarrow>
      split_host_port (h @ dot @ CHR '':'' # port) = (h @ dot, port)"
proof -
  have nc: "CHR '':'' \<notin> set (h @ dot)" using assms by (auto simp: plain_host_def)
  then show "split_host_port (h @ dot) = (h @ dot, [])"
    using assms(1) by (simp add: split_host_port_def plain_host_def sv_rfind_None [THEN iffD2])
  show "split_host_port (h @ dot @ CHR '':'' # port) = (h @ dot, port)"
    if "port \<noteq> []" "list_all is_digit_char port"
    using assms(1) that sv_rfind_append [of "CHR '':''" port "h @ dot"] digit_not_colon [OF that(2)]
    by (simp add: split_host_port_def plain_host_def)
qed

lemma of_char_LowerChar:
  "of_char (LowerChar c) =
     (if 65 \<le> (of_char c :: nat) \<and> of_char c \<le> (90 :: nat) then of_char c + 32 else (of_char c :: nat))"
  by (simp add: LowerChar_def less_eq_char_def)

lemma LowerChar_dot: "LowerChar c = CHR ''.'' \<longleftrightarrow> c = CHR ''.''"
proof
  assume "LowerChar c = CHR ''.''"
  then have "of_char (LowerChar c) = (of_char (CHR ''.'') :: nat)" by simp
  then have "of_char c = (of_char (CHR ''.'') :: nat)" by (simp add: of_char_LowerChar split: if_splits)
  then show "c = CHR ''.''" by (simp only: of_char_eq_iff)
qed (simp add: LowerChar_def less_eq_char_def)

lemma strip_dot:
  assumes "plain_host h" "dot = [] \<or> dot = ''.''"
  shows "(let result = map LowerChar (h @ dot)
          in if result \<noteq> [] \<and> last result = CHR ''.'' then butlast result else result) = AsciiToLower h"
  using assms by (auto simp: plain_host_def AsciiToLower_def Let_def last_map LowerChar_dot butlast_append)

section \<open>Properties\<close>



text \<open>
  the exception: a stable sort keeps the first of the two spellings, so the order of the query shows in the
  cache URL.
\<close>

theorem NormalizeCacheUrl_bare_and_empty:
  "NormalizeCacheUrl stable_param_sort ''/p?a&a='' \<lparr>strip_query_extensions = {}, strip_query_params = {}, host_aliases = Map.empty\<rparr> = ''/p?a'' \<and>
   NormalizeCacheUrl stable_param_sort ''/p?a=&a'' \<lparr>strip_query_extensions = {}, strip_query_params = {}, host_aliases = Map.empty\<rparr> = ''/p?a=''"
  by code_simp

text \<open>
  normalising the percent-encoding is idempotent on every text in which each percent sign starts
  a triple, so a normalised cache URL keeps its key when it is normalised again.
\<close>

theorem NormalizePercentEncoding_idempotent:
  assumes "well_escaped s"
  shows "NormalizePercentEncoding (NormalizePercentEncoding s) = NormalizePercentEncoding s"
  using assms by (rule norm_norm)

theorem NormalizePercentEncoding_idempotent_witness:
  "NormalizePercentEncoding (NormalizePercentEncoding ''%7e%2f'') = NormalizePercentEncoding ''%7e%2f''"
proof -
  have "well_escaped ''%7e%2f''" by code_simp
  then show ?thesis by (rule NormalizePercentEncoding_idempotent)
qed

text \<open>
  without that condition it is not idempotent: a percent sign in front of two escaped hexadecimal
  digits becomes a new triple, which a second pass decodes.
\<close>

theorem NormalizePercentEncoding_not_idempotent:
  "NormalizePercentEncoding ''%%34%31'' = ''%41'' \<and> NormalizePercentEncoding ''%41'' = ''A''"
  by code_simp

text \<open>
  every spelling of a host shares one normal form: letter case, a trailing dot and an explicit
  default port disappear, and any other numeric port is kept.
\<close>

theorem NormalizeHostname_spellings:
  assumes "plain_host h" and "dot = [] \<or> dot = ''.''"
    and "port \<noteq> []" and "list_all is_digit_char port"
  shows "NormalizeHostname (h @ dot) = AsciiToLower h \<and>
    NormalizeHostname (h @ dot @ CHR '':'' # port) =
      AsciiToLower h @ (if port = ''80'' \<or> port = ''443'' then [] else CHR '':'' # port)"
proof -
  have "h \<noteq> []" using assms(1) by (simp add: plain_host_def)
  then show ?thesis
    using split_plain [OF assms(1,2)] assms(3,4) strip_dot [OF assms(1,2)]
    by (auto simp: NormalizeHostname_def Let_def split: if_splits)
qed

theorem NormalizeHostname_spellings_witness:
  "NormalizeHostname ''Ex.COM.:8080'' = ''ex.com:8080''"
proof -
  have "plain_host ''Ex.COM''" "list_all is_digit_char ''8080''" "AsciiToLower ''Ex.COM'' = ''ex.com''"
    by code_simp+
  then show ?thesis
    using NormalizeHostname_spellings [of "''Ex.COM''" "''.''" "''8080''"] by simp
qed

end
