(* ===== verification/Worker_Ipc.thy ===== *)
theory Worker_Ipc
  imports Option_Context Url_Normalizer "HOL-Library.Monad_Syntax"
begin

text \<open>
  The notification frame between the web server modules and the worker: \<open>src/proto/worker_ipc.h\<close> and
  \<open>worker_ipc.cc\<close>.  A refused serialization is the empty byte string, as in the code.  A failed
  deserialization returns the rejection; the partly filled output object of the code is not returned.
\<close>

section \<open>The notification\<close>

definition kMaxUrlLength :: nat where
  "kMaxUrlLength = 16384"

definition kMaxHostnameLength :: nat where
  "kMaxHostnameLength = 512"

definition kIpcVersion :: nat where
  "kIpcVersion = 6"

definition kSiteIdChars :: nat where
  "kSiteIdChars = 64"

definition kNotifyFlagHostVouched :: u8 where
  "kNotifyFlagHostVouched = 0x01"

definition kNotifyFlagFromModule :: u8 where
  "kNotifyFlagFromModule = 0x02"

definition kNotifyFlagLegacyExCaller :: u8 where
  "kNotifyFlagLegacyExCaller = 0x04"

definition kNotifyFlagsKnown :: u8 where
  "kNotifyFlagsKnown = kNotifyFlagHostVouched OR kNotifyFlagFromModule OR kNotifyFlagLegacyExCaller"

datatype IpcRejectReason = kNone | kTruncated | kVersionMismatch | kMalformed

record IpcRejection =
  reject_reason :: IpcRejectReason
  peer_version :: nat

datatype IpcScheme = kHttp | kHttps

record CacheNotification =
  cn_url :: string
  cn_hostname :: string
  cn_scheme :: string
  cn_content_type :: ContentType
  cn_capability_mask :: u32
  cn_agent_request :: bool
  cn_option_context :: string
  cn_option_signature :: string
  cn_site :: string
  cn_host_vouched :: bool
  cn_from_module :: bool
  cn_legacy_ex_caller :: bool

definition ValidateScheme :: "string \<Rightarrow> bool" where
  "ValidateScheme s \<longleftrightarrow> s = ''http'' \<or> s = ''https''"

definition SchemeToWire :: "string \<Rightarrow> IpcScheme" where
  "SchemeToWire s = (if s = ''http'' then kHttp else if s = ''https'' then kHttps else kHttps)"

fun IpcScheme_raw :: "IpcScheme \<Rightarrow> nat" where
  "IpcScheme_raw kHttp = 1"
| "IpcScheme_raw kHttps = 2"

definition IsSiteId :: "string \<Rightarrow> bool" where
  "IsSiteId s \<longleftrightarrow>
     length s = kSiteIdChars \<and>
     list_all (\<lambda>c. (CHR ''0'' \<le> c \<and> c \<le> CHR ''9'') \<or> (CHR ''a'' \<le> c \<and> c \<le> CHR ''f'')) s"

fun SchemeFromWire :: "IpcScheme \<Rightarrow> string" where
  "SchemeFromWire kHttp = ''http''"
| "SchemeFromWire kHttps = ''https''"

section \<open>Serialize\<close>

definition WriteBE32 :: "nat \<Rightarrow> string" where
  "WriteBE32 value = be_bytes 4 value"

definition notification_flags :: "CacheNotification \<Rightarrow> u8" where
  "notification_flags n =
     (let flags = 0;
          flags = (if cn_host_vouched n then flags OR kNotifyFlagHostVouched else flags);
          flags = (if cn_from_module n then flags OR kNotifyFlagFromModule else flags)
      in if cn_legacy_ex_caller n then flags OR kNotifyFlagLegacyExCaller else flags)"

definition serialize_refuses :: "CacheNotification \<Rightarrow> bool" where
  "serialize_refuses n \<longleftrightarrow>
     length (cn_url n) > kMaxUrlLength \<or> length (cn_hostname n) > kMaxHostnameLength \<or>
     \<not> ValidateScheme (cn_scheme n) \<or>
     length (cn_option_context n) > kMaxOptionContextBytes \<or>
     ((cn_option_context n = []) \<noteq> (cn_option_signature n = [])) \<or>
     (length (cn_option_signature n) \<noteq> 0 \<and>
      length (cn_option_signature n) \<noteq> kOptionContextSignatureChars) \<or>
     (length (cn_site n) \<noteq> 0 \<and> \<not> IsSiteId (cn_site n))"

text \<open>Everything behind the version byte.\<close>

definition notification_body :: "CacheNotification \<Rightarrow> string" where
  "notification_body n =
     WriteBE32 (length (cn_url n)) @ cn_url n @
     WriteBE32 (length (cn_hostname n)) @ cn_hostname n @
     [char_of (ContentType_raw (cn_content_type n))] @
     WriteBE32 (unat (cn_capability_mask n)) @
     [char_of (IpcScheme_raw (SchemeToWire (cn_scheme n)))] @
     [char_of (if cn_agent_request n then 1 else 0 :: nat)] @
     WriteBE32 (length (cn_option_context n)) @ cn_option_context n @
     [char_of (length (cn_option_signature n))] @ cn_option_signature n @
     [char_of (length (cn_site n))] @ cn_site n @
     [char_of (unat (notification_flags n))]"

definition notification_total_size :: "CacheNotification \<Rightarrow> nat" where
  "notification_total_size n =
     1 + 4 + length (cn_url n) + 4 + length (cn_hostname n) + 1 + 4 + 1 + 1 + 4 +
     length (cn_option_context n) + 1 + length (cn_option_signature n) + 1 + length (cn_site n) + 1"

definition Notification_Serialize :: "CacheNotification \<Rightarrow> string" where
  "Notification_Serialize n =
     (if serialize_refuses n then []
      else WriteBE32 (notification_total_size n) @ [char_of kIpcVersion] @ notification_body n)"

section \<open>Deserialize\<close>

definition parse_notification :: "string \<Rightarrow> CacheNotification option" where
  "parse_notification s0 = do {
     (url_len, s) \<leftarrow> get_be32 s0;
     check (url_len \<le> kMaxUrlLength);
     (u, s) \<leftarrow> get_bytes url_len s;
     (host_len, s) \<leftarrow> get_be32 s;
     check (host_len \<le> kMaxHostnameLength);
     (h, s) \<leftarrow> get_bytes host_len s;
     (ct_byte, s) \<leftarrow> get_u8 s;
     check (ct_byte \<le> ContentType_raw kOther);
     (cap, s) \<leftarrow> get_be32 s;
     (scheme_byte, s) \<leftarrow> get_u8 s;
     check (scheme_byte = IpcScheme_raw kHttp \<or> scheme_byte = IpcScheme_raw kHttps);
     (agent, s) \<leftarrow> get_u8 s;
     (ctx_len, s) \<leftarrow> get_be32 s;
     check (ctx_len \<le> kMaxOptionContextBytes);
     (ctx, s) \<leftarrow> get_bytes ctx_len s;
     (sig_len, s) \<leftarrow> get_u8 s;
     check (sig_len = 0 \<or> sig_len = kOptionContextSignatureChars);
     (sig, s) \<leftarrow> get_bytes sig_len s;
     (site_len, s) \<leftarrow> get_u8 s;
     check (site_len = 0 \<or> site_len = kSiteIdChars);
     (st, s) \<leftarrow> get_bytes site_len s;
     check (site_len = 0 \<or> IsSiteId st);
     (fl, s) \<leftarrow> get_u8 s;
     let flags = word_of_nat fl;
     check (flags AND NOT kNotifyFlagsKnown = 0);
     check ((ctx = []) = (sig = []));
     Some \<lparr>cn_url = u, cn_hostname = h,
           cn_scheme = SchemeFromWire (if scheme_byte = IpcScheme_raw kHttp then kHttp else kHttps),
           cn_content_type = ContentType_cast ct_byte, cn_capability_mask = word_of_nat cap,
           cn_agent_request = (agent \<noteq> 0), cn_option_context = ctx, cn_option_signature = sig,
           cn_site = st, cn_host_vouched = (flags AND kNotifyFlagHostVouched \<noteq> 0),
           cn_from_module = (flags AND kNotifyFlagFromModule \<noteq> 0),
           cn_legacy_ex_caller = (flags AND kNotifyFlagLegacyExCaller \<noteq> 0)\<rparr>
   }"

definition Notification_Deserialize :: "string \<Rightarrow> IpcRejection + CacheNotification" where
  "Notification_Deserialize data =
     (if length data < 5 then Inl \<lparr>reject_reason = kTruncated, peer_version = 0\<rparr>
      else
        (let total_len = be_val (take 4 data)
         in if length data < 4 + total_len then Inl \<lparr>reject_reason = kTruncated, peer_version = 0\<rparr>
            else
              (let version = of_char (data ! 4)
               in if version \<noteq> kIpcVersion
                  then Inl \<lparr>reject_reason = kVersionMismatch, peer_version = version\<rparr>
                  else (case parse_notification (drop 5 (take (4 + total_len) data)) of
                          None \<Rightarrow> Inl \<lparr>reject_reason = kMalformed, peer_version = version\<rparr>
                        | Some n \<Rightarrow> Inr n))))"

definition Notification_decode :: "string \<Rightarrow> CacheNotification option" where
  "Notification_decode data = (case Notification_Deserialize data of Inl _ \<Rightarrow> None | Inr n \<Rightarrow> Some n)"

section \<open>Round trip\<close>

lemmas ipc_limits = kMaxUrlLength_def kMaxHostnameLength_def kMaxOptionContextBytes_def
  kOptionContextSignatureChars_def kSiteIdChars_def

lemma notification_flags_bits:
  "(word_of_nat (unat (notification_flags n) mod 256) :: u8) = notification_flags n"
  "notification_flags n AND NOT kNotifyFlagsKnown = 0"
  "notification_flags n AND kNotifyFlagHostVouched \<noteq> 0 \<longleftrightarrow> cn_host_vouched n"
  "notification_flags n AND kNotifyFlagFromModule \<noteq> 0 \<longleftrightarrow> cn_from_module n"
  "notification_flags n AND kNotifyFlagLegacyExCaller \<noteq> 0 \<longleftrightarrow> cn_legacy_ex_caller n"
  by (cases "cn_host_vouched n"; cases "cn_from_module n"; cases "cn_legacy_ex_caller n";
      simp add: notification_flags_def kNotifyFlagsKnown_def kNotifyFlagHostVouched_def
        kNotifyFlagFromModule_def kNotifyFlagLegacyExCaller_def)+

lemma get_be32_length:
  "length x \<le> n \<Longrightarrow> n < 2 ^ 32 \<Longrightarrow> get_be32 (WriteBE32 (length x) @ r) = Some (length x, r)"
  by (simp add: WriteBE32_def codec_simps)

lemma length_notification_body: "length (notification_body n) + 1 = notification_total_size n"
  by (simp add: notification_body_def notification_total_size_def WriteBE32_def)

lemma get_be32_mask: "get_be32 (WriteBE32 (unat (m :: u32)) @ r) = Some (unat m, r)"
  by (simp add: WriteBE32_def codec_simps)

lemma parse_body:
  assumes "\<not> serialize_refuses n"
  shows "parse_notification (notification_body n) = Some n"
proof -
  have len: "length (cn_url n) \<le> kMaxUrlLength" "length (cn_hostname n) \<le> kMaxHostnameLength"
    "length (cn_option_context n) \<le> kMaxOptionContextBytes" "ValidateScheme (cn_scheme n)"
    "length (cn_option_signature n) = 0 \<or> length (cn_option_signature n) = kOptionContextSignatureChars"
    "length (cn_site n) = 0 \<or> IsSiteId (cn_site n)"
    "(cn_option_context n = []) = (cn_option_signature n = [])"
    using assms by (auto simp: serialize_refuses_def)
  have site: "length (cn_site n) = 0 \<or> length (cn_site n) = kSiteIdChars"
    using len(6) by (auto simp: IsSiteId_def)
  have small: "length (cn_option_signature n) mod 256 = length (cn_option_signature n)"
    "length (cn_site n) mod 256 = length (cn_site n)"
    using len(5) site by (auto simp: ipc_limits)
  note reads = get_be32_length [OF len(1)] get_be32_length [OF len(2)] get_be32_length [OF len(3)]
    get_be32_mask
  show ?thesis
    using len(1-3,5-7) site len(4) [unfolded ValidateScheme_def]
    by (elim disjE [where P = "cn_scheme n = _"])
       (simp_all add: parse_notification_def notification_body_def reads ipc_limits codec_simps small
        notification_flags_bits SchemeToWire_def)
qed

lemma Notification_roundtrip:
  assumes "\<not> serialize_refuses n"
  shows "Notification_Deserialize (Notification_Serialize n @ rest) = Inr n"
proof -
  let ?d = "Notification_Serialize n @ rest"
  have size: "notification_total_size n < 2 ^ 32"
    using assms by (auto simp: notification_total_size_def serialize_refuses_def ipc_limits IsSiteId_def)
  have d: "?d = WriteBE32 (notification_total_size n) @ char_of kIpcVersion # notification_body n @ rest"
    using assms by (simp add: Notification_Serialize_def)
  have total: "be_val (take 4 ?d) = notification_total_size n"
    using size by (simp add: d WriteBE32_def codec_simps)
  have ver: "(of_char (?d ! 4) :: nat) = kIpcVersion"
    by (simp add: d WriteBE32_def nth_append kIpcVersion_def)
  have len: "notification_total_size n = Suc (length (notification_body n))"
    using length_notification_body [of n] by simp
  then have body: "drop 5 (take (4 + notification_total_size n) ?d) = notification_body n"
    by (simp add: d WriteBE32_def)
  have "\<not> length ?d < 5" "\<not> length ?d < 4 + notification_total_size n"
    using len by (simp_all add: d WriteBE32_def)
  then show ?thesis
    unfolding Notification_Deserialize_def total Let_def ver body using parse_body [OF assms] by simp
qed

lemma parse_valid: "parse_notification s = Some n \<Longrightarrow> \<not> serialize_refuses n"
  unfolding parse_notification_def
  by (clarsimp simp: bind_eq_Some_conv get_bytes_def serialize_refuses_def ValidateScheme_def Let_def
      split: if_splits) auto

interpretation ipc: framed_codec "\<lambda>n. \<not> serialize_refuses n" Notification_Serialize
  Notification_decode "\<lambda>n. n"
  by unfold_locales (simp add: Notification_decode_def Notification_roundtrip)

section \<open>Properties\<close>

text \<open>
  C22: a notification that serializes arrives unchanged, whatever bytes follow its frame in the
  buffer, and serialization refuses exactly the notifications outside the wire limits.
\<close>

theorem Notification_Serialize_Deserialize:
  "(Notification_Serialize n = [] \<longleftrightarrow> serialize_refuses n) \<and>
   (\<not> serialize_refuses n \<longrightarrow> Notification_Deserialize (Notification_Serialize n @ rest) = Inr n)"
  using Notification_roundtrip [of n rest] by (auto simp: Notification_Serialize_def)

theorem Notification_Serialize_Deserialize_witness:
  "Notification_Deserialize (Notification_Serialize
     \<lparr>cn_url = ''/a'', cn_hostname = ''h'', cn_scheme = ''https'', cn_content_type = kCss,
      cn_capability_mask = 8, cn_agent_request = False, cn_option_context = [],
      cn_option_signature = [], cn_site = [], cn_host_vouched = True, cn_from_module = False,
      cn_legacy_ex_caller = False\<rparr> @ ''xyz'') = Inr
     \<lparr>cn_url = ''/a'', cn_hostname = ''h'', cn_scheme = ''https'', cn_content_type = kCss,
      cn_capability_mask = 8, cn_agent_request = False, cn_option_context = [],
      cn_option_signature = [], cn_site = [], cn_host_vouched = True, cn_from_module = False,
      cn_legacy_ex_caller = False\<rparr>"
  by (rule Notification_Serialize_Deserialize [THEN conjunct2, rule_format])
     (simp add: serialize_refuses_def ValidateScheme_def ipc_limits)

text \<open>
  whatever bytes arrive, an accepted notification is one the sender's own checks allow, its frame
  carried exactly this build's protocol version, and the frame lies inside the buffer; every field
  read was checked against the end of the frame.
\<close>

theorem Notification_accepted_valid:
  assumes "Notification_Deserialize data = Inr n"
  shows "\<not> serialize_refuses n \<and> of_char (data ! 4) = kIpcVersion \<and>
    4 + be_val (take 4 data) \<le> length data"
  using assms parse_valid
  by (auto simp: Notification_Deserialize_def Let_def split: if_splits option.splits)

theorem Notification_accepted_valid_witness:
  "\<not> serialize_refuses
     \<lparr>cn_url = ''/a'', cn_hostname = ''h'', cn_scheme = ''http'', cn_content_type = kJs,
      cn_capability_mask = 8, cn_agent_request = True, cn_option_context = [],
      cn_option_signature = [], cn_site = [], cn_host_vouched = True, cn_from_module = False,
      cn_legacy_ex_caller = False\<rparr>" (is "\<not> serialize_refuses ?n")
proof -
  have "Notification_Deserialize (Notification_Serialize ?n @ []) = Inr ?n"
    by (rule Notification_roundtrip) (simp add: serialize_refuses_def ValidateScheme_def ipc_limits)
  then show ?thesis using Notification_accepted_valid by blast
qed

end
