(* ===== verification/Alternate_Metadata.thy ===== *)
theory Alternate_Metadata
  imports Alternate_Id Url_Normalizer "HOL-Library.Monad_Syntax"
begin

text \<open>
  The metadata blob stored in front of every alternate: \<open>lib/classify/alternate_metadata.h\<close> and
  \<open>alternate_metadata.cc\<close>.  Scalars keep their width; a copy of \<open>n\<close> bytes from the blob into a scalar
  is a little-endian read at an offset.  The two fixed-size hash arrays are byte strings, of length 32
  in every well-formed value.
\<close>

section \<open>Layout constants\<close>

definition kCurrentVersion :: nat where "kCurrentVersion = 9"
definition kFixedPrefixSize :: nat where "kFixedPrefixSize = 9"
definition kV5FixedSuffixSize :: nat where "kV5FixedSuffixSize = 23"
definition kV6FixedSuffixSize :: nat where "kV6FixedSuffixSize = 27"
definition kV7FixedSuffixSize :: nat where "kV7FixedSuffixSize = kV6FixedSuffixSize + 64"
definition kV8FixedSuffixSize :: nat where "kV8FixedSuffixSize = kV7FixedSuffixSize + 8 + 2"
definition kHashSize :: nat where "kHashSize = 32"
definition kMaxOriginCtLen :: nat where "kMaxOriginCtLen = 256"
definition kMaxOriginCcLen :: nat where "kMaxOriginCcLen = 256"
definition kEtagBudget :: nat where "kEtagBudget = 128"

definition kMaxSerializedSizeAtBudget :: nat where
  "kMaxSerializedSizeAtBudget =
     kFixedPrefixSize + kMaxOriginCtLen + kV8FixedSuffixSize + kEtagBudget + kMaxOriginCcLen"

definition kScoreNA :: u16 where "kScoreNA = 0xFFFF"
definition kMaxScoreX100 :: u16 where "kMaxScoreX100 = 10000"
definition kEncodedRatioBase :: u16 where "kEncodedRatioBase = kMaxScoreX100 + 1"
definition kEncodedRatioScale :: u64 where "kEncodedRatioScale = 50000"
definition kContentClassUnknown :: u8 where "kContentClassUnknown = 4"
definition kFlagNeedsRevalidation :: u8 where "kFlagNeedsRevalidation = 0x01"
definition kFlagWorkerProcessed :: u8 where "kFlagWorkerProcessed = 0x02"
definition kFlagOriginVariesAccept :: u8 where "kFlagOriginVariesAccept = 0x04"
definition kFlagOriginHeadersNotReproducible :: u8 where "kFlagOriginHeadersNotReproducible = 0x08"
definition kFlagHeadersClassified :: u8 where "kFlagHeadersClassified = 0x10"
definition kFlagHeadersSidecarRequired :: u8 where "kFlagHeadersSidecarRequired = 0x20"
definition kFlagAnonymousRecorded :: u8 where "kFlagAnonymousRecorded = 0x40"

definition kCCOriginNoCache :: u16 where "kCCOriginNoCache = 0x0001"
definition kCCOriginMustRevalidate :: u16 where "kCCOriginMustRevalidate = 0x0002"
definition kCCOriginNoStore :: u16 where "kCCOriginNoStore = 0x0004"
definition kCCOriginPrivate :: u16 where "kCCOriginPrivate = 0x0008"
definition kCCOriginPublic :: u16 where "kCCOriginPublic = 0x0010"
definition kCCOriginImmutable :: u16 where "kCCOriginImmutable = 0x0020"
definition kCCOriginSMaxagePresent :: u16 where "kCCOriginSMaxagePresent = 0x0040"
definition kCCOriginProxyRevalidate :: u16 where "kCCOriginProxyRevalidate = 0x0080"
definition kCCOriginNoTransform :: u16 where "kCCOriginNoTransform = 0x0100"
definition kCCOriginHeaderPresent :: u16 where "kCCOriginHeaderPresent = 0x0200"
definition kCCOriginPrivateQualified :: u16 where "kCCOriginPrivateQualified = 0x0400"
definition kCCOriginPrivateBare :: u16 where "kCCOriginPrivateBare = 0x0800"
definition kCCOriginNoCacheQualified :: u16 where "kCCOriginNoCacheQualified = 0x1000"
definition kCCOriginNoCacheBare :: u16 where "kCCOriginNoCacheBare = 0x2000"

section \<open>The record\<close>

record AlternateMetadata =
  am_version :: nat
  am_full_mask :: u32
  am_content_type :: ContentType
  am_flags :: u8
  am_origin_content_type :: string
  am_wire_ct_len :: nat
  am_wire_cc_len :: nat
  am_cache_inserted_at :: u32
  am_origin_max_age :: u32
  am_origin_s_maxage :: u32
  am_origin_cc_flags :: u16
  am_score_x100 :: u16
  am_content_class :: u8
  am_origin_last_modified :: u32
  am_origin_etag :: string
  am_origin_content_length :: u32
  am_origin_html_hash :: string
  am_render_source_hash :: string
  am_origin_epoch :: u64
  am_origin_cache_control :: string
  am_consumed_size :: nat

definition AlternateMetadata_default :: AlternateMetadata where
  "AlternateMetadata_default =
     \<lparr>am_version = kCurrentVersion, am_full_mask = 0, am_content_type = kOther, am_flags = 0,
      am_origin_content_type = [], am_wire_ct_len = 0, am_wire_cc_len = 0, am_cache_inserted_at = 0,
      am_origin_max_age = 0, am_origin_s_maxage = 0, am_origin_cc_flags = 0,
      am_score_x100 = kScoreNA, am_content_class = kContentClassUnknown,
      am_origin_last_modified = 0, am_origin_etag = [], am_origin_content_length = 0,
      am_origin_html_hash = replicate 32 (CHR 0x00), am_render_source_hash = replicate 32 (CHR 0x00),
      am_origin_epoch = 0, am_origin_cache_control = [], am_consumed_size = 0\<rparr>"

definition StripHeaderControlChars :: "string \<Rightarrow> string" where
  "StripHeaderControlChars s = filter (\<lambda>c. c \<noteq> CHR 0x0D \<and> c \<noteq> CHR 0x0A \<and> c \<noteq> CHR 0x00) s"

definition IsEncodedVariant :: "AlternateMetadata \<Rightarrow> bool" where
  "IsEncodedVariant meta \<longleftrightarrow>
     (let enc = transfer_encoding (Decode (am_full_mask meta)) in enc = kGzip \<or> enc = kBrotli)"

section \<open>Serialize\<close>

definition stored_cache_control :: "AlternateMetadata \<Rightarrow> string" where
  "stored_cache_control meta =
     (let sanitized_cc = StripHeaderControlChars (am_origin_cache_control meta)
      in if length sanitized_cc > kMaxOriginCcLen then [] else sanitized_cc)"

definition Metadata_Serialize :: "AlternateMetadata \<Rightarrow> string" where
  "Metadata_Serialize meta =
     (let sanitized = StripHeaderControlChars (am_origin_content_type meta);
          sanitized_cc = stored_cache_control meta;
          ct_len = min kMaxOriginCtLen (length sanitized);
          etag_len = min 65535 (length (am_origin_etag meta));
          cc_len = length sanitized_cc
      in [char_of kCurrentVersion] @
         le_bytes 4 (unat (am_full_mask meta)) @
         [char_of (ContentType_raw (am_content_type meta))] @
         [char_of (unat (am_flags meta))] @
         le_bytes 2 ct_len @
         take ct_len sanitized @
         le_bytes 4 (unat (am_cache_inserted_at meta)) @
         le_bytes 4 (unat (am_origin_max_age meta)) @
         le_bytes 4 (unat (am_origin_s_maxage meta)) @
         le_bytes 2 (unat (am_origin_cc_flags meta)) @
         le_bytes 2 (unat (am_score_x100 meta)) @
         [char_of (unat (am_content_class meta))] @
         le_bytes 4 (unat (am_origin_last_modified meta)) @
         le_bytes 2 etag_len @
         take etag_len (am_origin_etag meta) @
         le_bytes 4 (unat (am_origin_content_length meta)) @
         take kHashSize (am_origin_html_hash meta) @
         take kHashSize (am_render_source_hash meta) @
         le_bytes 8 (unat (am_origin_epoch meta)) @
         le_bytes 2 cc_len @
         sanitized_cc)"

section \<open>Deserialize\<close>

definition bytes_at :: "nat \<Rightarrow> nat \<Rightarrow> string \<Rightarrow> string" where
  "bytes_at off n data = take n (drop off data)"

definition le_at :: "nat \<Rightarrow> nat \<Rightarrow> string \<Rightarrow> nat" where
  "le_at off n data = le_val (bytes_at off n data)"

definition ParseCacheControlFields :: "string \<Rightarrow> nat \<Rightarrow> AlternateMetadata \<Rightarrow> AlternateMetadata" where
  "ParseCacheControlFields data off meta =
     meta\<lparr>am_cache_inserted_at := word_of_nat (le_at off 4 data),
          am_origin_max_age := word_of_nat (le_at (off + 4) 4 data),
          am_origin_s_maxage := word_of_nat (le_at (off + 8) 4 data),
          am_origin_cc_flags := word_of_nat (le_at (off + 12) 2 data)\<rparr>"

definition clamp_score :: "AlternateMetadata \<Rightarrow> u16 \<Rightarrow> u16" where
  "clamp_score meta score =
     (if score > kMaxScoreX100 \<and> score \<noteq> kScoreNA \<and> \<not> IsEncodedVariant meta then kScoreNA else score)"

definition clamp_class :: "u8 \<Rightarrow> u8" where
  "clamp_class c = (if c > kContentClassUnknown then kContentClassUnknown else c)"

definition ParseV4Fields :: "string \<Rightarrow> nat \<Rightarrow> AlternateMetadata \<Rightarrow> AlternateMetadata" where
  "ParseV4Fields data off meta =
     meta\<lparr>am_score_x100 := clamp_score meta (word_of_nat (le_at (off + 14) 2 data)),
          am_content_class := clamp_class (word_of_nat (le_at (off + 16) 1 data))\<rparr>"

definition v5_fixed_suffix :: "nat \<Rightarrow> nat" where
  "v5_fixed_suffix version =
     (if version \<ge> 8 then kV8FixedSuffixSize else if version \<ge> 7 then kV7FixedSuffixSize
      else if version \<ge> 6 then kV6FixedSuffixSize else kV5FixedSuffixSize)"

text \<open>On success the record and the wire length of the etag.\<close>

definition ParseV5Fields ::
  "string \<Rightarrow> nat \<Rightarrow> nat \<Rightarrow> AlternateMetadata \<Rightarrow> (AlternateMetadata \<times> nat) option" where
  "ParseV5Fields data off ct_len meta =
     (let meta = meta\<lparr>am_origin_last_modified := word_of_nat (le_at (off + 17) 4 data)\<rparr>;
          etag_len = le_at (off + 21) 2 data;
          min_size = kFixedPrefixSize + ct_len + v5_fixed_suffix (am_version meta) + etag_len
      in if length data < min_size then None
         else Some (if etag_len > 0
                    then meta\<lparr>am_origin_etag := bytes_at (off + 23) etag_len data\<rparr> else meta,
                    etag_len))"

definition ParseV6Fields :: "string \<Rightarrow> nat \<Rightarrow> nat \<Rightarrow> AlternateMetadata \<Rightarrow> AlternateMetadata" where
  "ParseV6Fields data off etag_len meta =
     meta\<lparr>am_origin_content_length := word_of_nat (le_at (off + 23 + etag_len) 4 data)\<rparr>"

definition ParseV7Fields :: "string \<Rightarrow> nat \<Rightarrow> nat \<Rightarrow> AlternateMetadata \<Rightarrow> AlternateMetadata" where
  "ParseV7Fields data off etag_len meta =
     (let base = off + 23 + etag_len + 4
      in meta\<lparr>am_origin_html_hash := bytes_at base kHashSize data,
              am_render_source_hash := bytes_at (base + kHashSize) kHashSize data\<rparr>)"

definition ParseV8Fields ::
  "string \<Rightarrow> nat \<Rightarrow> nat \<Rightarrow> nat \<Rightarrow> AlternateMetadata \<Rightarrow> AlternateMetadata option" where
  "ParseV8Fields data off ct_len etag_len meta =
     (let base = off + 23 + etag_len + 4 + 2 * kHashSize;
          meta = meta\<lparr>am_origin_epoch := word_of_nat (le_at base 8 data)\<rparr>;
          cc_len = le_at (base + 8) 2 data
      in if cc_len > kMaxOriginCcLen then None
         else if length data < kFixedPrefixSize + ct_len + kV8FixedSuffixSize + etag_len + cc_len then None
         else
           (let meta = meta\<lparr>am_wire_cc_len := cc_len\<rparr>
            in Some (if cc_len > 0
                     then meta\<lparr>am_origin_cache_control :=
                            StripHeaderControlChars (bytes_at (base + 10) cc_len data)\<rparr>
                     else meta)))"

definition IsRetired :: "string \<Rightarrow> bool" where
  "IsRetired data =
     (if length data < 7 then False
      else
        (let version = of_char (data ! 0)
         in if version < (3 :: nat) \<or> version \<ge> 9 then False
            else if of_char (data ! 5) = ContentType_raw kHtml then True
            else (word_of_nat (of_char (data ! 6)) AND kFlagWorkerProcessed) \<noteq> 0 \<and>
                 word_of_nat (of_char (data ! 1)) = SentinelId_raw kAgentMarkdown))"

definition suffix_size_for :: "nat \<Rightarrow> nat" where
  "suffix_size_for version =
     (if version \<ge> 8 then kV8FixedSuffixSize else if version \<ge> 7 then kV7FixedSuffixSize
      else if version \<ge> 6 then kV6FixedSuffixSize else if version \<ge> 5 then kV5FixedSuffixSize
      else if version \<ge> 4 then 17 else 14)"

definition consumed_bytes :: "nat \<Rightarrow> AlternateMetadata \<Rightarrow> nat" where
  "consumed_bytes ct_len meta =
     (let cursor = 1 + 4 + 1 + 1 + 2;
          cursor = cursor + ct_len;
          cursor = cursor + (4 + 4 + 4 + 2);
          cursor = (if am_version meta \<ge> 4 then cursor + (2 + 1) else cursor);
          cursor = (if am_version meta \<ge> 5 then cursor + (4 + 2) + length (am_origin_etag meta) else cursor);
          cursor = (if am_version meta \<ge> 6 then cursor + 4 else cursor);
          cursor = (if am_version meta \<ge> 7 then cursor + 64 else cursor)
      in if am_version meta \<ge> 8 then cursor + (8 + 2) + am_wire_cc_len meta else cursor)"

definition ParseVersionedSuffix ::
  "string \<Rightarrow> nat \<Rightarrow> nat \<Rightarrow> AlternateMetadata \<Rightarrow> AlternateMetadata option" where
  "ParseVersionedSuffix data off ct_len meta = do {
     let version = am_version meta;
     let meta = ParseCacheControlFields data off meta;
     let meta = (if version \<ge> 4 then ParseV4Fields data off meta else meta);
     (meta, etag_len) \<leftarrow> (if version \<ge> 5 then ParseV5Fields data off ct_len meta else Some (meta, 0));
     let meta = (if version \<ge> 6 then ParseV6Fields data off etag_len meta else meta);
     let meta = (if version \<ge> 7 then ParseV7Fields data off etag_len meta else meta);
     (if version \<ge> 8 then ParseV8Fields data off ct_len etag_len meta else Some meta)
   }"

definition Metadata_Deserialize :: "string \<Rightarrow> AlternateMetadata option" where
  "Metadata_Deserialize data = do {
     check (length data \<ge> kFixedPrefixSize);
     let version = of_char (data ! 0);
     check (version \<ge> 3 \<and> version \<le> kCurrentVersion);
     let ct_raw = of_char (data ! 5);
     check (ct_raw \<le> ContentType_raw kOther);
     check (\<not> IsRetired data);
     let ct_len = le_at 7 2 data;
     check (ct_len \<le> kMaxOriginCtLen);
     check (length data \<ge> kFixedPrefixSize + ct_len + suffix_size_for version);
     let meta = AlternateMetadata_default
       \<lparr>am_version := version, am_full_mask := word_of_nat (le_at 1 4 data),
        am_content_type := ContentType_cast ct_raw, am_flags := word_of_nat (of_char (data ! 6)),
        am_wire_ct_len := ct_len,
        am_origin_content_type := StripHeaderControlChars (bytes_at kFixedPrefixSize ct_len data)\<rparr>;
     meta \<leftarrow> ParseVersionedSuffix data (kFixedPrefixSize + ct_len) ct_len meta;
     Some (meta\<lparr>am_consumed_size := consumed_bytes ct_len meta\<rparr>)
   }"

section \<open>Accessors\<close>

definition WireSize :: "AlternateMetadata \<Rightarrow> nat" where
  "WireSize meta =
     (if am_version meta \<ge> 8 then
        kFixedPrefixSize + am_wire_ct_len meta + kV8FixedSuffixSize + length (am_origin_etag meta) +
        am_wire_cc_len meta
      else if am_version meta \<ge> 7 then
        kFixedPrefixSize + am_wire_ct_len meta + kV7FixedSuffixSize + length (am_origin_etag meta)
      else if am_version meta \<ge> 6 then
        kFixedPrefixSize + am_wire_ct_len meta + kV6FixedSuffixSize + length (am_origin_etag meta)
      else if am_version meta \<ge> 5 then
        kFixedPrefixSize + am_wire_ct_len meta + kV5FixedSuffixSize + length (am_origin_etag meta)
      else kFixedPrefixSize + am_wire_ct_len meta + (if am_version meta \<ge> 4 then 17 else 14))"

definition QualityScoreX100 :: "AlternateMetadata \<Rightarrow> u16 option" where
  "QualityScoreX100 meta =
     (if IsEncodedVariant meta \<or> am_score_x100 meta > kMaxScoreX100 then None
      else Some (am_score_x100 meta))"

definition SetQualityScoreX100 :: "u16 option \<Rightarrow> AlternateMetadata \<Rightarrow> AlternateMetadata" where
  "SetQualityScoreX100 score meta =
     (if IsEncodedVariant meta then meta
      else meta\<lparr>am_score_x100 :=
        (case score of Some x \<Rightarrow> if x \<le> kMaxScoreX100 then x else kScoreNA | None \<Rightarrow> kScoreNA)\<rparr>)"

definition EncodedOriginLength :: "AlternateMetadata \<Rightarrow> u32 option" where
  "EncodedOriginLength meta =
     (if am_origin_content_length meta = 0 then None
      else if \<not> IsEncodedVariant meta then Some (am_origin_content_length meta)
      else if am_score_x100 meta < kEncodedRatioBase \<or> am_score_x100 meta = kScoreNA then None
      else
        (let code = ucast (am_score_x100 meta - kEncodedRatioBase) :: u64;
             encoded = (code * ucast (am_origin_content_length meta) + kEncodedRatioScale div 2)
                         div kEncodedRatioScale
         in if encoded > 0xFFFFFFFF then None else Some (ucast encoded)))"

definition ClearEncodedOriginLength :: "AlternateMetadata \<Rightarrow> AlternateMetadata" where
  "ClearEncodedOriginLength meta =
     (if IsEncodedVariant meta then meta\<lparr>am_score_x100 := kScoreNA\<rparr> else meta)"

definition SetEncodedOriginLength :: "u64 \<Rightarrow> AlternateMetadata \<Rightarrow> AlternateMetadata" where
  "SetEncodedOriginLength encoded_bytes meta =
     (if \<not> IsEncodedVariant meta then meta
      else
        (let meta = meta\<lparr>am_score_x100 := kScoreNA\<rparr>
         in if am_origin_content_length meta = 0 then meta
            else
              (let len = ucast (am_origin_content_length meta) :: u64;
                   code = (encoded_bytes * kEncodedRatioScale + len div 2) div len
               in if code \<le> ucast (kScoreNA - 1 - kEncodedRatioBase)
                  then meta\<lparr>am_score_x100 := kEncodedRatioBase + ucast code\<rparr>
                  else meta)))"

section \<open>Round trip\<close>

lemmas meta_sizes = kCurrentVersion_def kFixedPrefixSize_def kV5FixedSuffixSize_def
  kV6FixedSuffixSize_def kV7FixedSuffixSize_def kV8FixedSuffixSize_def kHashSize_def
  kMaxOriginCtLen_def kMaxOriginCcLen_def

definition hashes_ok :: "AlternateMetadata \<Rightarrow> bool" where
  "hashes_ok meta \<longleftrightarrow>
     length (am_origin_html_hash meta) = kHashSize \<and> length (am_render_source_hash meta) = kHashSize"

text \<open>What a reader sees of a written record.\<close>

definition stored_view :: "AlternateMetadata \<Rightarrow> AlternateMetadata" where
  "stored_view meta =
     (let ct = take kMaxOriginCtLen (StripHeaderControlChars (am_origin_content_type meta));
          meta' = meta\<lparr>am_version := kCurrentVersion,
            am_origin_content_type := ct,
            am_wire_ct_len := length ct,
            am_wire_cc_len := length (stored_cache_control meta),
            am_score_x100 := clamp_score meta (am_score_x100 meta),
            am_content_class := clamp_class (am_content_class meta),
            am_origin_etag := take 65535 (am_origin_etag meta),
            am_origin_cache_control := stored_cache_control meta\<rparr>
      in meta'\<lparr>am_consumed_size := length (Metadata_Serialize meta)\<rparr>)"

lemma strip_id: "set s \<subseteq> set (StripHeaderControlChars t) \<Longrightarrow> StripHeaderControlChars s = s"
  by (auto simp: StripHeaderControlChars_def filter_id_conv)

lemma strip_take [simp]: "StripHeaderControlChars (take n (StripHeaderControlChars t)) = take n (StripHeaderControlChars t)"
  by (rule strip_id) (rule set_take_subset)

lemma strip_stored [simp]: "StripHeaderControlChars (stored_cache_control m) = stored_cache_control m"
  by (simp add: stored_cache_control_def Let_def strip_id [of _ "am_origin_cache_control m"])

lemma stored_cc_length: "length (stored_cache_control m) \<le> 256"
  by (simp add: stored_cache_control_def Let_def kMaxOriginCcLen_def)

lemma bytes_at_skip [simp]:
  "length a \<le> off \<Longrightarrow> bytes_at off n (a @ b) = bytes_at (off - length a) n b"
  by (simp add: bytes_at_def)

lemma bytes_at_skip1 [simp]: "0 < off \<Longrightarrow> bytes_at off n (c # b) = bytes_at (off - 1) n b"
  by (cases off) (simp_all add: bytes_at_def)

lemma bytes_at_here: "length a = n \<Longrightarrow> bytes_at 0 n (a @ b) = a"
  by (simp add: bytes_at_def)

lemma bytes_at_here1: "bytes_at 0 (Suc 0) (c # b) = [c]"
  by (simp add: bytes_at_def)

lemma unat_u8_mod [simp]: "unat (w :: u8) mod 256 = unat w"
  using unsigned_less [of w, where 'a = nat] by simp

text \<open>The blob as a sequence of fields, for given content type, etag and cache control bytes.\<close>

definition layout :: "string \<Rightarrow> string \<Rightarrow> string \<Rightarrow> AlternateMetadata \<Rightarrow> string \<Rightarrow> string" where
  "layout ct et cc m rest =
     char_of (9 :: nat) # le_bytes 4 (unat (am_full_mask m)) @
     char_of (ContentType_raw (am_content_type m)) # char_of (unat (am_flags m)) #
     le_bytes 2 (length ct) @ ct @
     le_bytes 4 (unat (am_cache_inserted_at m)) @ le_bytes 4 (unat (am_origin_max_age m)) @
     le_bytes 4 (unat (am_origin_s_maxage m)) @ le_bytes 2 (unat (am_origin_cc_flags m)) @
     le_bytes 2 (unat (am_score_x100 m)) @ char_of (unat (am_content_class m)) #
     le_bytes 4 (unat (am_origin_last_modified m)) @ le_bytes 2 (length et) @ et @
     le_bytes 4 (unat (am_origin_content_length m)) @
     am_origin_html_hash m @ am_render_source_hash m @
     le_bytes 8 (unat (am_origin_epoch m)) @ le_bytes 2 (length cc) @ cc @ rest"

lemma Serialize_layout:
  assumes "hashes_ok m"
  shows "Metadata_Serialize m @ rest =
    layout (take 256 (StripHeaderControlChars (am_origin_content_type m)))
      (take 65535 (am_origin_etag m)) (stored_cache_control m) m rest"
proof -
  have "take (min 256 (length xs)) xs = take 256 xs" "take (min 65535 (length xs)) xs = take 65535 xs"
    for xs :: string
    by (simp_all add: min_def)
  with assms show ?thesis
    by (simp add: Metadata_Serialize_def layout_def Let_def meta_sizes hashes_ok_def min.commute)
qed

definition layout_ok :: "string \<Rightarrow> string \<Rightarrow> string \<Rightarrow> AlternateMetadata \<Rightarrow> bool" where
  "layout_ok ct et cc m \<longleftrightarrow>
     length ct \<le> 256 \<and> length et \<le> 65535 \<and> length cc \<le> 256 \<and> hashes_ok m"

lemma layout_okD:
  assumes "layout_ok ct et cc m"
  shows "length ct \<le> 256" "length et \<le> 65535" "length cc \<le> 256"
    "length (am_origin_html_hash m) = 32" "length (am_render_source_hash m) = 32"
  using assms by (simp_all add: layout_ok_def hashes_ok_def kHashSize_def)

lemma layout_length:
  assumes "layout_ok ct et cc m"
  shows "length (layout ct et cc m rest) = 110 + length ct + length et + length cc + length rest"
  using layout_okD [OF assms] by (simp add: layout_def)

lemma layout_nth:
  "of_char (layout ct et cc m rest ! 0) = (9 :: nat)"
  "of_char (layout ct et cc m rest ! 5) = ContentType_raw (am_content_type m)"
  "of_char (layout ct et cc m rest ! 6) = unat (am_flags m)"
  by (simp_all add: layout_def nth_append nth_Cons')

lemma layout_reads_prefix:
  assumes "layout_ok ct et cc m"
  shows "le_at 1 4 (layout ct et cc m rest) = unat (am_full_mask m)"
  "le_at 7 2 (layout ct et cc m rest) = length ct"
  "bytes_at 9 (length ct) (layout ct et cc m rest) = ct"
  using layout_okD [OF assms] by (simp_all add: layout_def le_at_def bytes_at_here codec_simps)

lemma layout_reads_v4:
  assumes "layout_ok ct et cc m"
  shows "le_at (9 + length ct) 4 (layout ct et cc m rest) = unat (am_cache_inserted_at m)"
  "le_at (9 + length ct + 4) 4 (layout ct et cc m rest) = unat (am_origin_max_age m)"
  "le_at (9 + length ct + 8) 4 (layout ct et cc m rest) = unat (am_origin_s_maxage m)"
  "le_at (9 + length ct + 12) 2 (layout ct et cc m rest) = unat (am_origin_cc_flags m)"
  "le_at (9 + length ct + 14) 2 (layout ct et cc m rest) = unat (am_score_x100 m)"
  "le_at (9 + length ct + 16) 1 (layout ct et cc m rest) = unat (am_content_class m)"
  "le_at (9 + length ct + 17) 4 (layout ct et cc m rest) = unat (am_origin_last_modified m)"
  using layout_okD [OF assms] by (simp_all add: layout_def le_at_def bytes_at_here bytes_at_here1 codec_simps)

lemma layout_reads_v8:
  assumes "layout_ok ct et cc m"
  shows "le_at (9 + length ct + 21) 2 (layout ct et cc m rest) = length et"
  "bytes_at (9 + length ct + 23) (length et) (layout ct et cc m rest) = et"
  "le_at (9 + length ct + 23 + length et) 4 (layout ct et cc m rest) = unat (am_origin_content_length m)"
  "bytes_at (9 + length ct + 23 + length et + 4) 32 (layout ct et cc m rest) = am_origin_html_hash m"
  "bytes_at (9 + length ct + 23 + length et + 4 + 32) 32 (layout ct et cc m rest) = am_render_source_hash m"
  "le_at (9 + length ct + 23 + length et + 4 + 2 * 32) 8 (layout ct et cc m rest) = unat (am_origin_epoch m)"
  "le_at (9 + length ct + 23 + length et + 4 + 2 * 32 + 8) 2 (layout ct et cc m rest) = length cc"
  "bytes_at (9 + length ct + 23 + length et + 4 + 2 * 32 + 10) (length cc) (layout ct et cc m rest) = cc"
  using layout_okD [OF assms] by (simp_all add: layout_def le_at_def bytes_at_here codec_simps)

lemma layout_not_retired: "\<not> IsRetired (layout ct et cc m rest)"
  by (simp add: IsRetired_def layout_nth Let_def)

lemmas layout_reads = layout_reads_prefix [simplified] layout_reads_v4 [simplified]
  layout_reads_v8 [simplified]

lemma etag_id: "am_origin_etag meta = [] \<Longrightarrow> meta\<lparr>am_origin_etag := []\<rparr> = meta"
  by (cases meta) simp

lemma cc_id: "am_origin_cache_control meta = [] \<Longrightarrow> meta\<lparr>am_origin_cache_control := []\<rparr> = meta"
  by (cases meta) simp

lemma ParseCacheControl_layout:
  "layout_ok ct et cc m \<Longrightarrow> ParseCacheControlFields (layout ct et cc m rest) (9 + length ct) meta =
   meta\<lparr>am_cache_inserted_at := am_cache_inserted_at m, am_origin_max_age := am_origin_max_age m,
        am_origin_s_maxage := am_origin_s_maxage m, am_origin_cc_flags := am_origin_cc_flags m\<rparr>"
  by (simp add: ParseCacheControlFields_def layout_reads)

lemma ParseV4_layout:
  "layout_ok ct et cc m \<Longrightarrow> am_full_mask meta = am_full_mask m \<Longrightarrow>
   ParseV4Fields (layout ct et cc m rest) (9 + length ct) meta =
   meta\<lparr>am_score_x100 := clamp_score m (am_score_x100 m),
        am_content_class := clamp_class (am_content_class m)\<rparr>"
  by (simp add: ParseV4Fields_def layout_reads clamp_score_def IsEncodedVariant_def)

lemma ParseV5_layout:
  "layout_ok ct et cc m \<Longrightarrow> am_version meta = 9 \<Longrightarrow> am_origin_etag meta = [] \<Longrightarrow>
   ParseV5Fields (layout ct et cc m rest) (9 + length ct) (length ct) meta =
   Some (meta\<lparr>am_origin_last_modified := am_origin_last_modified m, am_origin_etag := et\<rparr>, length et)"
  by (cases meta; cases "et = []")
     (simp_all add: ParseV5Fields_def Let_def layout_reads layout_length meta_sizes v5_fixed_suffix_def)

lemma ParseV67_layout:
  "layout_ok ct et cc m \<Longrightarrow>
   ParseV7Fields (layout ct et cc m rest) (9 + length ct) (length et)
     (ParseV6Fields (layout ct et cc m rest) (9 + length ct) (length et) meta) =
   meta\<lparr>am_origin_content_length := am_origin_content_length m,
        am_origin_html_hash := am_origin_html_hash m, am_render_source_hash := am_render_source_hash m\<rparr>"
  by (simp add: ParseV6Fields_def ParseV7Fields_def Let_def layout_reads meta_sizes)

lemma ParseV8_layout:
  "layout_ok ct et cc m \<Longrightarrow> am_origin_cache_control meta = [] \<Longrightarrow> StripHeaderControlChars cc = cc \<Longrightarrow>
   ParseV8Fields (layout ct et cc m rest) (9 + length ct) (length ct) (length et) meta =
   Some (meta\<lparr>am_origin_epoch := am_origin_epoch m, am_wire_cc_len := length cc,
              am_origin_cache_control := cc\<rparr>)"
  using layout_okD(3) [of ct et cc m]
  by (cases meta; cases "cc = []")
     (simp_all add: ParseV8Fields_def Let_def layout_reads layout_length meta_sizes)

lemma Deserialize_layout:
  assumes "layout_ok ct et cc m" "StripHeaderControlChars ct = ct" "StripHeaderControlChars cc = cc"
  shows "Metadata_Deserialize (layout ct et cc m rest) =
    Some (m\<lparr>am_version := 9, am_origin_content_type := ct, am_wire_ct_len := length ct,
      am_wire_cc_len := length cc, am_score_x100 := clamp_score m (am_score_x100 m),
      am_content_class := clamp_class (am_content_class m), am_origin_etag := et,
      am_origin_cache_control := cc,
      am_consumed_size := 110 + length ct + length et + length cc\<rparr>)"
  using layout_okD(1-3) [OF assms(1)]
  by (simp add: Metadata_Deserialize_def ParseVersionedSuffix_def Let_def assms kFixedPrefixSize_def kMaxOriginCtLen_def kCurrentVersion_def
      kV8FixedSuffixSize_def kV7FixedSuffixSize_def kV6FixedSuffixSize_def
      layout_length layout_nth layout_reads layout_not_retired check_def suffix_size_for_def
      ParseCacheControl_layout ParseV4_layout ParseV5_layout ParseV67_layout ParseV8_layout
      consumed_bytes_def AlternateMetadata_default_def)

lemma stored_view_eq:
  assumes "hashes_ok m"
  shows "Metadata_Deserialize (Metadata_Serialize m @ rest) = Some (stored_view m)"
proof -
  let ?ct = "take 256 (StripHeaderControlChars (am_origin_content_type m))"
  let ?et = "take 65535 (am_origin_etag m)" and ?cc = "stored_cache_control m"
  have ok: "layout_ok ?ct ?et ?cc m"
    using assms stored_cc_length by (simp add: layout_ok_def)
  have "length (Metadata_Serialize m) = 110 + length ?ct + length ?et + length ?cc"
    using layout_length [OF ok, of "[]"] Serialize_layout [OF assms, of "[]"] by simp
  then show ?thesis
    unfolding Serialize_layout [OF assms]
    by (subst Deserialize_layout [OF ok])
       (simp_all add: stored_view_def Let_def kMaxOriginCtLen_def kCurrentVersion_def)
qed

interpretation meta: framed_codec hashes_ok Metadata_Serialize Metadata_Deserialize stored_view
  by unfold_locales (rule stored_view_eq)

section \<open>What a reader accepts\<close>

lemma parse_keeps [simp]:
  "am_version (ParseCacheControlFields d off x) = am_version x"
  "am_wire_ct_len (ParseCacheControlFields d off x) = am_wire_ct_len x"
  "am_origin_etag (ParseCacheControlFields d off x) = am_origin_etag x"
  "am_origin_content_type (ParseCacheControlFields d off x) = am_origin_content_type x"
  "am_origin_cache_control (ParseCacheControlFields d off x) = am_origin_cache_control x"
  "am_version (ParseV4Fields d off x) = am_version x"
  "am_wire_ct_len (ParseV4Fields d off x) = am_wire_ct_len x"
  "am_origin_etag (ParseV4Fields d off x) = am_origin_etag x"
  "am_origin_content_type (ParseV4Fields d off x) = am_origin_content_type x"
  "am_origin_cache_control (ParseV4Fields d off x) = am_origin_cache_control x"
  "am_version (ParseV6Fields d off e x) = am_version x"
  "am_wire_ct_len (ParseV6Fields d off e x) = am_wire_ct_len x"
  "am_origin_etag (ParseV6Fields d off e x) = am_origin_etag x"
  "am_origin_content_type (ParseV6Fields d off e x) = am_origin_content_type x"
  "am_origin_cache_control (ParseV6Fields d off e x) = am_origin_cache_control x"
  "am_version (ParseV7Fields d off e x) = am_version x"
  "am_wire_ct_len (ParseV7Fields d off e x) = am_wire_ct_len x"
  "am_origin_etag (ParseV7Fields d off e x) = am_origin_etag x"
  "am_origin_content_type (ParseV7Fields d off e x) = am_origin_content_type x"
  "am_origin_cache_control (ParseV7Fields d off e x) = am_origin_cache_control x"
  by (simp_all add: ParseCacheControlFields_def ParseV4Fields_def ParseV6Fields_def ParseV7Fields_def Let_def)

lemma ParseV5_Some:
  assumes "ParseV5Fields d (9 + c) c x = Some (y, e)" "am_origin_etag x = []"
  shows "am_version y = am_version x" "am_wire_ct_len y = am_wire_ct_len x"
    "length (am_origin_etag y) = e" "am_origin_content_type y = am_origin_content_type x"
    "am_origin_cache_control y = am_origin_cache_control x"
    "9 + c + v5_fixed_suffix (am_version x) + e \<le> length d"
  using assms
  by (auto simp: ParseV5Fields_def Let_def bytes_at_def v5_fixed_suffix_def meta_sizes split: if_splits)

lemma ParseV8_Some:
  assumes "ParseV8Fields d off c e x = Some y"
  shows "am_version y = am_version x" "am_wire_ct_len y = am_wire_ct_len x"
    "am_origin_etag y = am_origin_etag x" "am_origin_content_type y = am_origin_content_type x"
    "9 + c + 101 + e + am_wire_cc_len y \<le> length d"
    "am_origin_cache_control x = [] \<Longrightarrow> \<exists>t. am_origin_cache_control y = StripHeaderControlChars t"
  using assms
  by (auto simp: ParseV8Fields_def Let_def meta_sizes StripHeaderControlChars_def split: if_splits
      intro: exI [of _ "[]"])

text \<open>The four conditions every accepted blob satisfies, on the record and the input.\<close>

definition accepted :: "string \<Rightarrow> AlternateMetadata \<Rightarrow> bool" where
  "accepted data m \<longleftrightarrow>
     3 \<le> am_version m \<and> am_version m \<le> kCurrentVersion \<and> \<not> IsRetired data \<and>
     am_consumed_size m = WireSize m \<and> am_consumed_size m \<le> length data \<and>
     list_all (\<lambda>c. c \<notin> {CHR 0x0D, CHR 0x0A, CHR 0x00}) (am_origin_content_type m @ am_origin_cache_control m)"

lemma strip_clean: "list_all (\<lambda>c. c \<notin> {CHR 0x0D, CHR 0x0A, CHR 0x00}) (StripHeaderControlChars t)"
  by (auto simp: StripHeaderControlChars_def list_all_iff)

lemma Suffix_Some:
  assumes "ParseVersionedSuffix d (9 + c) c x = Some y"
    and "am_origin_etag x = []" "am_origin_cache_control x = []" "am_wire_ct_len x = c"
    and "9 + c + suffix_size_for (am_version x) \<le> length d"
  shows "am_version y = am_version x" "am_origin_content_type y = am_origin_content_type x"
    "consumed_bytes c y = WireSize y" "WireSize y \<le> length d"
    "\<exists>t. am_origin_cache_control y = StripHeaderControlChars t"
proof -
  let ?v = "am_version x"
  define x4 where "x4 = (if ?v \<ge> 4 then ParseV4Fields d (9 + c) (ParseCacheControlFields d (9 + c) x)
    else ParseCacheControlFields d (9 + c) x)"
  have x4: "am_version x4 = ?v" "am_wire_ct_len x4 = c" "am_origin_etag x4 = []"
    "am_origin_cache_control x4 = []" "am_origin_content_type x4 = am_origin_content_type x"
    using assms by (simp_all add: x4_def)
  obtain x5 e where x5: "(if ?v \<ge> 5 then ParseV5Fields d (9 + c) c x4 else Some (x4, 0)) = Some (x5, e)"
    and y: "(if ?v \<ge> 8 then ParseV8Fields d (9 + c) c e (ParseV7Fields d (9 + c) e (ParseV6Fields d (9 + c) e x5))
      else Some (if ?v \<ge> 7 then ParseV7Fields d (9 + c) e (ParseV6Fields d (9 + c) e x5)
                 else if ?v \<ge> 6 then ParseV6Fields d (9 + c) e x5 else x5)) = Some y"
    using assms(1) unfolding ParseVersionedSuffix_def Let_def x4_def [symmetric]
    by (auto simp: bind_eq_Some_conv split: if_splits)
  have e: "am_version x5 = ?v" "am_wire_ct_len x5 = c" "length (am_origin_etag x5) = e"
    "am_origin_content_type x5 = am_origin_content_type x" "am_origin_cache_control x5 = []"
    "?v < 5 \<Longrightarrow> e = 0" "?v \<ge> 5 \<Longrightarrow> 9 + c + v5_fixed_suffix ?v + e \<le> length d"
    using x5 x4 ParseV5_Some [of d c x4 x5 e] by (auto split: if_splits)
  have "?v \<ge> 8 \<Longrightarrow> ParseV8Fields d (9 + c) c e (ParseV7Fields d (9 + c) e (ParseV6Fields d (9 + c) e x5)) = Some y"
    using y by simp
  note v8 = ParseV8_Some [OF this]
  have "am_version y = ?v" "am_origin_content_type y = am_origin_content_type x" "am_wire_ct_len y = c"
    "length (am_origin_etag y) = e"
    using y v8(1-4) e by (auto split: if_splits)
  then show "am_version y = am_version x" "am_origin_content_type y = am_origin_content_type x"
    "consumed_bytes c y = WireSize y" "WireSize y \<le> length d"
    using e(6,7) v8(5) assms(5)
    by (auto simp: consumed_bytes_def WireSize_def meta_sizes Let_def v5_fixed_suffix_def suffix_size_for_def
        split: if_splits)
  show "\<exists>t. am_origin_cache_control y = StripHeaderControlChars t"
    using y v8(6) e by (auto simp: StripHeaderControlChars_def split: if_splits intro: exI [of _ "[]"])
qed

lemma Deserialize_accepted:
  assumes "Metadata_Deserialize data = Some m"
  shows "accepted data m"
proof -
  define c where "c = le_at 7 2 data"
  define x where "x = AlternateMetadata_default
    \<lparr>am_version := of_char (data ! 0), am_full_mask := word_of_nat (le_at 1 4 data),
     am_content_type := ContentType_cast (of_char (data ! 5)), am_flags := word_of_nat (of_char (data ! 6)),
     am_wire_ct_len := c,
     am_origin_content_type := StripHeaderControlChars (bytes_at kFixedPrefixSize c data)\<rparr>"
  have x: "am_origin_etag x = []" "am_origin_cache_control x = []" "am_wire_ct_len x = c"
    "am_origin_content_type x = StripHeaderControlChars (bytes_at 9 c data)"
    "am_version x = of_char (data ! 0)"
    by (simp_all add: x_def AlternateMetadata_default_def kFixedPrefixSize_def)
  from assms obtain y where
    v: "3 \<le> am_version x" "am_version x \<le> 9" "\<not> IsRetired data" "9 + c + suffix_size_for (am_version x) \<le> length data"
    and y: "ParseVersionedSuffix data (9 + c) c x = Some y"
    and m: "m = y\<lparr>am_consumed_size := consumed_bytes c y\<rparr>"
    unfolding Metadata_Deserialize_def Let_def bind_eq_Some_conv x(5) x_def [symmetric] c_def [symmetric]
    by (auto simp: kFixedPrefixSize_def kCurrentVersion_def)
  note s = Suffix_Some [OF y x(1-3) v(4)]
  have "WireSize m = WireSize y" by (simp add: m WireSize_def)
  moreover from s(5) obtain t where "am_origin_cache_control y = StripHeaderControlChars t" ..
  ultimately show ?thesis
    using v(1-3) s(1-4) x(4) strip_clean
    by (simp add: accepted_def m kCurrentVersion_def del: insert_iff)
qed

section \<open>The encoded-size code\<close>

lemma round_div:
  fixes a b :: nat
  assumes "0 < b"
  shows "2 * \<bar>int b * int ((a + b div 2) div b) - int a\<bar> \<le> int b"
proof -
  define h q r where "h = b div 2" and "q = (a + h) div b" and "r = (a + h) mod b"
  have h: "2 * h \<le> b" "b \<le> 2 * h + 1" by (simp_all add: h_def)
  have "b * q + r = a + h" "r < b"
    using assms by (simp_all add: q_def r_def)
  then have "int b * int q = int a + int h - int r"
    by (metis add_diff_cancel_right' of_nat_add of_nat_mult)
  moreover have "- int b \<le> 2 * (int h - int r)" "2 * (int h - int r) \<le> int b"
    using h \<open>r < b\<close> by (presburger, presburger)
  ultimately have "2 * \<bar>int b * int q - int a\<bar> \<le> int b" by (simp add: abs_if)
  then show ?thesis by (simp only: q_def h_def)
qed

lemma encoded_error:
  fixes e l :: nat
  assumes "0 < l"
  defines "code \<equiv> (e * 50000 + l div 2) div l"
  defines "d \<equiv> (code * l + 25000) div 50000"
  shows "100000 * \<bar>int d - int e\<bar> \<le> int l + 50000"
proof -
  have 1: "2 * \<bar>int l * int code - int (e * 50000)\<bar> \<le> int l"
    unfolding code_def by (rule round_div [OF assms(1)])
  have 2: "2 * \<bar>int 50000 * int d - int (code * l)\<bar> \<le> int 50000"
    using round_div [of 50000 "code * l"] by (simp add: d_def)
  define x where "x = int l * int code"
  have "2 * \<bar>x - 50000 * int e\<bar> \<le> int l" "2 * \<bar>50000 * int d - x\<bar> \<le> 50000"
    using 1 2 by (simp_all add: x_def mult.commute)
  then show ?thesis by (simp add: abs_if split: if_splits)
qed

lemma unat_u32_less: "unat (l :: u32) < 4294967296"
  using unsigned_less [of l, where 'a = nat] by simp

lemma unat_ucast_u32: "unat (ucast (l :: u32) :: u64) = unat l"
  using unat_u32_less [of l] by (simp add: unsigned_ucast_eq take_bit_nat_eq_self)

lemma unat_ucast_u16: "unat (ucast (c :: u16) :: u64) = unat c"
  using unsigned_less [of c, where 'a = nat] by (simp add: unsigned_ucast_eq take_bit_nat_eq_self)

lemma unat_ucast_to_u16: "unat (w :: u64) < 65536 \<Longrightarrow> unat (ucast w :: u16) = unat w"
  by (simp add: unsigned_ucast_eq take_bit_nat_eq_self)

lemma unat_ucast_to_u32: "unat (w :: u64) < 4294967296 \<Longrightarrow> unat (ucast w :: u32) = unat w"
  by (simp add: unsigned_ucast_eq take_bit_nat_eq_self)

lemma encoded_code_bound: "e \<le> l \<Longrightarrow> 0 < l \<Longrightarrow> (e * 50000 + l div 2) div l \<le> (50000 :: nat)"
proof -
  assume "e \<le> l" "0 < l"
  then have "e * 50000 + l div 2 < 50001 * l" by linarith
  then have "(e * 50000 + l div 2) div l < 50001" by (rule less_mult_imp_div_less)
  then show ?thesis by simp
qed

lemma encoded_code_word:
  fixes e :: u64 and l :: u32
  assumes "unat e \<le> unat l"
  shows "unat ((e * 50000 + ucast l div 2) div ucast l) = (unat e * 50000 + unat l div 2) div unat l"
  using assms unat_u32_less [of l]
  by (simp add: unat_div unat_word_ariths(1,2) unat_ucast_u32)

lemma encoded_length_word:
  fixes code :: u64 and l :: u32
  assumes "unat code \<le> 50000"
  shows "unat ((code * ucast l + 25000) div 50000) = (unat code * unat l + 25000) div 50000"
proof -
  have "unat code * unat l \<le> 50000 * 4294967296"
    using assms less_imp_le [OF unat_u32_less [of l]] by (rule mult_le_mono)
  then show ?thesis by (simp add: unat_div unat_word_ariths(1,2) unat_ucast_u32)
qed

lemma encoded_length_bound: "code \<le> 50000 \<Longrightarrow> (code * l + 25000) div 50000 \<le> (l :: nat)"
proof -
  assume "code \<le> 50000"
  then have "code * l + 25000 \<le> 50000 * l + 25000" by (simp add: mult_right_mono)
  then have "(code * l + 25000) div 50000 \<le> (50000 * l + 25000) div 50000" by (rule div_le_mono)
  then show ?thesis by simp
qed

lemma EncodedOriginLength_Set:
  assumes "IsEncodedVariant m" "am_origin_content_length m \<noteq> 0"
    "unat e \<le> unat (am_origin_content_length m)"
  defines "l \<equiv> unat (am_origin_content_length m)"
  defines "code \<equiv> (unat e * 50000 + l div 2) div l"
  shows "\<exists>d. EncodedOriginLength (SetEncodedOriginLength e m) = Some d \<and> unat d = (code * l + 25000) div 50000"
proof -
  have l: "0 < l" "unat e \<le> l" "l < 4294967296"
    using assms(2,3) by (simp_all add: l_def unat_u32_less unat_gt_0)
  define w where "w = (e * 50000 + ucast (am_origin_content_length m) div 2) div ucast (am_origin_content_length m)"
  have w: "unat w = code" "code \<le> 50000"
    using encoded_code_word [OF assms(3)] encoded_code_bound [OF l(2,1)] by (simp_all add: w_def code_def l_def)
  define s where "s = 10001 + (ucast w :: u16)"
  have s: "unat s = 10001 + code"
    using w by (simp add: s_def unat_word_ariths(1) unat_ucast_to_u16)
  have sc: "am_score_x100 (SetEncodedOriginLength e m) = s"
    using assms(1,2) w
    by (simp add: SetEncodedOriginLength_def Let_def kScoreNA_def kEncodedRatioBase_def kMaxScoreX100_def
        kEncodedRatioScale_def word_le_nat_alt s_def flip: w_def)
  have keep: "am_origin_content_length (SetEncodedOriginLength e m) = am_origin_content_length m"
    "IsEncodedVariant (SetEncodedOriginLength e m)"
    using assms(1) by (simp_all add: SetEncodedOriginLength_def Let_def IsEncodedVariant_def)
  have code_back: "unat (ucast (s - 10001) :: u64) = code"
    using s w(2) by (simp add: unat_ucast_u16 unat_sub word_le_nat_alt)
  have "\<not> s < 10001" "s \<noteq> 0xFFFF" using s w(2) by (auto simp: word_less_nat_alt)
  moreover have d: "unat ((ucast (s - 10001) * ucast (am_origin_content_length m) + 25000) div 50000 :: u64)
      = (code * l + 25000) div 50000"
    using encoded_length_word [of "ucast (s - 10001)" "am_origin_content_length m"] w(2) code_back by (simp add: l_def)
  moreover have "(code * l + 25000) div 50000 < 4294967296"
    using encoded_length_bound [OF w(2), of l] l(3) by linarith
  ultimately show ?thesis
    using assms(2)
    by (simp add: EncodedOriginLength_def sc keep kScoreNA_def kEncodedRatioBase_def kMaxScoreX100_def
        kEncodedRatioScale_def Let_def word_less_nat_alt unat_ucast_to_u32)
qed
section \<open>Properties\<close>

text \<open>
  C21: a metadata blob written by this build reads back, whatever content follows it: the scalars, the
  hashes and the etag unchanged, the header strings without control characters and within their caps,
  the score and class clamped, and the consumed size equal to the number of bytes written.
\<close>

theorem Metadata_roundtrip:
  assumes "hashes_ok m"
  shows "Metadata_Deserialize (Metadata_Serialize m @ content) = Some (stored_view m)"
  using assms by (rule meta.dec_enc)

theorem Metadata_roundtrip_witness:
  "Metadata_Deserialize (Metadata_Serialize
     (AlternateMetadata_default\<lparr>am_full_mask := 0x48, am_origin_etag := ''abc''\<rparr>) @ ''body'') =
   Some (stored_view (AlternateMetadata_default\<lparr>am_full_mask := 0x48, am_origin_etag := ''abc''\<rparr>))"
  by (rule Metadata_roundtrip) (simp add: hashes_ok_def AlternateMetadata_default_def kHashSize_def)

text \<open>
  whatever bytes are read, an accepted blob has a known version and is not a retired entry, the
  byte count the parser derives field by field equals the one derived from the layout constants and
  lies inside the buffer, and the content type and cache control carry no CR, LF or NUL.
\<close>

theorem Metadata_accepted:
  assumes "Metadata_Deserialize data = Some m"
  shows "3 \<le> am_version m \<and> am_version m \<le> kCurrentVersion \<and> \<not> IsRetired data \<and>
    am_consumed_size m = WireSize m \<and> am_consumed_size m \<le> length data \<and>
    list_all (\<lambda>c. c \<notin> {CHR 0x0D, CHR 0x0A, CHR 0x00}) (am_origin_content_type m @ am_origin_cache_control m)"
  using Deserialize_accepted [OF assms] unfolding accepted_def .

theorem Metadata_accepted_witness:
  "am_consumed_size (stored_view AlternateMetadata_default) = WireSize (stored_view AlternateMetadata_default)"
proof -
  have "hashes_ok AlternateMetadata_default"
    by (simp add: hashes_ok_def AlternateMetadata_default_def kHashSize_def)
  then have "Metadata_Deserialize (Metadata_Serialize AlternateMetadata_default) =
      Some (stored_view AlternateMetadata_default)"
    by (rule meta.dec_enc_exact)
  then show ?thesis using Metadata_accepted by blast
qed

text \<open>
  a record whose etag is within its budget serializes within the published size, so the size
  check of a write never refuses it.
\<close>

theorem Metadata_size_at_budget:
  assumes "hashes_ok m" and "length (am_origin_etag m) \<le> kEtagBudget"
  shows "length (Metadata_Serialize m) \<le> kMaxSerializedSizeAtBudget \<and> kMaxSerializedSizeAtBudget = 750"
proof -
  let ?ct = "take 256 (StripHeaderControlChars (am_origin_content_type m))"
  let ?et = "take 65535 (am_origin_etag m)" and ?cc = "stored_cache_control m"
  have ok: "layout_ok ?ct ?et ?cc m"
    using assms stored_cc_length by (simp add: layout_ok_def)
  have "length (Metadata_Serialize m) = 110 + length ?ct + length ?et + length ?cc"
    using layout_length [OF ok, of "[]"] Serialize_layout [OF assms(1), of "[]"] by simp
  then show ?thesis
    using layout_okD(1,3) [OF ok] assms(2)
    by (simp add: kMaxSerializedSizeAtBudget_def kEtagBudget_def meta_sizes)
qed

theorem Metadata_size_at_budget_witness:
  "length (Metadata_Serialize (AlternateMetadata_default\<lparr>am_origin_etag := ''tag''\<rparr>)) \<le> kMaxSerializedSizeAtBudget"
  by (rule Metadata_size_at_budget [THEN conjunct1])
     (simp_all add: hashes_ok_def AlternateMetadata_default_def kHashSize_def kEtagBudget_def)

text \<open>
  an encoded size that does not exceed the origin length survives the 16-bit code: reading it back
  always gives a value, and the value is off by at most half a code step plus one half byte.
\<close>

theorem EncodedOriginLength_accurate:
  assumes "IsEncodedVariant m" and "am_origin_content_length m \<noteq> 0"
    and "unat e \<le> unat (am_origin_content_length m)"
  shows "\<exists>d. EncodedOriginLength (SetEncodedOriginLength e m) = Some d \<and>
    100000 * \<bar>int (unat d) - int (unat e)\<bar> \<le> int (unat (am_origin_content_length m)) + 50000"
proof -
  have "0 < unat (am_origin_content_length m)" using assms(2) by (simp add: unat_gt_0)
  note err = encoded_error [OF this, of "unat e"]
  from EncodedOriginLength_Set [OF assms] obtain d where
    d: "EncodedOriginLength (SetEncodedOriginLength e m) = Some d"
    "unat d = ((unat e * 50000 + unat (am_origin_content_length m) div 2)
        div unat (am_origin_content_length m) * unat (am_origin_content_length m) + 25000) div 50000"
    by blast
  show ?thesis using err unfolding d(2) [symmetric] d(1) by blast
qed

theorem EncodedOriginLength_accurate_witness:
  "\<exists>d. EncodedOriginLength (SetEncodedOriginLength 300
       (AlternateMetadata_default\<lparr>am_full_mask := 0x48, am_origin_content_length := 1000\<rparr>)) = Some d \<and>
    100000 * \<bar>int (unat d) - 300\<bar> \<le> 51000"
proof -
  let ?m = "AlternateMetadata_default\<lparr>am_full_mask := 0x48, am_origin_content_length := 1000\<rparr>"
  have "IsEncodedVariant ?m" by (simp add: IsEncodedVariant_def Decode_def TransferEncoding_cast_def Let_def)
  then show ?thesis using EncodedOriginLength_accurate [of ?m 300] by simp
qed

end
