(* ===== verification/Origin_Cache_Control.thy ===== *)
theory Origin_Cache_Control
  imports Alternate_Metadata
begin

text \<open>
  Parsing of the origin's Cache-Control header: \<open>lib/cache/origin_cache_control.cc\<close>.  The flags and
  lifetimes of all header lines are accumulated into one record.  The lemmas read that record back over the list
  members of the lines: which directives they name, and the value of the last max-age and s-maxage.
\<close>

section \<open>Tokens\<close>

text \<open>The fold of the case-insensitive comparison sets bit 5 of the letters A to Z.\<close>

definition fold_az :: "char \<Rightarrow> char" where
  "fold_az c = (if CHR ''A'' \<le> c \<and> c \<le> CHR ''Z'' then char_of ((of_char c :: nat) OR 0x20) else c)"

definition AsciiEqualsIgnoreCase :: "string \<Rightarrow> string \<Rightarrow> bool" where
  "AsciiEqualsIgnoreCase token name \<longleftrightarrow>
     length token = length name \<and>
     list_all (\<lambda>i. fold_az (token ! i) = fold_az (name ! i)) [0 ..< length token]"

definition TrimOws :: "string \<Rightarrow> string" where
  "TrimOws s = trim is_ows s"

section \<open>Delta seconds\<close>

definition kUint32Max :: nat where
  "kUint32Max = 4294967295"

fun seconds_loop :: "nat \<Rightarrow> string \<Rightarrow> nat" where
  "seconds_loop result [] = result"
| "seconds_loop result (c # cs) =
     (if c < CHR ''0'' \<or> c > CHR ''9'' then 0
      else
        (let result' = result * 10 + digit_value c
         in if result' > kUint32Max then kUint32Max else seconds_loop result' cs))"

definition strip_quotes :: "string \<Rightarrow> string" where
  "strip_quotes val =
     (let val = (if val \<noteq> [] \<and> hd val = CHR 0x22 then tl val else val)
      in if val \<noteq> [] \<and> last val = CHR 0x22 then butlast val else val)"

definition ParseCacheControlSeconds :: "string \<Rightarrow> u32" where
  "ParseCacheControlSeconds val0 =
     (let val = TrimOws (strip_quotes (TrimOws val0))
      in if val = [] then 0 else word_of_nat (seconds_loop 0 val))"

section \<open>Directives\<close>

record OriginCacheControl =
  occ_flags :: u16
  occ_max_age :: u32
  occ_s_maxage :: u32

definition kCCDirectives :: "(string \<times> u16) list" where
  "kCCDirectives =
    [(''no-cache'', kCCOriginNoCache), (''must-revalidate'', kCCOriginMustRevalidate),
     (''proxy-revalidate'', kCCOriginProxyRevalidate), (''no-store'', kCCOriginNoStore),
     (''private'', kCCOriginPrivate), (''public'', kCCOriginPublic),
     (''immutable'', kCCOriginImmutable), (''no-transform'', kCCOriginNoTransform)]"

text \<open>The name of a trimmed token, whether it carries an argument, and the argument.\<close>

definition token_name :: "string \<Rightarrow> string" where
  "token_name token =
     (case sv_find (CHR ''='') token of None \<Rightarrow> token | Some eq \<Rightarrow> TrimOws (take eq token))"

definition token_value :: "string \<Rightarrow> string" where
  "token_value token = after (sv_find (CHR ''='') token) token"

definition token_has_argument :: "string \<Rightarrow> bool" where
  "token_has_argument token \<longleftrightarrow> sv_find (CHR ''='') token \<noteq> None"

definition form_flag :: "u16 \<Rightarrow> bool \<Rightarrow> u16" where
  "form_flag flag has_argument =
     (if flag = kCCOriginPrivate then
        (if has_argument then kCCOriginPrivateQualified else kCCOriginPrivateBare)
      else if flag = kCCOriginNoCache then
        (if has_argument then kCCOriginNoCacheQualified else kCCOriginNoCacheBare)
      else 0)"

definition accumulate_token :: "string \<Rightarrow> OriginCacheControl \<Rightarrow> OriginCacheControl" where
  "accumulate_token raw out =
     (let token = TrimOws raw
      in if token = [] then out
         else
           (case find (\<lambda>d. AsciiEqualsIgnoreCase (token_name token) (fst d)) kCCDirectives of
              Some d \<Rightarrow>
                out\<lparr>occ_flags := (occ_flags out OR snd d) OR form_flag (snd d) (token_has_argument token)\<rparr>
            | None \<Rightarrow>
                if AsciiEqualsIgnoreCase (token_name token) ''max-age'' then
                  out\<lparr>occ_max_age := ParseCacheControlSeconds (token_value token)\<rparr>
                else if AsciiEqualsIgnoreCase (token_name token) ''s-maxage'' then
                  out\<lparr>occ_s_maxage := ParseCacheControlSeconds (token_value token),
                      occ_flags := occ_flags out OR kCCOriginSMaxagePresent\<rparr>
                else out))"

definition AccumulateOriginCacheControl :: "string \<Rightarrow> OriginCacheControl \<Rightarrow> OriginCacheControl" where
  "AccumulateOriginCacheControl header_value out =
     fold accumulate_token (list_members (CHR '','') header_value)
       (out\<lparr>occ_flags := occ_flags out OR kCCOriginHeaderPresent\<rparr>)"

section \<open>Lemmas on tokens\<close>

lemma fold_az_LowerChar: "fold_az c = LowerChar c"
proof (cases "CHR ''A'' \<le> c \<and> c \<le> CHR ''Z''")
  case True
  define n :: nat where "n = of_char c"
  have "65 \<le> n" "n \<le> 90" using True by (simp_all add: n_def less_eq_char_def)
  then have "n \<in> set [65 ..< 91]"
    unfolding set_upt atLeastLessThan_iff by linarith
  moreover have "list_all (\<lambda>n :: nat. n OR 0x20 = n - 65 + 97) [65 ..< 91]"
    by (simp add: upt_rec_numeral)
  ultimately have "n OR 0x20 = n - 65 + 97" by (simp only: list_all_iff)
  with True show ?thesis by (simp add: fold_az_def LowerChar_def n_def)
next
  case False
  then show ?thesis by (simp only: fold_az_def LowerChar_def if_False)
qed

lemma AsciiEqualsIgnoreCase_iff: "AsciiEqualsIgnoreCase a b \<longleftrightarrow> AsciiToLower a = AsciiToLower b"
  unfolding AsciiEqualsIgnoreCase_def fold_az_LowerChar AsciiToLower_def list_all_length
    list_eq_iff_nth_eq [of "map LowerChar a"]
  by (auto simp: nth_append)

section \<open>Delta seconds: the value\<close>

lemma seconds_loop_digits:
  "list_all is_digit_char ds \<Longrightarrow> v \<le> kUint32Max \<Longrightarrow>
   seconds_loop v ds = min kUint32Max (v * 10 ^ length ds + dec_val ds)"
proof (induction ds arbitrary: v)
  case Nil
  then show ?case by simp
next
  case (Cons d ds)
  then have d: "\<not> d < CHR ''0''" "\<not> CHR ''9'' < d"
    by (simp_all add: is_digit_char_def not_less)
  have ds: "list_all is_digit_char ds" using Cons.prems by simp
  let ?w = "v * 10 + digit_value d"
  have eq: "v * 10 ^ length (d # ds) + dec_val (d # ds) = ?w * 10 ^ length ds + dec_val ds"
    by (simp add: algebra_simps)
  show ?case
  proof (cases "?w > kUint32Max")
    case True
    have "?w \<le> ?w * 10 ^ length ds" by simp
    with True have "kUint32Max \<le> ?w * 10 ^ length ds + dec_val ds" by linarith
    with True d show ?thesis unfolding eq by (simp add: Let_def)
  next
    case False
    with Cons.IH [OF ds, of ?w] d show ?thesis unfolding eq by (simp add: Let_def)
  qed
qed

lemma digits_trim: "list_all is_digit_char ds \<Longrightarrow> TrimOws ds = ds"
  unfolding TrimOws_def
  by (rule trim_id) (auto simp: list_all_iff digits_not_ows)

lemma digits_no_quotes: "list_all is_digit_char ds \<Longrightarrow> strip_quotes ds = ds"
proof -
  assume digits: "list_all is_digit_char ds"
  have no: "c \<noteq> CHR 0x22" if "c \<in> set ds" for c
    using digits that by (auto simp: list_all_iff is_digit_char_def less_eq_char_def)
  show ?thesis
    using no [OF hd_in_set, of] no [OF last_in_set] by (auto simp: strip_quotes_def)
qed

lemma ParseSeconds_digits:
  assumes "list_all is_digit_char ds" "ds \<noteq> []"
  shows "unat (ParseCacheControlSeconds ds) = min kUint32Max (dec_val ds)"
  using assms seconds_loop_digits [OF assms(1), of 0]
  by (simp add: ParseCacheControlSeconds_def digits_trim digits_no_quotes Let_def unsigned_of_nat
      take_bit_nat_eq_self kUint32Max_def)

section \<open>The accumulated flags\<close>

definition token_flags :: "string \<Rightarrow> u16" where
  "token_flags raw = occ_flags (accumulate_token raw \<lparr>occ_flags = 0, occ_max_age = 0, occ_s_maxage = 0\<rparr>)"

lemma accumulate_token_flags: "occ_flags (accumulate_token raw out) = occ_flags out OR token_flags raw"
  by (simp add: accumulate_token_def token_flags_def Let_def or.assoc split: option.split)

definition or_all :: "u16 list \<Rightarrow> u16" where
  "or_all ws = foldr (OR) ws 0"

lemma or_all_simps [simp]: "or_all [] = 0" "or_all (w # ws) = w OR or_all ws"
  by (simp_all add: or_all_def)

lemma accumulate_flags:
  "occ_flags (fold accumulate_token ts out) = occ_flags out OR or_all (map token_flags ts)"
  by (induction ts arbitrary: out) (simp_all add: accumulate_token_flags or.assoc)

lemma Accumulate_flags:
  "occ_flags (AccumulateOriginCacheControl h out) =
   occ_flags out OR kCCOriginHeaderPresent OR or_all (map token_flags (list_members (CHR '','') h))"
  by (simp add: AccumulateOriginCacheControl_def accumulate_flags or.assoc)

lemma bit_or_all: "bit (or_all ws) n \<longleftrightarrow> (\<exists>w \<in> set ws. bit w n)"
  by (induction ws) (auto simp: bit_or_iff)

lemma AND_OR_nonzero: "((w OR v) AND f \<noteq> 0) \<longleftrightarrow> (w AND f \<noteq> 0) \<or> (v AND f \<noteq> (0 :: u16))"
  by (auto simp: bit_eq_iff bit_and_iff bit_or_iff)

lemma or_all_AND: "(or_all ws AND f \<noteq> 0) \<longleftrightarrow> (\<exists>w \<in> set ws. w AND f \<noteq> 0)"
  by (induction ws) (simp_all add: AND_OR_nonzero)

text \<open>What one token contributes, by its lower-cased name.\<close>

definition named :: "string \<Rightarrow> string \<Rightarrow> bool" where
  "named raw n \<longleftrightarrow> TrimOws raw \<noteq> [] \<and> AsciiToLower (token_name (TrimOws raw)) = n"

lemmas cc_flag_values =
  kCCOriginNoCache_def kCCOriginMustRevalidate_def kCCOriginProxyRevalidate_def
  kCCOriginNoStore_def kCCOriginPrivate_def kCCOriginPublic_def kCCOriginImmutable_def
  kCCOriginNoTransform_def kCCOriginSMaxagePresent_def kCCOriginHeaderPresent_def
  kCCOriginPrivateBare_def kCCOriginPrivateQualified_def kCCOriginNoCacheBare_def
  kCCOriginNoCacheQualified_def

lemma lower_names:
  "AsciiToLower ''no-cache'' = ''no-cache''" "AsciiToLower ''must-revalidate'' = ''must-revalidate''"
  "AsciiToLower ''proxy-revalidate'' = ''proxy-revalidate''" "AsciiToLower ''no-store'' = ''no-store''"
  "AsciiToLower ''private'' = ''private''" "AsciiToLower ''public'' = ''public''"
  "AsciiToLower ''immutable'' = ''immutable''" "AsciiToLower ''no-transform'' = ''no-transform''"
  "AsciiToLower ''max-age'' = ''max-age''" "AsciiToLower ''s-maxage'' = ''s-maxage''"
  by code_simp+

text \<open>The flags of a directive by its lower-cased name and form.\<close>

definition directive_flags :: "string \<Rightarrow> bool \<Rightarrow> u16" where
  "directive_flags n a =
     (if n = ''no-cache'' then kCCOriginNoCache OR (if a then kCCOriginNoCacheQualified else kCCOriginNoCacheBare)
      else if n = ''must-revalidate'' then kCCOriginMustRevalidate
      else if n = ''proxy-revalidate'' then kCCOriginProxyRevalidate
      else if n = ''no-store'' then kCCOriginNoStore
      else if n = ''private'' then kCCOriginPrivate OR (if a then kCCOriginPrivateQualified else kCCOriginPrivateBare)
      else if n = ''public'' then kCCOriginPublic
      else if n = ''immutable'' then kCCOriginImmutable
      else if n = ''no-transform'' then kCCOriginNoTransform
      else if n = ''s-maxage'' then kCCOriginSMaxagePresent else 0)"

lemma directive_name_cases:
  obtains "n = ''no-cache''" | "n = ''must-revalidate''" | "n = ''proxy-revalidate''"
    | "n = ''no-store''" | "n = ''private''" | "n = ''public''" | "n = ''immutable''"
    | "n = ''no-transform''" | "n = ''s-maxage''"
    | "n \<notin> {''no-cache'', ''must-revalidate'', ''proxy-revalidate'', ''no-store'', ''private'', ''public'',
        ''immutable'', ''no-transform'', ''s-maxage''}"
  unfolding insert_iff empty_iff by satx

lemma token_flags_eq:
  "token_flags raw =
    (if TrimOws raw = [] then 0
     else directive_flags (AsciiToLower (token_name (TrimOws raw))) (token_has_argument (TrimOws raw)))"
  by (simp add: token_flags_def accumulate_token_def Let_def kCCDirectives_def directive_flags_def
      AsciiEqualsIgnoreCase_iff lower_names form_flag_def cc_flag_values)

lemma directive_flags_table:
  "list_all (\<lambda>(m, f). (directive_flags n a AND f \<noteq> 0) = (n = m)) kCCDirectives"
  by (rule directive_name_cases [of n]; simp add: directive_flags_def kCCDirectives_def cc_flag_values)

lemma directive_flags_forms:
  "(directive_flags n a AND kCCOriginPrivateBare \<noteq> 0) = (n = ''private'' \<and> \<not> a)"
  "(directive_flags n a AND kCCOriginNoCacheBare \<noteq> 0) = (n = ''no-cache'' \<and> \<not> a)"
  by (rule directive_name_cases [of n]; simp add: directive_flags_def cc_flag_values)+

lemma token_flags_directive:
  assumes "(n, f) \<in> set kCCDirectives"
  shows "token_flags raw AND f \<noteq> 0 \<longleftrightarrow> named raw n"
  using bspec [OF directive_flags_table [unfolded list_all_iff] assms]
  by (simp add: token_flags_eq named_def)

lemma token_flags_forms:
  "token_flags raw AND kCCOriginPrivateBare \<noteq> 0 \<longleftrightarrow> named raw ''private'' \<and> \<not> token_has_argument (TrimOws raw)"
  "token_flags raw AND kCCOriginNoCacheBare \<noteq> 0 \<longleftrightarrow> named raw ''no-cache'' \<and> \<not> token_has_argument (TrimOws raw)"
  by (simp_all add: token_flags_eq named_def directive_flags_forms)

lemma token_argument_iff: "token_has_argument (TrimOws t) \<longleftrightarrow> CHR ''='' \<in> set t"
  by (simp add: token_has_argument_def TrimOws_def in_trim_iff is_ows_def)

lemma Accumulate_AND:
  assumes "kCCOriginHeaderPresent AND f = 0"
  shows "occ_flags (AccumulateOriginCacheControl h out) AND f \<noteq> 0 \<longleftrightarrow>
    occ_flags out AND f \<noteq> 0 \<or> (\<exists>t \<in> set (list_members (CHR '','') h). token_flags t AND f \<noteq> 0)"
  using assms by (simp add: Accumulate_flags AND_OR_nonzero or_all_AND)

section \<open>Flags of header lines\<close>

definition no_cc :: OriginCacheControl where
  "no_cc = \<lparr>occ_flags = 0, occ_max_age = 0, occ_s_maxage = 0\<rparr>"

definition lines_flags :: "string list \<Rightarrow> u16" where
  "lines_flags lines = occ_flags (fold AccumulateOriginCacheControl lines no_cc)"

definition member_named :: "string list \<Rightarrow> string \<Rightarrow> bool" where
  "member_named lines n \<longleftrightarrow> (\<exists>h \<in> set lines. \<exists>t \<in> set (list_members (CHR '','') h). named t n)"

lemma member_named_concat:
  "member_named lines n \<longleftrightarrow> (\<exists>t \<in> set (concat (map (list_members (CHR '','')) lines)). named t n)"
  by (simp add: member_named_def)

text \<open>A list member \<open>private\<close> without an argument.\<close>

definition bare_private :: "string list \<Rightarrow> bool" where
  "bare_private lines \<longleftrightarrow>
     (\<exists>h \<in> set lines. \<exists>t \<in> set (list_members (CHR '','') h). named t ''private'' \<and> \<not> token_has_argument (TrimOws t))"

lemma fold_Accumulate_AND:
  assumes "kCCOriginHeaderPresent AND f = 0"
  shows "occ_flags (fold AccumulateOriginCacheControl lines out) AND f \<noteq> 0 \<longleftrightarrow>
    occ_flags out AND f \<noteq> 0 \<or> (\<exists>h \<in> set lines. \<exists>t \<in> set (list_members (CHR '','') h). token_flags t AND f \<noteq> 0)"
proof (induction lines arbitrary: out)
  case (Cons h lines)
  then show ?case using Accumulate_AND [OF assms, of h out] by simp blast
qed simp

lemma lines_flags_AND:
  assumes "kCCOriginHeaderPresent AND f = 0"
  shows "lines_flags lines AND f \<noteq> 0 \<longleftrightarrow>
    (\<exists>h \<in> set lines. \<exists>t \<in> set (list_members (CHR '','') h). token_flags t AND f \<noteq> 0)"
  unfolding lines_flags_def fold_Accumulate_AND [OF assms] by (simp add: no_cc_def)

lemma lines_flags_directive:
  assumes "(n, f) \<in> set kCCDirectives"
  shows "lines_flags lines AND f \<noteq> 0 \<longleftrightarrow> member_named lines n"
proof -
  have "kCCOriginHeaderPresent AND f = 0" using assms by (auto simp: kCCDirectives_def cc_flag_values)
  then show ?thesis by (simp add: lines_flags_AND token_flags_directive [OF assms] member_named_def)
qed

lemma directive_flags_more:
  "(directive_flags n a AND kCCOriginPrivateQualified \<noteq> 0) = (n = ''private'' \<and> a)"
  "(directive_flags n a AND kCCOriginSMaxagePresent \<noteq> 0) = (n = ''s-maxage'')"
  by (rule directive_name_cases [of n]; simp add: directive_flags_def cc_flag_values)+

lemma lines_flags_forms:
  "lines_flags lines AND kCCOriginPrivateBare \<noteq> 0 \<longleftrightarrow> bare_private lines"
  "lines_flags lines AND kCCOriginSMaxagePresent \<noteq> 0 \<longleftrightarrow> member_named lines ''s-maxage''"
  "lines_flags lines AND kCCOriginPrivateQualified \<noteq> 0 \<longleftrightarrow>
    (\<exists>h \<in> set lines. \<exists>t \<in> set (list_members (CHR '','') h). named t ''private'' \<and> token_has_argument (TrimOws t))"
proof -
  have "kCCOriginHeaderPresent AND f = 0" if "f \<in> {kCCOriginPrivateBare, kCCOriginSMaxagePresent, kCCOriginPrivateQualified}" for f
    using that by (auto simp: cc_flag_values)
  then show "lines_flags lines AND kCCOriginPrivateBare \<noteq> 0 \<longleftrightarrow> bare_private lines"
    "lines_flags lines AND kCCOriginSMaxagePresent \<noteq> 0 \<longleftrightarrow> member_named lines ''s-maxage''"
    "lines_flags lines AND kCCOriginPrivateQualified \<noteq> 0 \<longleftrightarrow>
      (\<exists>h \<in> set lines. \<exists>t \<in> set (list_members (CHR '','') h). named t ''private'' \<and> token_has_argument (TrimOws t))"
    by (auto simp: lines_flags_AND token_flags_eq named_def directive_flags_forms directive_flags_more
        bare_private_def member_named_def cong: conj_cong)
qed

lemma flag_names:
  "(''no-store'', kCCOriginNoStore) \<in> set kCCDirectives" "(''private'', kCCOriginPrivate) \<in> set kCCDirectives"
  "(''public'', kCCOriginPublic) \<in> set kCCDirectives" "(''must-revalidate'', kCCOriginMustRevalidate) \<in> set kCCDirectives"
  "(''no-cache'', kCCOriginNoCache) \<in> set kCCDirectives" "(''proxy-revalidate'', kCCOriginProxyRevalidate) \<in> set kCCDirectives"
  "(''immutable'', kCCOriginImmutable) \<in> set kCCDirectives"
  by (simp_all add: kCCDirectives_def)

lemmas lines_flags_iff = flag_names [THEN lines_flags_directive] lines_flags_forms

lemma AND_OR_right: "(w AND (a OR b) \<noteq> 0) \<longleftrightarrow> w AND a \<noteq> 0 \<or> w AND b \<noteq> (0 :: u16)"
  by (auto simp: bit_eq_iff bit_and_iff bit_or_iff)

lemma lines_flags_header: "lines_flags lines AND kCCOriginHeaderPresent = 0 \<longleftrightarrow> lines = []"
proof -
  have keep: "occ_flags (fold AccumulateOriginCacheControl ls out) AND kCCOriginHeaderPresent \<noteq> 0"
    if "occ_flags out AND kCCOriginHeaderPresent \<noteq> 0" for ls out
    using that by (induction ls arbitrary: out) (simp_all add: Accumulate_flags AND_OR_nonzero)
  have "occ_flags (AccumulateOriginCacheControl h no_cc) AND kCCOriginHeaderPresent \<noteq> 0" for h
    by (simp add: Accumulate_flags AND_OR_nonzero) (simp add: kCCOriginHeaderPresent_def)
  from keep [OF this] show ?thesis
    by (cases lines) (simp_all add: lines_flags_def no_cc_def)
qed

text \<open>The lifetimes: the value of the last list member with the directive's name, and zero without one.\<close>

definition last_seconds :: "string list \<Rightarrow> string \<Rightarrow> u32 \<Rightarrow> u32" where
  "last_seconds ts n d =
     (case filter (\<lambda>t. named t n) ts of [] \<Rightarrow> d
      | us \<Rightarrow> ParseCacheControlSeconds (token_value (TrimOws (last us))))"

definition member_seconds :: "string list \<Rightarrow> string \<Rightarrow> u32" where
  "member_seconds lines n = last_seconds (concat (map (list_members (CHR '','')) lines)) n 0"

lemma last_seconds_simps [simp]:
  "last_seconds [] n d = d"
  "last_seconds (t # ts) n d =
     last_seconds ts n (if named t n then ParseCacheControlSeconds (token_value (TrimOws t)) else d)"
  by (auto simp: last_seconds_def split: list.split)

lemma last_seconds_append: "last_seconds (ts @ us) n d = last_seconds us n (last_seconds ts n d)"
  by (induction ts arbitrary: d) simp_all

lemma accumulate_token_seconds:
  "occ_max_age (accumulate_token t out) =
     (if named t ''max-age'' then ParseCacheControlSeconds (token_value (TrimOws t)) else occ_max_age out)"
  "occ_s_maxage (accumulate_token t out) =
     (if named t ''s-maxage'' then ParseCacheControlSeconds (token_value (TrimOws t)) else occ_s_maxage out)"
  by (simp_all add: accumulate_token_def Let_def kCCDirectives_def named_def AsciiEqualsIgnoreCase_iff lower_names)

lemma fold_token_seconds:
  "occ_max_age (fold accumulate_token ts out) = last_seconds ts ''max-age'' (occ_max_age out)"
  "occ_s_maxage (fold accumulate_token ts out) = last_seconds ts ''s-maxage'' (occ_s_maxage out)"
  by (induction ts arbitrary: out) (simp_all add: accumulate_token_seconds)

lemma fold_Accumulate_seconds:
  "occ_max_age (fold AccumulateOriginCacheControl lines out) =
     last_seconds (concat (map (list_members (CHR '','')) lines)) ''max-age'' (occ_max_age out)"
  "occ_s_maxage (fold AccumulateOriginCacheControl lines out) =
     last_seconds (concat (map (list_members (CHR '','')) lines)) ''s-maxage'' (occ_s_maxage out)"
  by (induction lines arbitrary: out)
    (simp_all add: AccumulateOriginCacheControl_def fold_token_seconds last_seconds_append)

lemma lines_seconds:
  "occ_max_age (fold AccumulateOriginCacheControl lines no_cc) = member_seconds lines ''max-age''"
  "occ_s_maxage (fold AccumulateOriginCacheControl lines no_cc) = member_seconds lines ''s-maxage''"
  by (simp_all add: fold_Accumulate_seconds member_seconds_def no_cc_def)

section \<open>Properties\<close>

text \<open>
  a Cache-Control directive is recorded exactly when one of the header's list members names it (in
  any case, with or without an argument, surrounded by optional whitespace) or when an earlier header line
  recorded it: accumulating never drops a restriction and never invents one.
\<close>

theorem Accumulate_directive_iff:
  assumes "(n, f) \<in> set kCCDirectives"
  shows "occ_flags (AccumulateOriginCacheControl h out) AND f \<noteq> 0 \<longleftrightarrow>
    occ_flags out AND f \<noteq> 0 \<or>
    (\<exists>t \<in> set (list_members (CHR '','') h).
       TrimOws t \<noteq> [] \<and> AsciiToLower (token_name (TrimOws t)) = n)"
proof -
  have "kCCOriginHeaderPresent AND f = 0"
    using assms by (auto simp: kCCDirectives_def cc_flag_values)
  then show ?thesis
    by (simp add: Accumulate_AND token_flags_directive [OF assms] named_def)
qed

theorem Accumulate_directive_iff_witness:
  "occ_flags (AccumulateOriginCacheControl ''max-age=5, Private '' \<lparr>occ_flags = 0, occ_max_age = 0, occ_s_maxage = 0\<rparr>)
     AND kCCOriginPrivate \<noteq> 0"
proof -
  have "list_members (CHR '','') ''max-age=5, Private '' = [''max-age=5'', '' Private '']" by code_simp
  moreover have "TrimOws '' Private '' = ''Private''" "AsciiToLower (token_name ''Private'') = ''private''"
    by code_simp+
  moreover have "(''private'', kCCOriginPrivate) \<in> set kCCDirectives" by (simp add: kCCDirectives_def)
  ultimately show ?thesis by (simp add: Accumulate_directive_iff)
qed

text \<open>
  the blanket form of private (the form that forbids shared storage) is recorded exactly for a list
  member with that name and no equals sign, or when an earlier line recorded it.
\<close>

theorem Accumulate_private_bare_iff:
  "occ_flags (AccumulateOriginCacheControl h out) AND kCCOriginPrivateBare = 0 \<longleftrightarrow>
    occ_flags out AND kCCOriginPrivateBare = 0 \<and>
    \<not> (\<exists>t \<in> set (list_members (CHR '','') h).
       TrimOws t \<noteq> [] \<and> AsciiToLower (token_name (TrimOws t)) = ''private'' \<and> CHR ''='' \<notin> set t)"
proof -
  have "kCCOriginHeaderPresent AND kCCOriginPrivateBare = 0" by (simp add: cc_flag_values)
  from Accumulate_AND [OF this, of h out] show ?thesis
    unfolding token_flags_forms named_def token_argument_iff by blast
qed

text \<open>
  C26: the comma split is not aware of quoted strings.  The qualified directive no-cache="f" restricts one named
  field, whatever its name (private included), and leaves the blanket private bit as it was; but as soon as the
  quoted list has a member private between two commas, whatever stands before and after it, the parse of the
  same qualified directive reports the blanket private, which a shared cache takes as a ban on storage.
\<close>

theorem Accumulate_bare_from_quoted_list:
  assumes "CHR '','' \<notin> set f"
  shows "occ_flags (AccumulateOriginCacheControl (''no-cache='' @ [CHR 0x22] @ f @ [CHR 0x22]) out) AND kCCOriginPrivateBare =
      occ_flags out AND kCCOriginPrivateBare \<and>
    occ_flags (AccumulateOriginCacheControl (''no-cache='' @ [CHR 0x22] @ fs @ '', private, '' @ gs) out)
      AND kCCOriginPrivateBare \<noteq> 0"
proof
  have no: "kCCOriginHeaderPresent AND kCCOriginPrivateBare = 0" by (simp add: cc_flag_values)
  let ?t = "''no-cache='' @ [CHR 0x22] @ f @ [CHR 0x22]"
  have "list_members (CHR '','') ?t = [?t]" using assms by (intro list_members_last) auto
  moreover have "token_flags ?t AND kCCOriginPrivateBare = 0"
    using token_flags_forms(1) [of ?t] token_argument_iff [of ?t] by auto
  ultimately show "occ_flags (AccumulateOriginCacheControl ?t out) AND kCCOriginPrivateBare =
      occ_flags out AND kCCOriginPrivateBare"
    using no by (simp add: Accumulate_flags bit.conj_disj_distrib2)
  have "'' private'' \<in> set (list_members (CHR '','') ((''no-cache='' @ [CHR 0x22] @ fs) @ CHR '','' # '' private'' @ CHR '','' # ('' '' @ gs)))"
    by (rule list_members_middle) simp
  moreover have "token_flags '' private'' AND kCCOriginPrivateBare \<noteq> 0" by code_simp
  ultimately show "occ_flags (AccumulateOriginCacheControl (''no-cache='' @ [CHR 0x22] @ fs @ '', private, '' @ gs) out)
      AND kCCOriginPrivateBare \<noteq> 0"
    unfolding Accumulate_AND [OF no] by auto
qed

theorem Accumulate_bare_from_quoted_list_witness:
  "occ_flags (AccumulateOriginCacheControl (''no-cache='' @ [CHR 0x22] @ ''private'' @ [CHR 0x22]) no_cc) AND kCCOriginPrivateBare = 0 \<and>
   occ_flags (AccumulateOriginCacheControl (''no-cache='' @ [CHR 0x22] @ ''a'' @ '', private, '' @ ''b'' @ [CHR 0x22]) no_cc)
     AND kCCOriginPrivateBare \<noteq> 0"
  using Accumulate_bare_from_quoted_list [of "''private''" no_cc "''a''" "''b'' @ [CHR 0x22]"]
  by (simp add: no_cc_def)

text \<open>
  a delta-seconds value is read as its decimal value, saturated at the largest 32-bit value, with or
  without surrounding optional whitespace and with or without quotes.
\<close>

theorem ParseCacheControlSeconds_value:
  assumes "list_all is_digit_char ds" "ds \<noteq> []" "list_all is_ows l" "list_all is_ows r"
  shows "unat (ParseCacheControlSeconds (l @ ds @ r)) = min 4294967295 (dec_val ds) \<and>
    unat (ParseCacheControlSeconds (l @ ([CHR 0x22] @ ds @ [CHR 0x22]) @ r)) = min 4294967295 (dec_val ds)"
proof
  have plain: "TrimOws (l @ ds @ r) = ds" unfolding TrimOws_def
    by (rule trim_padded) (use assms digits_not_ows in \<open>auto simp: list_all_iff\<close>)
  show "unat (ParseCacheControlSeconds (l @ ds @ r)) = min 4294967295 (dec_val ds)"
    using ParseSeconds_digits [OF assms(1,2)] assms(1)
    by (simp add: ParseCacheControlSeconds_def plain digits_trim digits_no_quotes kUint32Max_def)
  have "\<not> is_ows (CHR 0x22)" by code_simp
  then have quoted: "TrimOws (l @ ([CHR 0x22] @ ds @ [CHR 0x22]) @ r) = [CHR 0x22] @ ds @ [CHR 0x22]"
    unfolding TrimOws_def by (intro trim_padded assms(3,4)) simp
  have "strip_quotes ([CHR 0x22] @ ds @ [CHR 0x22]) = ds"
    by (simp add: strip_quotes_def)
  then show "unat (ParseCacheControlSeconds (l @ ([CHR 0x22] @ ds @ [CHR 0x22]) @ r)) = min 4294967295 (dec_val ds)"
    using ParseSeconds_digits [OF assms(1,2)] assms(1)
    unfolding ParseCacheControlSeconds_def quoted
    by (simp add: digits_trim digits_no_quotes kUint32Max_def)
qed

theorem ParseCacheControlSeconds_value_witness:
  "unat (ParseCacheControlSeconds '' 600'') = 600"
  using ParseCacheControlSeconds_value [of "''600''" "'' ''" "[]"]
  by (simp add: is_digit_char_def is_ows_def less_eq_char_def digit_value_def)

text \<open>
  digits beyond the 32-bit range end the scan, so text after them is not seen and the result is the largest
  lifetime, not zero.
\<close>

theorem ParseCacheControlSeconds_overlong: "ParseCacheControlSeconds ''99999999999x'' = 0xFFFFFFFF"
  by (simp add: ParseCacheControlSeconds_def TrimOws_def trim_id is_ows_def strip_quotes_def kUint32Max_def
      less_char_def digit_value_def)

end
