(* ===== verification/Freshness.thy ===== *)
theory Freshness
  imports Origin_Cache_Control
begin

text \<open>
  Freshness of a cached entry: \<open>lib/cache/freshness.cc\<close> and \<open>lib/cache/freshness.h\<close>.  Times are
  32-bit seconds; the raw age is the signed 64-bit difference, which is an \<^typ>\<open>int\<close> here because the
  difference of two 32-bit values fits in 64 bits.  The verdict is stated over the Cache-Control lines of the origin.
\<close>

datatype FreshnessVerdict = kFresh | kStaleServe | kServeNoCache | kRevalidate

record FreshnessConfig =
  fc_max_age_cap :: u32
  fc_immutable_max_age_cap :: u32
  fc_html_max_age :: u32
  fc_css_max_age :: u32
  fc_image_max_age :: u32

definition default_FreshnessConfig :: FreshnessConfig where
  "default_FreshnessConfig =
     \<lparr>fc_max_age_cap = 86400, fc_immutable_max_age_cap = 604800, fc_html_max_age = 0,
      fc_css_max_age = 300, fc_image_max_age = 3600\<rparr>"

record FreshnessInput =
  fi_now_seconds :: u32
  fi_cache_inserted_at :: u32
  fi_origin_max_age :: u32
  fi_origin_s_maxage :: u32
  fi_origin_cc_flags :: u16
  fi_content_type :: ContentType
  fi_is_shared_cache :: bool
  fi_force_revalidate :: bool

record FreshnessResult =
  fr_verdict :: FreshnessVerdict
  fr_age_seconds :: u32
  fr_effective_max_age :: u32
  fr_remaining_ttl :: u32
  fr_is_stale :: bool
  fr_expired_by_age :: bool

definition ClampAge :: "int \<Rightarrow> u32 \<Rightarrow> u32 \<Rightarrow> u32" where
  "ClampAge age_raw cache_inserted_at now_seconds =
     (let kMaxAge = (0xFFFFFFFF :: u32)
      in if cache_inserted_at > now_seconds + 60 then kMaxAge
         else if age_raw < 0 then 0
         else if age_raw > uint kMaxAge then kMaxAge
         else word_of_int age_raw)"

definition FreshnessInputFromMetadata :: "AlternateMetadata \<Rightarrow> u32 \<Rightarrow> bool \<Rightarrow> bool \<Rightarrow> FreshnessInput" where
  "FreshnessInputFromMetadata metadata now_seconds is_shared_cache force_revalidate =
     \<lparr>fi_now_seconds = now_seconds,
      fi_cache_inserted_at = am_cache_inserted_at metadata,
      fi_origin_max_age = am_origin_max_age metadata,
      fi_origin_s_maxage = am_origin_s_maxage metadata,
      fi_origin_cc_flags = am_origin_cc_flags metadata,
      fi_content_type = am_content_type metadata,
      fi_is_shared_cache = is_shared_cache,
      fi_force_revalidate = force_revalidate\<rparr>"

text \<open>The lifetime before the cap: the origin's, or the content type's default without Cache-Control.\<close>

definition shared_max_age :: "FreshnessInput \<Rightarrow> FreshnessConfig \<Rightarrow> u32" where
  "shared_max_age input config =
     (let cc = fi_origin_cc_flags input;
          shared = (if cc AND kCCOriginSMaxagePresent \<noteq> 0 \<and> fi_is_shared_cache input
                    then fi_origin_s_maxage input else fi_origin_max_age input)
      in if shared = 0 \<and> cc AND kCCOriginHeaderPresent = 0 then
           (if fi_content_type input = kHtml then fc_html_max_age config
            else if fi_content_type input = kCss \<or> fi_content_type input = kJs then fc_css_max_age config
            else if fi_content_type input = kImage then fc_image_max_age config
            else shared)
         else shared)"

definition effective_max_age :: "FreshnessInput \<Rightarrow> FreshnessConfig \<Rightarrow> u32" where
  "effective_max_age input config =
     (if fi_origin_cc_flags input AND kCCOriginImmutable \<noteq> 0
      then min (shared_max_age input config) (fc_immutable_max_age_cap config)
      else min (shared_max_age input config) (fc_max_age_cap config))"

definition entry_age :: "FreshnessInput \<Rightarrow> u32" where
  "entry_age input =
     ClampAge (uint (fi_now_seconds input) - uint (fi_cache_inserted_at input))
       (fi_cache_inserted_at input) (fi_now_seconds input)"

definition EvaluateFreshness :: "FreshnessInput \<Rightarrow> FreshnessConfig \<Rightarrow> FreshnessResult" where
  "EvaluateFreshness input config =
     (let cc = fi_origin_cc_flags input;
          age = entry_age input;
          serve_no_cache = \<lparr>fr_verdict = kServeNoCache, fr_age_seconds = age, fr_effective_max_age = 0,
                            fr_remaining_ttl = 0, fr_is_stale = True, fr_expired_by_age = False\<rparr>
      in if cc AND (kCCOriginNoStore OR kCCOriginPrivate) \<noteq> 0 \<and>
            (fi_is_shared_cache input \<or> cc AND kCCOriginNoStore \<noteq> 0)
         then serve_no_cache
         else if shared_max_age input config = 0 \<and> fi_content_type input = kHtml \<and>
                 cc AND kCCOriginHeaderPresent = 0
         then serve_no_cache
         else
           (let effective = effective_max_age input config;
                is_no_cache = cc AND kCCOriginNoCache \<noteq> 0;
                is_stale = is_no_cache \<or> age > effective
            in if fi_force_revalidate input then
                 \<lparr>fr_verdict = kRevalidate, fr_age_seconds = age, fr_effective_max_age = effective,
                  fr_remaining_ttl = 0, fr_is_stale = True, fr_expired_by_age = False\<rparr>
               else if is_stale then
                 \<lparr>fr_verdict = kRevalidate, fr_age_seconds = age, fr_effective_max_age = effective,
                  fr_remaining_ttl = 0, fr_is_stale = True,
                  fr_expired_by_age = (\<not> is_no_cache \<and> age > effective)\<rparr>
               else
                 \<lparr>fr_verdict = kFresh, fr_age_seconds = age, fr_effective_max_age = effective,
                  fr_remaining_ttl = effective - age, fr_is_stale = False, fr_expired_by_age = False\<rparr>))"

section \<open>Lemmas\<close>

lemma ClampAge_exact:
  assumes "unat now < 2 ^ 32 - 60"
  shows "unat (ClampAge (uint now - uint ins) ins now) =
    (if unat ins > unat now + 60 then 2 ^ 32 - 1 else unat now - unat ins)"
proof -
  have plus: "unat (now + 60 :: u32) = unat now + 60"
    using assms by (simp add: unat_word_ariths)
  have less: "ins > now + 60 \<longleftrightarrow> unat ins > unat now + 60"
    by (simp add: word_less_nat_alt plus)
  have u: "uint now = int (unat now)" "uint ins = int (unat ins)" by simp_all
  have small: "unat now < 2 ^ 32" using unsigned_less [of now, where 'a = nat] by simp
  have conv: "unat (word_of_int (int (unat now) - int (unat ins)) :: u32) = unat now - unat ins"
    if "unat ins \<le> unat now"
    using that by (simp add: unat_sub word_le_nat_alt)
  have max: "uint (0xFFFFFFFF :: u32) = 2 ^ 32 - 1" "unat (0xFFFFFFFF :: u32) = 2 ^ 32 - 1" by simp_all
  show ?thesis
  proof (cases "unat ins > unat now + 60")
    case True
    then show ?thesis by (simp add: ClampAge_def less)
  next
    case False
    have "uint now < 2 ^ 32" using unsigned_less [of now, where 'a = int] by simp
    moreover have "0 \<le> uint ins" by simp
    ultimately have "\<not> int (unat now) - int (unat ins) > 2 ^ 32 - 1"
      unfolding u [symmetric] by linarith
    moreover have "uint now < uint ins \<longleftrightarrow> unat now < unat ins" "uint ins \<le> uint now \<longleftrightarrow> unat ins \<le> unat now"
      by (simp_all only: u of_nat_less_iff of_nat_le_iff)
    ultimately show ?thesis
      using False conv unfolding ClampAge_def Let_def less u max by (auto simp: not_less)
  qed
qed

lemma restricted_iff:
  "cc AND (kCCOriginNoStore OR kCCOriginPrivate) \<noteq> 0 \<longleftrightarrow>
   cc AND kCCOriginNoStore \<noteq> 0 \<or> cc AND kCCOriginPrivate \<noteq> 0"
  using AND_OR_nonzero [of kCCOriginNoStore kCCOriginPrivate cc] by (simp only: and.commute)

lemma EvaluateFreshness_verdict:
  "let cc = fi_origin_cc_flags input; r = EvaluateFreshness input config
   in (fr_verdict r = kFresh \<longleftrightarrow>
        cc AND kCCOriginNoStore = 0 \<and> \<not> (cc AND kCCOriginPrivate \<noteq> 0 \<and> fi_is_shared_cache input) \<and>
        cc AND kCCOriginNoCache = 0 \<and> \<not> fi_force_revalidate input \<and>
        \<not> (shared_max_age input config = 0 \<and> fi_content_type input = kHtml \<and> cc AND kCCOriginHeaderPresent = 0) \<and>
        unat (entry_age input) \<le> unat (effective_max_age input config)) \<and>
      fr_age_seconds r = entry_age input \<and>
      (if fr_verdict r = kFresh
       then fr_effective_max_age r = effective_max_age input config \<and>
            unat (fr_remaining_ttl r) = unat (effective_max_age input config) - unat (entry_age input)
       else fr_remaining_ttl r = 0 \<and> fr_is_stale r)"
proof -
  have "unat (effective_max_age input config - entry_age input) =
      unat (effective_max_age input config) - unat (entry_age input)"
    if "\<not> entry_age input > effective_max_age input config"
    using that by (simp add: unat_sub not_less)
  moreover have "entry_age input > effective_max_age input config \<longleftrightarrow>
      \<not> unat (entry_age input) \<le> unat (effective_max_age input config)"
    by (simp add: word_less_nat_alt not_le)
  ultimately show ?thesis
    unfolding EvaluateFreshness_def Let_def restricted_iff by (simp; blast)
qed

section \<open>Entries described by their Cache-Control lines\<close>

text \<open>The input for an entry whose flags and lifetimes were accumulated from the given header lines.\<close>

definition lines_input ::
  "u32 \<Rightarrow> u32 \<Rightarrow> string list \<Rightarrow> ContentType \<Rightarrow> bool \<Rightarrow> bool \<Rightarrow> FreshnessInput" where
  "lines_input now ins lines ct shared force =
     (let cc = fold AccumulateOriginCacheControl lines no_cc
      in \<lparr>fi_now_seconds = now, fi_cache_inserted_at = ins, fi_origin_max_age = occ_max_age cc,
          fi_origin_s_maxage = occ_s_maxage cc, fi_origin_cc_flags = occ_flags cc, fi_content_type = ct,
          fi_is_shared_cache = shared, fi_force_revalidate = force\<rparr>)"

lemma lines_input_sel [simp]:
  "fi_now_seconds (lines_input now ins lines ct shared force) = now"
  "fi_cache_inserted_at (lines_input now ins lines ct shared force) = ins"
  "fi_origin_max_age (lines_input now ins lines ct shared force) = member_seconds lines ''max-age''"
  "fi_origin_s_maxage (lines_input now ins lines ct shared force) = member_seconds lines ''s-maxage''"
  "fi_origin_cc_flags (lines_input now ins lines ct shared force) = lines_flags lines"
  "fi_content_type (lines_input now ins lines ct shared force) = ct"
  "fi_is_shared_cache (lines_input now ins lines ct shared force) = shared"
  "fi_force_revalidate (lines_input now ins lines ct shared force) = force"
  by (simp_all add: lines_input_def Let_def lines_seconds lines_flags_def)

lemma no_lines [simp]: "\<not> member_named [] n" "member_seconds [] n = 0"
  by (simp_all add: member_named_def member_seconds_def)

lemma lines_flag_zero:
  "lines_flags lines AND kCCOriginNoStore = 0 \<longleftrightarrow> \<not> member_named lines ''no-store''"
  "lines_flags lines AND kCCOriginPrivate = 0 \<longleftrightarrow> \<not> member_named lines ''private''"
  "lines_flags lines AND kCCOriginNoCache = 0 \<longleftrightarrow> \<not> member_named lines ''no-cache''"
  "lines_flags lines AND kCCOriginImmutable = 0 \<longleftrightarrow> \<not> member_named lines ''immutable''"
  "lines_flags lines AND kCCOriginSMaxagePresent = 0 \<longleftrightarrow> \<not> member_named lines ''s-maxage''"
  using lines_flags_iff [of lines] by satx+

text \<open>The lifetime before the cap.\<close>

definition lines_lifetime :: "string list \<Rightarrow> ContentType \<Rightarrow> bool \<Rightarrow> FreshnessConfig \<Rightarrow> u32" where
  "lines_lifetime lines ct shared config =
     (if lines = [] then (case ct of kHtml \<Rightarrow> fc_html_max_age config | kCss \<Rightarrow> fc_css_max_age config
                          | kJs \<Rightarrow> fc_css_max_age config | kImage \<Rightarrow> fc_image_max_age config | kOther \<Rightarrow> 0)
      else if shared \<and> member_named lines ''s-maxage'' then member_seconds lines ''s-maxage''
      else member_seconds lines ''max-age'')"

lemma lines_shared_max_age:
  "shared_max_age (lines_input now ins lines ct shared force) config = lines_lifetime lines ct shared config"
  by (cases ct) (simp_all add: shared_max_age_def Let_def lines_flag_zero lines_flags_header lines_lifetime_def)

lemma lines_effective:
  "unat (effective_max_age (lines_input now ins lines ct shared force) config) =
   min (unat (lines_lifetime lines ct shared config))
     (unat (if member_named lines ''immutable'' then fc_immutable_max_age_cap config else fc_max_age_cap config))"
  by (simp add: effective_max_age_def lines_flag_zero lines_shared_max_age min_def word_le_nat_alt)

section \<open>Properties\<close>

text \<open>
  C25: the verdict over the Cache-Control lines the origin sent.  An entry is served as fresh exactly when no list
  member says no-store or no-cache, none says private where the cache is shared, the client did not force
  revalidation, and its age is at most its lifetime, HTML without any lifetime excepted.  The age is the number
  of seconds since the insertion (none for an insertion up to a minute ahead of the clock, the largest value
  beyond that).  The lifetime is that of s-maxage where the cache is shared and a member s-maxage exists, and that
  of max-age otherwise; without any Cache-Control line it is the configured default of the content type; it is
  capped by the immutable cap where a member says immutable and by the normal cap otherwise.  Age, lifetime and
  remaining time are reported exactly, without wrap-around.
\<close>

theorem EvaluateFreshness_fresh_iff:
  fixes now ins :: u32 and config :: FreshnessConfig and lines :: "string list" and ct :: ContentType
    and shared force :: bool
  assumes "unat now < 2 ^ 32 - 60"
  defines "r \<equiv> EvaluateFreshness (lines_input now ins lines ct shared force) config"
    and "age \<equiv> if unat ins > unat now + 60 then 2 ^ 32 - 1 else unat now - unat ins"
    and "lifetime \<equiv> min
      (unat (if lines = [] then (case ct of kHtml \<Rightarrow> fc_html_max_age config | kCss \<Rightarrow> fc_css_max_age config
                             | kJs \<Rightarrow> fc_css_max_age config | kImage \<Rightarrow> fc_image_max_age config | kOther \<Rightarrow> 0)
             else if shared \<and> member_named lines ''s-maxage'' then member_seconds lines ''s-maxage''
             else member_seconds lines ''max-age''))
      (unat (if member_named lines ''immutable'' then fc_immutable_max_age_cap config else fc_max_age_cap config))"
  shows "(fr_verdict r = kFresh \<longleftrightarrow>
      \<not> member_named lines ''no-store'' \<and> \<not> (shared \<and> member_named lines ''private'') \<and>
      \<not> member_named lines ''no-cache'' \<and> \<not> force \<and> age \<le> lifetime \<and>
      \<not> (lines = [] \<and> ct = kHtml \<and> fc_html_max_age config = 0)) \<and>
    unat (fr_age_seconds r) = age \<and>
    (if fr_verdict r = kFresh then unat (fr_effective_max_age r) = lifetime \<and> unat (fr_remaining_ttl r) = lifetime - age
     else fr_remaining_ttl r = 0 \<and> fr_is_stale r)"
proof -
  let ?i = "lines_input now ins lines ct shared force"
  have age: "unat (entry_age ?i) = age"
    unfolding age_def entry_age_def lines_input_sel by (rule ClampAge_exact [OF assms(1)])
  have life: "unat (effective_max_age ?i config) = lifetime"
    unfolding lifetime_def lines_effective lines_lifetime_def by (rule refl)
  have html: "lines_lifetime lines ct shared config = 0 \<and> ct = kHtml \<and> lines = [] \<longleftrightarrow>
      lines = [] \<and> ct = kHtml \<and> fc_html_max_age config = 0"
    by (auto simp: lines_lifetime_def)
  note v = EvaluateFreshness_verdict [of ?i config, folded r_def, unfolded Let_def lines_input_sel
      lines_flag_zero lines_flags_header lines_shared_max_age age life html not_not]
  have "fr_verdict r = kFresh \<Longrightarrow> unat (fr_effective_max_age r) = lifetime"
    using v life by metis
  moreover have "unat (fr_age_seconds r) = age" using v age by metis
  ultimately show ?thesis using v unfolding if_bool_eq_conj by satx
qed

theorem EvaluateFreshness_fresh_iff_witness:
  "fr_verdict (EvaluateFreshness (lines_input 1000 400 [''public'', ''max-age=900, s-maxage=600''] kCss True False)
     default_FreshnessConfig) = kFresh"
proof -
  have m: "concat (map (list_members (CHR '','')) [''public'', ''max-age=900, s-maxage=600'']) =
      [''public'', ''max-age=900'', '' s-maxage=600'']" by code_simp
  have names: "named ''public'' n = (n = ''public'')" "named ''max-age=900'' n = (n = ''max-age'')"
    "named '' s-maxage=600'' n = (n = ''s-maxage'')" for n
  proof -
    have "TrimOws ''public'' \<noteq> []" "AsciiToLower (token_name (TrimOws ''public'')) = ''public''"
      "TrimOws ''max-age=900'' \<noteq> []" "AsciiToLower (token_name (TrimOws ''max-age=900'')) = ''max-age''"
      "TrimOws '' s-maxage=600'' \<noteq> []" "AsciiToLower (token_name (TrimOws '' s-maxage=600'')) = ''s-maxage''"
      by code_simp+
    then show "named ''public'' n = (n = ''public'')" "named ''max-age=900'' n = (n = ''max-age'')"
      "named '' s-maxage=600'' n = (n = ''s-maxage'')" by (auto simp: named_def)
  qed
  have named: "member_named [''public'', ''max-age=900, s-maxage=600''] n \<longleftrightarrow> n \<in> {''public'', ''max-age'', ''s-maxage''}" for n
    using m names by (auto simp: member_named_concat)
  have "token_value (TrimOws '' s-maxage=600'') = ''600''" by code_simp
  moreover have "unat (ParseCacheControlSeconds ''600'') = 600"
    using ParseSeconds_digits [of "''600''"]
    by (simp add: is_digit_char_def less_eq_char_def digit_value_def kUint32Max_def)
  ultimately have s: "unat (member_seconds [''public'', ''max-age=900, s-maxage=600''] ''s-maxage'') = 600"
    unfolding member_seconds_def m by (simp add: names)
  show ?thesis
    using EvaluateFreshness_fresh_iff [of 1000 400 "[''public'', ''max-age=900, s-maxage=600'']" kCss True False
        default_FreshnessConfig]
    by (simp add: named s default_FreshnessConfig_def)
qed

text \<open>
  the retired verdict is never returned, and an entry is reported as expired by age only when its own
  lifetime ran out: never for a client's forced revalidation and never for an origin's no-cache.  A purge of
  the variant set keyed on that bit cannot be triggered by a request header.
\<close>

theorem EvaluateFreshness_expired_by_age_iff:
  "fr_verdict (EvaluateFreshness input config) \<noteq> kStaleServe \<and>
   (fr_expired_by_age (EvaluateFreshness input config) \<longleftrightarrow>
      fr_verdict (EvaluateFreshness input config) = kRevalidate \<and> \<not> fi_force_revalidate input \<and>
      fi_origin_cc_flags input AND kCCOriginNoCache = 0 \<and>
      unat (entry_age input) > unat (effective_max_age input config))"
  unfolding EvaluateFreshness_def Let_def by (auto simp: word_less_nat_alt)

text \<open>
  until sixty seconds before the 32-bit clock wraps, the age is the exact number of seconds since the
  insertion, zero for an insertion time at most a minute in the future, and the largest value (always
  stale) for one further in the future.
\<close>

theorem entry_age_exact:
  assumes "unat (fi_now_seconds input) < 2 ^ 32 - 60"
  shows "unat (entry_age input) =
    (if unat (fi_cache_inserted_at input) > unat (fi_now_seconds input) + 60 then 2 ^ 32 - 1
     else unat (fi_now_seconds input) - unat (fi_cache_inserted_at input))"
  unfolding entry_age_def by (rule ClampAge_exact [OF assms])

theorem entry_age_exact_witness:
  "unat (entry_age \<lparr>fi_now_seconds = 1000, fi_cache_inserted_at = 400, fi_origin_max_age = 0,
     fi_origin_s_maxage = 0, fi_origin_cc_flags = 0, fi_content_type = kCss, fi_is_shared_cache = True,
     fi_force_revalidate = False\<rparr>) = 600"
  by (subst entry_age_exact) simp_all

end
