(* ===== verification/Cache_Control_Header.thy ===== *)
theory Cache_Control_Header
  imports Freshness "HOL-Library.Sublist"
begin

text \<open>
  Assembly of the outgoing Cache-Control header into a caller-provided buffer:
  \<open>lib/cache/cache_control_header.cc\<close>.  The buffer is the list of bytes written so far together with
  its capacity; a call of \<open>snprintf\<close> that does not fit would leave a cut directive and a NUL byte, which
  the definition writes out, so that the absence of truncation is a theorem about the \<open>fits\<close> guards.
\<close>

datatype CacheMode = kSafe | kAggressive

record CacheControlInput =
  ci_mode :: CacheMode
  ci_origin_cc_flags :: u16
  ci_effective_max_age :: u32
  ci_origin_max_age :: u32
  ci_synthesize_swr :: bool
  ci_is_shared_cache :: bool
  ci_content_type :: ContentType
  ci_relay_origin_no_cache :: bool
  ci_forward_origin_restrictions :: bool

record CacheControlOutput =
  co_text :: string
  co_final_max_age :: u32

definition ComputeSharedRevalidationRequired :: "u16 \<Rightarrow> bool \<Rightarrow> bool" where
  "ComputeSharedRevalidationRequired cc is_shared_cache \<longleftrightarrow>
     cc AND kCCOriginNoCache \<noteq> 0 \<or> cc AND kCCOriginMustRevalidate \<noteq> 0 \<or>
     (cc AND kCCOriginProxyRevalidate \<noteq> 0 \<and> is_shared_cache) \<or>
     (cc AND kCCOriginSMaxagePresent \<noteq> 0 \<and> is_shared_cache)"

section \<open>The buffer\<close>

definition cc_remaining :: "nat \<Rightarrow> string \<Rightarrow> nat" where
  "cc_remaining capacity buf = capacity - length buf"

definition append_comma :: "nat \<Rightarrow> string \<Rightarrow> string" where
  "append_comma capacity buf = (if buf \<noteq> [] \<and> cc_remaining capacity buf \<ge> 2 then buf @ '', '' else buf)"

definition cc_fits :: "nat \<Rightarrow> nat \<Rightarrow> string \<Rightarrow> bool" where
  "cc_fits capacity directive_len buf \<longleftrightarrow>
     cc_remaining capacity buf \<ge> (if buf \<noteq> [] then 2 else 0) + directive_len + 1"

text \<open>
  \<open>snprintf(p, remaining(), ...)\<close> followed by the advance of \<open>p\<close>: at most \<open>remaining - 1\<close> characters
  and a terminating NUL are written, and \<open>p\<close> moves by the length capped at \<open>remaining\<close>.
\<close>

definition snprintf_advance :: "nat \<Rightarrow> string \<Rightarrow> string \<Rightarrow> string" where
  "snprintf_advance capacity text buf =
     (let remaining = cc_remaining capacity buf
      in if length text < remaining then buf @ text
         else if remaining = 0 then buf
         else buf @ take (remaining - 1) text @ [CHR 0x00])"

definition put_directive :: "nat \<Rightarrow> bool \<Rightarrow> nat \<Rightarrow> string \<Rightarrow> string \<Rightarrow> string" where
  "put_directive capacity cond directive_len text buf =
     (if cond \<and> cc_fits capacity directive_len buf
      then snprintf_advance capacity text (append_comma capacity buf) else buf)"

text \<open>The decimal text of \<open>%u\<close>.\<close>

fun dec_string :: "nat \<Rightarrow> string" where
  "dec_string n = (if n < 10 then [char_of (48 + n)] else dec_string (n div 10) @ [char_of (48 + n mod 10)])"

declare dec_string.simps [simp del]

section \<open>The header\<close>

definition private_is_blanket :: "u16 \<Rightarrow> bool" where
  "private_is_blanket flags \<longleftrightarrow>
     flags AND kCCOriginPrivate \<noteq> 0 \<and>
     (flags AND kCCOriginPrivateBare \<noteq> 0 \<or> flags AND kCCOriginPrivateQualified = 0)"

definition no_cache_is_blanket :: "u16 \<Rightarrow> bool" where
  "no_cache_is_blanket flags \<longleftrightarrow>
     flags AND kCCOriginNoCache \<noteq> 0 \<and>
     (flags AND kCCOriginNoCacheBare \<noteq> 0 \<or> flags AND kCCOriginNoCacheQualified = 0)"

text \<open>The max-age group: the new buffer and the emitted lifetime.\<close>

definition put_max_age :: "CacheControlInput \<Rightarrow> nat \<Rightarrow> string \<Rightarrow> string \<times> u32" where
  "put_max_age input capacity buf =
     (let flags = ci_origin_cc_flags input; effective = ci_effective_max_age input;
          write = (\<lambda>v. snprintf_advance capacity (''max-age='' @ dec_string (unat v)) (append_comma capacity buf))
      in if ci_forward_origin_restrictions input \<and> flags AND kCCOriginNoStore \<noteq> 0 then (buf, effective)
         else if flags AND kCCOriginSMaxagePresent \<noteq> 0 then
           (let browser_max_age = ci_origin_max_age input
            in if (browser_max_age > 0 \<or> flags AND kCCOriginHeaderPresent \<noteq> 0) \<and> cc_fits capacity 18 buf
               then (write browser_max_age, browser_max_age) else (buf, effective))
         else if cc_fits capacity 18 buf then (write effective, effective)
         else (buf, effective))"

definition BuildCacheControlHeader :: "CacheControlInput \<Rightarrow> nat \<Rightarrow> CacheControlOutput" where
  "BuildCacheControlHeader input capacity =
     (if capacity = 0 then \<lparr>co_text = [], co_final_max_age = 0\<rparr>
      else
        (let flags = ci_origin_cc_flags input;
             put = put_directive capacity;
             forward = ci_forward_origin_restrictions input;
             origin_private = (flags AND kCCOriginPrivate \<noteq> 0 \<or> flags AND kCCOriginNoStore \<noteq> 0);
             revalidation_required = ComputeSharedRevalidationRequired flags (ci_is_shared_cache input);
             p = [];
             p = put (ci_mode input = kAggressive \<and> flags AND kCCOriginPublic \<noteq> 0 \<and> \<not> origin_private)
                   6 ''public'' p;
             p = put (forward \<and> flags AND kCCOriginNoStore \<noteq> 0) 8 ''no-store'' p;
             p = put (forward \<and> private_is_blanket flags) 7 ''private'' p;
             p = put ((ci_relay_origin_no_cache input \<or> forward) \<and> no_cache_is_blanket flags) 8 ''no-cache'' p;
             p = put ((ci_mode input = kSafe \<and> \<not> forward) \<or> flags AND kCCOriginMustRevalidate \<noteq> 0)
                   16 ''must-revalidate'' p;
             p = put (flags AND kCCOriginProxyRevalidate \<noteq> 0) 17 ''proxy-revalidate'' p;
             p = put (flags AND kCCOriginNoTransform \<noteq> 0) 12 ''no-transform'' p;
             p = put (flags AND kCCOriginSMaxagePresent \<noteq> 0) 19
                   (''s-maxage='' @ dec_string (unat (ci_effective_max_age input))) p;
             (p, emitted_max_age) = put_max_age input capacity p;
             swr = min (ci_effective_max_age input) 86400;
             p = put (ci_mode input = kAggressive \<and> ci_synthesize_swr input \<and> \<not> revalidation_required \<and>
                      \<not> forward \<and> swr > 0)
                   34 (''stale-while-revalidate='' @ dec_string (unat swr)) p;
             p = put (ci_mode input = kAggressive \<and> \<not> revalidation_required \<and> \<not> forward)
                   20 ''stale-if-error=86400'' p
         in \<lparr>co_text = p, co_final_max_age = emitted_max_age\<rparr>))"

section \<open>The directives a header may carry\<close>

text \<open>
  The specification: the directives in order, each with its guard and the length the code reserves for it.
  A buffer that is large enough receives exactly those whose guard holds.
\<close>

definition cc_specs :: "CacheControlInput \<Rightarrow> (bool \<times> nat \<times> string) list" where
  "cc_specs input =
     (let flags = ci_origin_cc_flags input; forward = ci_forward_origin_restrictions input;
          aggressive = (ci_mode input = kAggressive); eff = ci_effective_max_age input;
          no_store = (flags AND kCCOriginNoStore \<noteq> 0); s_maxage = (flags AND kCCOriginSMaxagePresent \<noteq> 0);
          revalidation_required = ComputeSharedRevalidationRequired flags (ci_is_shared_cache input)
      in [(aggressive \<and> flags AND kCCOriginPublic \<noteq> 0 \<and> flags AND kCCOriginPrivate = 0 \<and> \<not> no_store, 6, ''public''),
          (forward \<and> no_store, 8, ''no-store''),
          (forward \<and> private_is_blanket flags, 7, ''private''),
          ((ci_relay_origin_no_cache input \<or> forward) \<and> no_cache_is_blanket flags, 8, ''no-cache''),
          ((\<not> aggressive \<and> \<not> forward) \<or> flags AND kCCOriginMustRevalidate \<noteq> 0, 16, ''must-revalidate''),
          (flags AND kCCOriginProxyRevalidate \<noteq> 0, 17, ''proxy-revalidate''),
          (flags AND kCCOriginNoTransform \<noteq> 0, 12, ''no-transform''),
          (s_maxage, 19, ''s-maxage='' @ dec_string (unat eff)),
          (\<not> (forward \<and> no_store) \<and>
             (s_maxage \<longrightarrow> ci_origin_max_age input > 0 \<or> flags AND kCCOriginHeaderPresent \<noteq> 0), 18,
           ''max-age='' @ dec_string (unat (if s_maxage then ci_origin_max_age input else eff))),
          (aggressive \<and> ci_synthesize_swr input \<and> \<not> revalidation_required \<and> \<not> forward \<and> eff > 0, 34,
           ''stale-while-revalidate='' @ dec_string (unat (min eff 86400))),
          (aggressive \<and> \<not> revalidation_required \<and> \<not> forward, 20, ''stale-if-error=86400'')])"

definition cc_directives :: "CacheControlInput \<Rightarrow> string list" where
  "cc_directives input = map (\<lambda>(b, c, t). t) (filter fst (cc_specs input))"

fun join_directives :: "string list \<Rightarrow> string" where
  "join_directives [] = []"
| "join_directives (d # ds) = d @ concat (map (\<lambda>e. '', '' @ e) ds)"

section \<open>Lemmas on decimal text\<close>

lemma dec_string_Nil [simp]: "dec_string n \<noteq> []"
  by (subst dec_string.simps) simp

lemma length_dec_string: "n < 10 ^ Suc k \<Longrightarrow> length (dec_string n) \<le> Suc k"
proof (induction k arbitrary: n)
  case 0
  then show ?case by (simp add: dec_string.simps)
next
  case (Suc k)
  then have "n div 10 < 10 ^ Suc k" by (simp add: less_mult_imp_div_less)
  with Suc.IH show ?case by (subst dec_string.simps) simp
qed

lemma length_dec_u32: "length (dec_string (unat (w :: u32))) \<le> 10"
proof -
  have "unat w < 10 ^ Suc 9" using unsigned_less [of w, where 'a = nat] by simp
  from length_dec_string [OF this] show ?thesis by simp
qed

lemma dec_string_digits: "list_all is_digit_char (dec_string n)"
proof (induction n rule: dec_string.induct)
  case (1 n)
  have d: "is_digit_char (char_of (48 + m))" if "m < 10" for m :: nat
    using that by (simp add: is_digit_char_def less_eq_char_def)
  show ?case
    using 1 d [of n] d [of "n mod 10"] by (subst dec_string.simps) simp
qed

lemma dec_val_dec_string: "dec_val (dec_string n) = n"
proof (induction n rule: dec_string.induct)
  case (1 n)
  have d: "digit_value (char_of (48 + m)) = m" if "m < 10" for m :: nat
    using that by (simp add: digit_value_def)
  show ?case
    using 1 d [of n] d [of "n mod 10"] by (subst dec_string.simps) simp
qed

section \<open>Lemmas on the buffer\<close>

definition written :: "nat \<Rightarrow> nat \<Rightarrow> string list \<Rightarrow> string \<Rightarrow> bool" where
  "written capacity k ds buf \<longleftrightarrow>
     length buf < capacity \<and> length buf \<le> k \<and> [] \<notin> set ds \<and>
     (\<exists>ds'. subseq ds' ds \<and> buf = join_directives ds') \<and> (k < capacity \<longrightarrow> buf = join_directives ds)"

lemma join_snoc:
  "join_directives (ds @ [d]) = (if ds = [] then d else join_directives ds @ '', '' @ d)"
  by (cases ds) simp_all

lemma join_eq_Nil: "[] \<notin> set ds \<Longrightarrow> join_directives ds = [] \<longleftrightarrow> ds = []"
  by (cases ds) auto

lemma put_directive_eq:
  assumes "length text \<le> c" "length buf < capacity"
  shows "put_directive capacity cond c text buf =
    (if cond \<and> cc_fits capacity c buf then (if buf = [] then text else buf @ '', '' @ text) else buf)"
  using assms
  by (auto simp: put_directive_def cc_fits_def snprintf_advance_def append_comma_def cc_remaining_def Let_def)

lemma written_empty: "0 < capacity \<Longrightarrow> written capacity 0 [] []"
  by (auto simp: written_def intro: exI [of _ "[]"])

lemma written_put:
  assumes w: "written capacity k ds buf" and txt_ok: "length text \<le> c" "text \<noteq> []"
  shows "written capacity (k + (2 + c)) (ds @ (if cond then [text] else [])) (put_directive capacity cond c text buf)"
proof -
  from w obtain ds' where ds': "subseq ds' ds" "buf = join_directives ds'"
    and len: "length buf < capacity" "length buf \<le> k" and ne: "[] \<notin> set ds"
    and full: "k < capacity \<Longrightarrow> buf = join_directives ds"
    by (auto simp: written_def)
  have ne': "[] \<notin> set ds'" using list_emb_set [OF ds'(1), of "[]"] ne by blast
  have eq: "put_directive capacity cond c text buf =
      (if cond \<and> cc_fits capacity c buf then (if buf = [] then text else buf @ '', '' @ text) else buf)"
    by (rule put_directive_eq [OF txt_ok(1) len(1)])
  show ?thesis
  proof (cases "cond \<and> cc_fits capacity c buf")
    case True
    then have buf': "put_directive capacity cond c text buf = (if buf = [] then text else buf @ '', '' @ text)"
      using eq by simp
    have fits: "length buf + (if buf = [] then 0 else 2) + c < capacity"
      using True by (auto simp: cc_fits_def cc_remaining_def)
    have "put_directive capacity cond c text buf = join_directives (ds' @ [text])"
      using buf' by (simp add: join_snoc ds'(2) join_eq_Nil ne')
    moreover have "put_directive capacity cond c text buf = join_directives (ds @ [text])" if "k < capacity"
      using buf' full [OF that] by (simp add: join_snoc join_eq_Nil ne)
    moreover have "subseq (ds' @ [text]) (ds @ [text])" using ds'(1) by simp
    moreover have "length (put_directive capacity cond c text buf) < capacity"
        "length (put_directive capacity cond c text buf) \<le> k + (2 + c)"
      unfolding buf' using fits txt_ok(1) len by (simp_all split: if_splits)
    moreover have "[] \<notin> set (ds @ [text])" using ne txt_ok(2) by simp
    ultimately show ?thesis
      using True unfolding written_def by (simp only: if_True simp_thms) (blast dest: add_lessD1)
  next
    case False
    have "subseq ds' (ds @ (if cond then [text] else []))"
      using ds'(1) subseq_order.order_trans [OF ds'(1), of "ds @ (if cond then [text] else [])"] by auto
    moreover have "\<not> cond" if "k + (2 + c) < capacity"
      using that False len(2) by (auto simp: cc_fits_def cc_remaining_def split: if_splits)
    moreover have "[] \<notin> set (ds @ (if cond then [text] else []))" using ne txt_ok(2) by simp
    ultimately show ?thesis
      using len full ds'(2) unfolding written_def eq if_not_P [OF False]
      by (metis add_lessD1 append_Nil2 trans_le_add1)
  qed
qed

lemma put_max_age_put_directive:
  "fst (put_max_age input capacity buf) =
    (let flags = ci_origin_cc_flags input; s_maxage = (flags AND kCCOriginSMaxagePresent \<noteq> 0)
     in put_directive capacity
          (\<not> (ci_forward_origin_restrictions input \<and> flags AND kCCOriginNoStore \<noteq> 0) \<and>
           (s_maxage \<longrightarrow> ci_origin_max_age input > 0 \<or> flags AND kCCOriginHeaderPresent \<noteq> 0)) 18
          (''max-age='' @ dec_string (unat (if s_maxage then ci_origin_max_age input else ci_effective_max_age input))) buf)"
  by (auto simp: put_max_age_def put_directive_def Let_def)

lemma written_fold:
  assumes "list_all (\<lambda>(b, c, t). length t \<le> c \<and> t \<noteq> []) specs" "written capacity k ds buf"
  shows "written capacity (k + (\<Sum>(b, c, t)\<leftarrow>specs. 2 + c)) (ds @ map (\<lambda>(b, c, t). t) (filter fst specs))
    (fold (\<lambda>(b, c, t). put_directive capacity b c t) specs buf)"
  using assms
proof (induction specs arbitrary: k ds buf)
  case Nil
  then show ?case by simp
next
  case (Cons s specs)
  obtain b c t where s: "s = (b, c, t)" by (cases s)
  have "written capacity (k + (2 + c)) (ds @ (if b then [t] else [])) (put_directive capacity b c t buf)"
    using Cons.prems by (intro written_put) (simp_all add: s)
  from Cons.IH [OF _ this] Cons.prems show ?case by (simp add: s add.assoc split: if_splits)
qed

lemma min_pos: "(min eff 86400 > (0 :: u32)) = (eff > 0)"
  by (simp add: min_less_iff_conj)

lemma mode_cases: "(m = kSafe) = (m \<noteq> kAggressive)"
  by (cases m) simp_all

lemma Build_fold:
  assumes "0 < capacity"
  shows "co_text (BuildCacheControlHeader input capacity) =
    fold (\<lambda>(b, c, t). put_directive capacity b c t) (cc_specs input) []"
  using assms
  unfolding BuildCacheControlHeader_def cc_specs_def Let_def
  by (simp add: case_prod_beta put_max_age_put_directive [unfolded Let_def] min_pos mode_cases
      split del: if_split)

lemma cc_specs_ok:
  "list_all (\<lambda>(b, c, t). length t \<le> c \<and> t \<noteq> []) (cc_specs input)"
  "(\<Sum>(b, c, t)\<leftarrow>cc_specs input. 2 + c) = 187"
  by (simp_all add: cc_specs_def Let_def length_dec_u32 le_trans [OF length_dec_u32])

lemma Build_written:
  assumes "0 < capacity"
  shows "written capacity 187 (cc_directives input) (co_text (BuildCacheControlHeader input capacity))"
  using written_fold [OF cc_specs_ok(1) written_empty [OF assms], of input]
  unfolding cc_specs_ok(2) Build_fold [OF assms] cc_directives_def by simp

section \<open>Reading an assembled header back\<close>

lemma list_members_separated:
  assumes "d \<noteq> []" "CHR '','' \<notin> set d" "\<forall>e \<in> set ds. CHR '','' \<notin> set e"
  shows "list_members (CHR '','') (d @ concat (map (\<lambda>e. '', '' @ e) ds)) = d # map (\<lambda>e. '' '' @ e) ds"
  using assms
proof (induction ds arbitrary: d)
  case Nil
  then show ?case by (simp add: list_members_last)
next
  case (Cons e ds)
  have "list_members (CHR '','') (('' '' @ e) @ concat (map (\<lambda>e. '', '' @ e) ds)) =
      ('' '' @ e) # map (\<lambda>e. '' '' @ e) ds"
    using Cons.prems by (intro Cons.IH) simp_all
  then show ?case
    using list_members_append_Cons [OF Cons.prems(2), of "'' '' @ e @ concat (map (\<lambda>e. '', '' @ e) ds)"] by simp
qed

lemma TrimOws_space: "TrimOws ('' '' @ e) = TrimOws e"
  by (simp add: TrimOws_def trim_def trim_left_def is_ows_def)

text \<open>Whatever depends on a trimmed list member only can be read off the directive list.\<close>

lemma members_of_join:
  assumes "[] \<notin> set ds" "\<forall>d \<in> set ds. CHR '','' \<notin> set d"
  shows "(\<exists>t \<in> set (list_members (CHR '','') (join_directives ds)). Q (TrimOws t)) \<longleftrightarrow> (\<exists>d \<in> set ds. Q (TrimOws d))"
proof (cases ds)
  case Nil
  then show ?thesis by simp
next
  case (Cons d es)
  then have "list_members (CHR '','') (join_directives ds) = d # map (\<lambda>e. '' '' @ e) es"
    unfolding Cons join_directives.simps by (intro list_members_separated) (use Cons assms in auto)
  then show ?thesis by (simp add: Cons TrimOws_space [simplified])
qed

lemma token_flags_trimmed:
  "token_flags t = (if TrimOws t = [] then 0 else
     directive_flags (AsciiToLower (token_name (TrimOws t))) (token_has_argument (TrimOws t)))"
  by (rule token_flags_eq)

lemma Accumulate_join:
  assumes "[] \<notin> set ds" "\<forall>d \<in> set ds. CHR '','' \<notin> set d" "kCCOriginHeaderPresent AND f = 0"
  shows "occ_flags (AccumulateOriginCacheControl (join_directives ds) out) AND f \<noteq> 0 \<longleftrightarrow>
    occ_flags out AND f \<noteq> 0 \<or> (\<exists>d \<in> set ds. token_flags d AND f \<noteq> 0)"
  unfolding Accumulate_AND [OF assms(3)] token_flags_trimmed by (subst members_of_join [OF assms(1,2)]) (rule refl)

lemma token_name_argument: "CHR ''='' \<notin> set n \<Longrightarrow> token_name (n @ CHR ''='' # v) = TrimOws n"
  by (simp add: token_name_def sv_simps)

lemma digits_no_comma: "CHR '','' \<notin> set (dec_string n)" "CHR ''='' \<notin> set (dec_string n)"
  using dec_string_digits [of n] by (auto simp: list_all_iff is_digit_char_def less_eq_char_def)

lemma Bex_directives:
  "(\<exists>d \<in> set (cc_directives input). Q d) \<longleftrightarrow> (\<exists>(b, c, t) \<in> set (cc_specs input). b \<and> Q t)"
  by (force simp: cc_directives_def)

lemma cc_specs_no_comma: "list_all (\<lambda>(b, c, t). t \<noteq> [] \<and> CHR '','' \<notin> set t) (cc_specs input)"
  by (simp add: cc_specs_def Let_def digits_no_comma)

lemma cc_directives_no_comma: "[] \<notin> set (cc_directives input)" "\<forall>d \<in> set (cc_directives input). CHR '','' \<notin> set d"
  using cc_specs_no_comma [of input] by (auto simp: cc_directives_def list_all_iff)

lemma directive_token_flags:
  "token_flags ''public'' = kCCOriginPublic"
  "token_flags ''no-store'' = kCCOriginNoStore"
  "token_flags ''private'' = kCCOriginPrivate OR kCCOriginPrivateBare"
  "token_flags ''no-cache'' = kCCOriginNoCache OR kCCOriginNoCacheBare"
  "token_flags ''must-revalidate'' = kCCOriginMustRevalidate"
  "token_flags ''proxy-revalidate'' = kCCOriginProxyRevalidate"
  "token_flags ''no-transform'' = kCCOriginNoTransform"
  "token_flags ''stale-if-error=86400'' = 0"
  by code_simp+

lemma lifetime_trim: "TrimOws (c # s @ dec_string n) = c # s @ dec_string n" if "\<not> is_ows c"
proof -
  have "last (dec_string n) \<in> set (dec_string n)" by simp
  then have "\<not> is_ows (last (dec_string n))"
    using dec_string_digits [of n] digits_not_ows by (metis list_all_iff)
  then show ?thesis using that unfolding TrimOws_def by (intro trim_id) simp
qed

lemma lifetime_token_flags:
  "token_flags (''s-maxage='' @ dec_string n) = kCCOriginSMaxagePresent"
  "token_flags (''max-age='' @ dec_string n) = 0"
  "token_flags (''stale-while-revalidate='' @ dec_string n) = 0"
proof -
  have ows: "\<not> is_ows (CHR ''s'')" "\<not> is_ows (CHR ''m'')" by (simp_all add: is_ows_def)
  have t: "TrimOws ''s-maxage'' = ''s-maxage''" "TrimOws ''max-age'' = ''max-age''"
      "TrimOws ''stale-while-revalidate'' = ''stale-while-revalidate''" by code_simp+
  have l: "AsciiToLower ''stale-while-revalidate'' = ''stale-while-revalidate''" by code_simp
  show "token_flags (''s-maxage='' @ dec_string n) = kCCOriginSMaxagePresent"
    using lifetime_trim [OF ows(1), of "''-maxage=''" n] token_name_argument [of "''s-maxage''" "dec_string n"]
    by (simp add: token_flags_eq t lower_names directive_flags_def)
  show "token_flags (''max-age='' @ dec_string n) = 0"
    using lifetime_trim [OF ows(2), of "''ax-age=''" n] token_name_argument [of "''max-age''" "dec_string n"]
    by (simp add: token_flags_eq t lower_names directive_flags_def)
  show "token_flags (''stale-while-revalidate='' @ dec_string n) = 0"
    using lifetime_trim [OF ows(1), of "''tale-while-revalidate=''" n]
      token_name_argument [of "''stale-while-revalidate''" "dec_string n"]
    by (simp add: token_flags_eq t l directive_flags_def)
qed

lemma stale_names:
  "\<not> starts_with ''stale-'' (TrimOws ''public'')" "\<not> starts_with ''stale-'' (TrimOws ''no-store'')"
  "\<not> starts_with ''stale-'' (TrimOws ''private'')" "\<not> starts_with ''stale-'' (TrimOws ''no-cache'')"
  "\<not> starts_with ''stale-'' (TrimOws ''must-revalidate'')" "\<not> starts_with ''stale-'' (TrimOws ''proxy-revalidate'')"
  "\<not> starts_with ''stale-'' (TrimOws ''no-transform'')"
  "\<not> starts_with ''stale-'' (TrimOws (''s-maxage='' @ dec_string n))"
  "\<not> starts_with ''stale-'' (TrimOws (''max-age='' @ dec_string n))"
proof -
  show "\<not> starts_with ''stale-'' (TrimOws (''s-maxage='' @ dec_string n))"
    using lifetime_trim [of "CHR ''s''" "''-maxage=''" n] by (simp add: starts_with_def is_ows_def)
  show "\<not> starts_with ''stale-'' (TrimOws (''max-age='' @ dec_string n))"
    using lifetime_trim [of "CHR ''m''" "''ax-age=''" n] by (simp add: starts_with_def is_ows_def)
qed code_simp+

section \<open>Properties\<close>

text \<open>
  C27: whatever the buffer, the header is a comma-separated sequence of whole directives, in order, each of
  them one the input calls for, and it ends before the buffer does: a directive that does not fit is left out,
  never cut.  A buffer of more than 187 bytes receives all of them.
\<close>

theorem BuildCacheControlHeader_whole_directives:
  "(\<exists>ds. subseq ds (cc_directives input) \<and>
      co_text (BuildCacheControlHeader input (Suc n)) = join_directives ds) \<and>
   length (co_text (BuildCacheControlHeader input (Suc n))) \<le> n \<and>
   (if n < 187 then True
    else co_text (BuildCacheControlHeader input (Suc n)) = join_directives (cc_directives input))"
  using Build_written [of "Suc n" input] by (auto simp: written_def)

text \<open>
  no permission to serve stale content is ever emitted when the origin's directives require
  revalidation, when its storage restrictions are being forwarded, or in the safe mode.
\<close>

theorem BuildCacheControlHeader_no_stale_permission:
  assumes "ComputeSharedRevalidationRequired (ci_origin_cc_flags input) (ci_is_shared_cache input) \<or>
      ci_forward_origin_restrictions input \<or> ci_mode input = kSafe"
    and "t \<in> set (list_members (CHR '','') (co_text (BuildCacheControlHeader input capacity)))"
  shows "\<not> starts_with ''stale-'' (TrimOws t)"
proof (cases "capacity = 0")
  case True
  with assms(2) show ?thesis by (simp add: BuildCacheControlHeader_def)
next
  case False
  then obtain ds where ds: "subseq ds (cc_directives input)"
      "co_text (BuildCacheControlHeader input capacity) = join_directives ds"
    using Build_written [of capacity input] by (auto simp: written_def)
  have sub: "set ds \<subseteq> set (cc_directives input)" using list_emb_set [OF ds(1)] by blast
  have "\<not> (\<exists>(b, c, d) \<in> set (cc_specs input). b \<and> starts_with ''stale-'' (TrimOws d))"
    using assms(1) stale_names by (auto simp: cc_specs_def Let_def)
  then have "\<not> (\<exists>d \<in> set ds. starts_with ''stale-'' (TrimOws d))"
    using sub unfolding Bex_directives [symmetric] by blast
  moreover have "[] \<notin> set ds" "\<forall>d \<in> set ds. CHR '','' \<notin> set d"
    using sub cc_directives_no_comma [of input] by blast+
  ultimately show ?thesis
    using assms(2) members_of_join [of ds "starts_with ''stale-''"] unfolding ds(2) by blast
qed

theorem BuildCacheControlHeader_no_stale_permission_witness:
  "\<not> starts_with ''stale-'' (TrimOws ''must-revalidate'')"
proof (rule BuildCacheControlHeader_no_stale_permission
    [where capacity = 40 and input = "\<lparr>ci_mode = kAggressive, ci_origin_cc_flags = kCCOriginMustRevalidate,
       ci_effective_max_age = 60, ci_origin_max_age = 60, ci_synthesize_swr = True, ci_is_shared_cache = True,
       ci_content_type = kCss, ci_relay_origin_no_cache = False, ci_forward_origin_restrictions = False\<rparr>"])
qed code_simp+

text \<open>
  when the origin's restrictions are forwarded, a cache downstream that parses the assembled header
  recovers them: it sees no-store exactly when the origin sent it, and the blanket forms of private and
  no-cache exactly when the origin's were blanket.
\<close>

theorem forwarded_restrictions_roundtrip:
  assumes "ci_forward_origin_restrictions input" "187 < capacity"
  shows "let flags = ci_origin_cc_flags input;
      seen = occ_flags (AccumulateOriginCacheControl (co_text (BuildCacheControlHeader input capacity))
               \<lparr>occ_flags = 0, occ_max_age = 0, occ_s_maxage = 0\<rparr>)
    in (seen AND kCCOriginNoStore \<noteq> 0 \<longleftrightarrow> flags AND kCCOriginNoStore \<noteq> 0) \<and>
       (seen AND kCCOriginPrivateBare \<noteq> 0 \<longleftrightarrow> private_is_blanket flags) \<and>
       (seen AND kCCOriginNoCacheBare \<noteq> 0 \<longleftrightarrow> no_cache_is_blanket flags)"
proof -
  have text_eq: "co_text (BuildCacheControlHeader input capacity) = join_directives (cc_directives input)"
    using Build_written [of capacity input] assms(2) by (simp add: written_def)
  have seen: "(\<exists>d \<in> set (cc_directives input). token_flags d AND f \<noteq> 0) \<longleftrightarrow>
      (\<exists>(b, c, t) \<in> set (cc_specs input). b \<and> token_flags t AND f \<noteq> 0)" for f
    by (rule Bex_directives)
  have bits: "kCCOriginHeaderPresent AND kCCOriginNoStore = 0" "kCCOriginHeaderPresent AND kCCOriginPrivateBare = 0"
      "kCCOriginHeaderPresent AND kCCOriginNoCacheBare = 0"
    by (simp_all add: cc_flag_values)
  show ?thesis
    unfolding Let_def text_eq Accumulate_join [OF cc_directives_no_comma bits(1)]
      Accumulate_join [OF cc_directives_no_comma bits(2)] Accumulate_join [OF cc_directives_no_comma bits(3)] seen
    using assms(1)
    by (simp add: cc_specs_def Let_def directive_token_flags lifetime_token_flags [simplified] cc_flag_values)
qed

theorem forwarded_restrictions_roundtrip_witness:
  "occ_flags (AccumulateOriginCacheControl (co_text (BuildCacheControlHeader
     \<lparr>ci_mode = kSafe, ci_origin_cc_flags = kCCOriginNoStore, ci_effective_max_age = 0, ci_origin_max_age = 0,
      ci_synthesize_swr = False, ci_is_shared_cache = True, ci_content_type = kHtml,
      ci_relay_origin_no_cache = True, ci_forward_origin_restrictions = True\<rparr> 256))
     \<lparr>occ_flags = 0, occ_max_age = 0, occ_s_maxage = 0\<rparr>) AND kCCOriginNoStore \<noteq> 0"
  using forwarded_restrictions_roundtrip [of "\<lparr>ci_mode = kSafe, ci_origin_cc_flags = kCCOriginNoStore,
      ci_effective_max_age = 0, ci_origin_max_age = 0, ci_synthesize_swr = False, ci_is_shared_cache = True,
      ci_content_type = kHtml, ci_relay_origin_no_cache = True, ci_forward_origin_restrictions = True\<rparr>" 256]
  by (simp add: Let_def kCCOriginNoStore_def)

end
