(* ===== verification/Vary.thy ===== *)
theory Vary
  imports Origin_Cache_Control
begin

text \<open>
  Content negotiation across caches: which Vary values allow a response to be stored
  (\<open>lib/cache/vary_storability.cc\<close>), and the Vary value a served response declares
  (\<open>lib/cache/vary_emission.cc\<close>).  The two files have their own copies of the A to Z fold; both are
  \<^const>\<open>AsciiEqualsIgnoreCase\<close>.
\<close>

record VaryStoreVerdict =
  vv_storable :: bool
  vv_varies_accept :: bool

definition kAllowed :: "string list" where
  "kAllowed = [''Accept-Encoding'', ''User-Agent'', ''Accept'', ''Save-Data'']"

fun classify_members :: "string list \<Rightarrow> VaryStoreVerdict \<Rightarrow> VaryStoreVerdict" where
  "classify_members [] verdict = verdict"
| "classify_members (raw # rest) verdict =
     (let token = trim is_ows raw
      in if token = [] then classify_members rest verdict
         else if token = ''*'' then \<lparr>vv_storable = False, vv_varies_accept = False\<rparr>
         else if \<not> list_ex (AsciiEqualsIgnoreCase token) kAllowed then
           \<lparr>vv_storable = False, vv_varies_accept = False\<rparr>
         else if AsciiEqualsIgnoreCase token ''Accept'' then
           classify_members rest (verdict\<lparr>vv_varies_accept := True\<rparr>)
         else classify_members rest verdict)"

definition ClassifyVaryForStore :: "string \<Rightarrow> VaryStoreVerdict" where
  "ClassifyVaryForStore combined_vary =
     (let verdict = \<lparr>vv_storable = True, vv_varies_accept = False\<rparr>
      in if combined_vary = [] then verdict
         else classify_members (list_members (CHR '','') combined_vary) verdict)"

definition VaryUncacheable :: "string \<Rightarrow> bool" where
  "VaryUncacheable combined_vary \<longleftrightarrow> \<not> vv_storable (ClassifyVaryForStore combined_vary)"

definition VaryForServedResponse :: "ContentType \<Rightarrow> bool \<Rightarrow> string" where
  "VaryForServedResponse ct entry_varies_accept =
     (case ct of
        kImage \<Rightarrow> kImageSelectionVary
      | kHtml \<Rightarrow> (if entry_varies_accept then ''Accept-Encoding, User-Agent, Accept''
                  else ''Accept-Encoding, User-Agent'')
      | kCss \<Rightarrow> (if entry_varies_accept then ''Accept-Encoding, Accept'' else ''Accept-Encoding'')
      | kJs \<Rightarrow> (if entry_varies_accept then ''Accept-Encoding, Accept'' else ''Accept-Encoding'')
      | kOther \<Rightarrow> (if entry_varies_accept then ''Accept'' else []))"

section \<open>Lemmas\<close>

definition vary_fields :: "string \<Rightarrow> string list" where
  "vary_fields v = map AsciiToLower (filter (\<lambda>t. t \<noteq> []) (map (trim is_ows) (list_members (CHR '','') v)))"

lemma lower_fields:
  "AsciiToLower ''Accept-Encoding'' = ''accept-encoding''" "AsciiToLower ''User-Agent'' = ''user-agent''"
  "AsciiToLower ''Accept'' = ''accept''" "AsciiToLower ''Save-Data'' = ''save-data''"
  "AsciiToLower ''*'' = ''*''"
  by code_simp+

lemma allowed_iff:
  "list_ex (AsciiEqualsIgnoreCase t) kAllowed \<longleftrightarrow>
   AsciiToLower t \<in> {''accept-encoding'', ''user-agent'', ''accept'', ''save-data''}"
  by (simp add: kAllowed_def AsciiEqualsIgnoreCase_iff lower_fields)

lemma star_not_allowed: "\<not> list_ex (AsciiEqualsIgnoreCase ''*'') kAllowed"
  by (simp add: allowed_iff lower_fields)

lemma classify_members_eq:
  "classify_members raws verdict =
    (let toks = filter (\<lambda>t. t \<noteq> []) (map (trim is_ows) raws)
     in if list_all (\<lambda>t. list_ex (AsciiEqualsIgnoreCase t) kAllowed) toks
        then verdict\<lparr>vv_varies_accept := vv_varies_accept verdict \<or> list_ex (\<lambda>t. AsciiEqualsIgnoreCase t ''Accept'') toks\<rparr>
        else \<lparr>vv_storable = False, vv_varies_accept = False\<rparr>)"
  by (induction raws arbitrary: verdict) (auto simp: Let_def star_not_allowed)

lemma Classify_eq:
  "ClassifyVaryForStore v =
    (if set (vary_fields v) \<subseteq> {''accept-encoding'', ''user-agent'', ''accept'', ''save-data''}
     then \<lparr>vv_storable = True, vv_varies_accept = ''accept'' \<in> set (vary_fields v)\<rparr>
     else \<lparr>vv_storable = False, vv_varies_accept = False\<rparr>)"
proof -
  let ?allowed = "{''accept-encoding'', ''user-agent'', ''accept'', ''save-data''}"
  let ?toks = "filter (\<lambda>t. t \<noteq> []) (map (trim is_ows) (list_members (CHR '','') v))"
  have "list_all (\<lambda>t. list_ex (AsciiEqualsIgnoreCase t) kAllowed) ?toks \<longleftrightarrow> set (vary_fields v) \<subseteq> ?allowed"
    unfolding allowed_iff vary_fields_def list_all_iff by auto
  moreover have "list_ex (\<lambda>t. AsciiEqualsIgnoreCase t ''Accept'') ?toks \<longleftrightarrow> ''accept'' \<in> set (vary_fields v)"
    unfolding AsciiEqualsIgnoreCase_iff lower_fields vary_fields_def list_ex_iff set_map image_iff by metis
  moreover have "vary_fields [] = []" by (simp add: vary_fields_def)
  ultimately show ?thesis
    by (simp add: ClassifyVaryForStore_def classify_members_eq Let_def)
qed

section \<open>Properties\<close>

text \<open>
  a response is storable exactly when every field its Vary names (lower-cased, empty members skipped) is
  one of Accept-Encoding, User-Agent, Accept and Save-Data, so a star or an unknown field refuses it; a
  stored entry is marked as varying on Accept exactly when one of the fields is Accept.
\<close>

theorem ClassifyVaryForStore_iff:
  "(vv_storable (ClassifyVaryForStore v) \<longleftrightarrow>
      set (vary_fields v) \<subseteq> {''accept-encoding'', ''user-agent'', ''accept'', ''save-data''}) \<and>
   (vv_varies_accept (ClassifyVaryForStore v) \<longleftrightarrow>
      vv_storable (ClassifyVaryForStore v) \<and> ''accept'' \<in> set (vary_fields v))"
  by (simp add: Classify_eq)

text \<open>
  a served response declares Accept in its Vary exactly when its bytes can depend on it: for every
  image, and for every other type whose stored entry was marked as varying on Accept.
\<close>

theorem VaryForServedResponse_accept_iff:
  "''accept'' \<in> set (vary_fields (VaryForServedResponse ct b)) \<longleftrightarrow> ct = kImage \<or> b"
proof -
  have "list_all (\<lambda>ct. list_all (\<lambda>b.
      (''accept'' \<in> set (vary_fields (VaryForServedResponse ct b))) = (ct = kImage \<or> b)) [True, False])
      [kHtml, kCss, kJs, kImage, kOther]"
    by code_simp
  then show ?thesis by (cases ct; cases b) simp_all
qed

end
