(* ===== verification/Headers_Sidecar.thy ===== *)
theory Headers_Sidecar
  imports Vary "HOL-Library.Monad_Syntax"
begin

text \<open>
  The headers sidecar: \<open>lib/cache/headers_sidecar.cc\<close>.  The gate decides whether every header of a
  response can be reproduced from the cache; when it can, the headers that the entry metadata does not
  reproduce are encoded into a length-prefixed block.  The file's own copies of the A to Z fold are
  \<^const>\<open>AsciiEqualsIgnoreCase\<close> and \<^const>\<open>AsciiToLower\<close>.
\<close>

record HeaderField =
  hf_name :: string
  hf_value :: string

datatype SidecarVerdict = kSwapEligible | kFallThrough | kNeverOptimized

record SidecarClassification =
  sc_verdict :: SidecarVerdict
  sc_reasons :: "string list"
  sc_payload :: string
  sc_fields :: nat

definition kMaxHeadersSidecarPayloadBytes :: nat where
  "kMaxHeadersSidecarPayloadBytes = 8 * 1024"

definition kMaxHeadersSidecarNameBytes :: nat where
  "kMaxHeadersSidecarNameBytes = 255"

definition kMaxHeadersSidecarValueBytes :: nat where
  "kMaxHeadersSidecarValueBytes = 65535"

section \<open>Character classes and tables\<close>

definition AsciiLower :: "string \<Rightarrow> string" where
  "AsciiLower s = map fold_az s"

definition Contains :: "string list \<Rightarrow> string \<Rightarrow> bool" where
  "Contains names name \<longleftrightarrow> list_ex (\<lambda>candidate. AsciiEqualsIgnoreCase candidate name) names"

definition IsTokenChar :: "char \<Rightarrow> bool" where
  "IsTokenChar c \<longleftrightarrow>
     (CHR ''a'' \<le> c \<and> c \<le> CHR ''z'') \<or> (CHR ''A'' \<le> c \<and> c \<le> CHR ''Z'') \<or>
     (CHR ''0'' \<le> c \<and> c \<le> CHR ''9'') \<or> c \<in> set (''!#$%&'' @ [CHR 0x27] @ ''*+-.^_'' @ [CHR 0x60] @ ''|~'')"

definition IsFieldName :: "string \<Rightarrow> bool" where
  "IsFieldName name \<longleftrightarrow> name \<noteq> [] \<and> list_all IsTokenChar name"

definition IsStorableFieldValue :: "string \<Rightarrow> bool" where
  "IsStorableFieldValue value \<longleftrightarrow>
     list_all (\<lambda>u. \<not> (u = CHR 0x0D \<or> u = CHR 0x0A \<or> u = CHR 0x00)) value"

definition kAllowlist :: "string list" where
  "kAllowlist =
    [''content-security-policy'', ''access-control-allow-origin'', ''x-content-type-options'',
     ''referrer-policy'', ''cross-origin-opener-policy'', ''cross-origin-embedder-policy'',
     ''cross-origin-resource-policy'', ''permissions-policy'', ''vary'', ''link'',
     ''strict-transport-security'', ''x-frame-options'', ''x-xss-protection'',
     ''x-permitted-cross-domain-policies'', ''origin-agent-cluster'', ''x-dns-prefetch-control'',
     ''timing-allow-origin'', ''access-control-expose-headers'', ''reporting-endpoints'', ''nel'',
     ''x-powered-by'', ''x-pingback'', ''x-robots-tag'', ''content-language'', ''content-disposition'',
     ''alt-svc'', ''allow'']"

definition kReproducedByEntryMetadata :: "string list" where
  "kReproducedByEntryMetadata =
    [''cache-control'', ''content-type'', ''content-length'', ''etag'', ''last-modified'', ''expires'']"

definition kStampedPerResponse :: "string list" where
  "kStampedPerResponse =
    [''date'', ''server'', ''connection'', ''keep-alive'', ''transfer-encoding'', ''age'', ''accept-ranges'']"

section \<open>Nonces\<close>

definition CspCarriesNonce :: "string \<Rightarrow> bool" where
  "CspCarriesNonce csp_value \<longleftrightarrow>
     (if length csp_value < length ''nonce-'' then False
      else list_ex (\<lambda>i. AsciiEqualsIgnoreCase (sv_substr i (length ''nonce-'') csp_value) ''nonce-'')
             [0 ..< Suc (length csp_value - length ''nonce-'')])"

text \<open>
  One iteration of the Link scan: the new state, and the rest of the value starting at the position the
  needle is compared at (one further after a backslash inside quotes).
\<close>

definition link_step :: "bool \<Rightarrow> bool \<Rightarrow> char \<Rightarrow> string \<Rightarrow> bool \<times> bool \<times> string" where
  "link_step in_target in_quotes c cs =
     (if in_target then (c \<noteq> CHR ''>'', in_quotes, c # cs)
      else if in_quotes then
        (if c = CHR 0x5C \<and> cs \<noteq> [] then (in_target, in_quotes, cs)
         else if c = CHR 0x22 then (in_target, False, c # cs)
         else (in_target, in_quotes, c # cs))
      else if c = CHR 0x22 then (in_target, True, c # cs)
      else if c = CHR ''<'' then (True, in_quotes, c # cs)
      else (in_target, in_quotes, c # cs))"

definition at_nonce :: "string \<Rightarrow> bool" where
  "at_nonce s \<longleftrightarrow> length ''nonce'' \<le> length s \<and> AsciiEqualsIgnoreCase (take (length ''nonce'') s) ''nonce''"

function link_loop :: "bool \<Rightarrow> bool \<Rightarrow> string \<Rightarrow> bool" where
  "link_loop in_target in_quotes [] = in_target"
| "link_loop in_target in_quotes (c # cs) =
     (case link_step in_target in_quotes c cs of
        (t, q, s) \<Rightarrow> if \<not> t \<and> at_nonce s then True else link_loop t q (tl s))"
  by pat_completeness auto
termination
  by (relation "measure (\<lambda>(t, q, s). length s)")
     (auto simp: link_step_def Let_def split: if_splits)

definition LinkCarriesNonce :: "string \<Rightarrow> bool" where
  "LinkCarriesNonce link_value = link_loop False False link_value"

section \<open>The gate\<close>

record sidecar_scan =
  ss_reasons :: "string list"
  ss_carried :: "HeaderField list"
  ss_combined_vary :: string
  ss_saw_vary :: bool
  ss_never_optimized :: bool

definition add_reason :: "string \<Rightarrow> sidecar_scan \<Rightarrow> sidecar_scan" where
  "add_reason reason s = s\<lparr>ss_reasons := ss_reasons s @ [reason]\<rparr>"

definition scan_vary :: "HeaderField \<Rightarrow> sidecar_scan \<Rightarrow> sidecar_scan" where
  "scan_vary field s =
     (if AsciiEqualsIgnoreCase (hf_name field) ''vary'' then
        s\<lparr>ss_saw_vary := True,
          ss_combined_vary :=
            (if ss_combined_vary s \<noteq> [] then ss_combined_vary s @ '','' else []) @ hf_value field\<rparr>
      else s)"

definition scan_field :: "HeaderField \<Rightarrow> sidecar_scan \<Rightarrow> sidecar_scan" where
  "scan_field field s =
     (if AsciiEqualsIgnoreCase (hf_name field) ''content-security-policy'' \<and> CspCarriesNonce (hf_value field) then
        add_reason ''nonce-csp'' (s\<lparr>ss_never_optimized := True\<rparr>)
      else if AsciiEqualsIgnoreCase (hf_name field) ''link'' \<and> LinkCarriesNonce (hf_value field) then
        add_reason ''nonce-link'' (s\<lparr>ss_never_optimized := True\<rparr>)
      else if \<not> IsFieldName (hf_name field) \<or> \<not> IsStorableFieldValue (hf_value field) then
        add_reason (''malformed-field:'' @ AsciiLower (hf_name field)) s
      else
        (let s = scan_vary field s
         in if Contains kReproducedByEntryMetadata (hf_name field) \<or> Contains kStampedPerResponse (hf_name field) then s
            else if \<not> Contains kAllowlist (hf_name field) then
              add_reason (''unreconstructible-header:'' @ AsciiLower (hf_name field)) s
            else if length (hf_name field) > kMaxHeadersSidecarNameBytes \<or>
                    length (hf_value field) > kMaxHeadersSidecarValueBytes then
              add_reason (''field-too-large:'' @ AsciiLower (hf_name field)) s
            else s\<lparr>ss_carried := ss_carried s @ [field]\<rparr>))"

definition encode_field :: "HeaderField \<Rightarrow> string" where
  "encode_field field =
     char_of (length (hf_name field)) # be_bytes 2 (length (hf_value field)) @ hf_name field @ hf_value field"

definition encode_sidecar :: "HeaderField list \<Rightarrow> string" where
  "encode_sidecar carried =
     char_of kHeadersSidecarFormatVersion # be_bytes 2 (length carried) @ concat (map encode_field carried)"

definition sidecar_encoded_size :: "HeaderField list \<Rightarrow> nat" where
  "sidecar_encoded_size carried =
     foldl (\<lambda>n field. n + (3 + length (hf_name field) + length (hf_value field))) 3 carried"

definition scan_headers :: "HeaderField list \<Rightarrow> sidecar_scan" where
  "scan_headers headers =
     fold scan_field headers
       \<lparr>ss_reasons = [], ss_carried = [], ss_combined_vary = [], ss_saw_vary = False, ss_never_optimized = False\<rparr>"

definition scan_limits :: "sidecar_scan \<Rightarrow> sidecar_scan" where
  "scan_limits s0 =
     (let s = (if ss_saw_vary s0 \<and> VaryUncacheable (ss_combined_vary s0)
               then add_reason (''vary-unstorable:'' @ ss_combined_vary s0) s0 else s0)
      in if ss_carried s \<noteq> [] \<and>
            (length (ss_carried s) > 0xFFFF \<or> sidecar_encoded_size (ss_carried s) > kMaxHeadersSidecarPayloadBytes)
         then (add_reason ''sidecar-too-large'' s)\<lparr>ss_carried := []\<rparr> else s)"

definition ClassifyForHeadersSidecar :: "HeaderField list \<Rightarrow> SidecarClassification" where
  "ClassifyForHeadersSidecar headers =
     (let s = scan_limits (scan_headers headers);
          verdict = (if ss_never_optimized s then kNeverOptimized
                     else if ss_reasons s \<noteq> [] then kFallThrough else kSwapEligible);
          reasons = std_unique (=) (sort (ss_reasons s))
      in if verdict \<noteq> kSwapEligible \<or> ss_carried s = []
         then \<lparr>sc_verdict = verdict, sc_reasons = reasons, sc_payload = [], sc_fields = 0\<rparr>
         else \<lparr>sc_verdict = verdict, sc_reasons = reasons, sc_payload = encode_sidecar (ss_carried s),
               sc_fields = length (ss_carried s)\<rparr>)"

section \<open>The reader\<close>

definition parse_field :: "string \<Rightarrow> (HeaderField \<times> string) option" where
  "parse_field s =
     do {
       check (\<not> length s < 3);
       let name_len = of_char (s ! 0);
       let value_len = be_val (take 2 (drop 1 s));
       let s = drop 3 s;
       check (name_len \<noteq> 0);
       check (\<not> length s < name_len);
       check (\<not> length s - name_len < value_len);
       Some (\<lparr>hf_name = take name_len s, hf_value = take value_len (drop name_len s)\<rparr>,
             drop (name_len + value_len) s)
     }"

definition ParseHeadersSidecar :: "string \<Rightarrow> HeaderField list option" where
  "ParseHeadersSidecar payload =
     do {
       check (\<not> length payload < 3);
       check (of_char (payload ! 0) = kHeadersSidecarFormatVersion);
       let count = be_val (take 2 (drop 1 payload));
       (fields, rest) \<leftarrow> read_many parse_field count (drop 3 payload);
       check (rest = []);
       Some fields
     }"

section \<open>The block is a codec\<close>

definition valid_field :: "HeaderField \<Rightarrow> bool" where
  "valid_field f \<longleftrightarrow> 1 \<le> length (hf_name f) \<and> length (hf_name f) \<le> 255 \<and> length (hf_value f) \<le> 65535"

lemma check_bind [simp]: "check b \<bind> (\<lambda>_. m) = (if b then m else None)"
  by (simp add: check_def)

lemma be_bytes_be_val: "be_bytes (length s) (be_val s) = s"
  using le_bytes_le_val [of "rev s"] by (simp add: be_bytes_def be_val_def)

lemma be_bytes_two: "be_bytes 2 (be_val [a, b]) = [a, b]"
  using be_bytes_be_val [of "[a, b]"] by (simp add: numeral_2_eq_2)

lemma parse_encode_field: "valid_field f \<Longrightarrow> parse_field (encode_field f @ rest) = Some (f, rest)"
  by (auto simp: valid_field_def parse_field_def encode_field_def be_val_be_bytes Let_def)

lemma of_char_le_255: "(of_char c :: nat) \<le> 255"
proof -
  have "(of_char c :: nat) < 256" by simp
  then show ?thesis by linarith
qed

lemma parse_field_Some:
  assumes "parse_field s = Some (f, rest)"
  shows "valid_field f \<and> s = encode_field f @ rest"
proof -
  from assms have len: "3 \<le> length s" by (simp add: parse_field_def split: if_splits)
  then obtain c a b t where s: "s = c # a # b # t"
    by (metis One_nat_def Suc_le_length_iff numeral_3_eq_3)
  have two: "take 2 (drop 1 s) = [a, b]" by (simp add: s)
  define n v where "n = (of_char c :: nat)" and "v = be_val [a, b]"
  have v: "v < 65536" using be_val_less [of "[a, b]"] by (simp add: v_def)
  have "be_bytes 2 v = [a, b]" by (simp add: v_def be_bytes_two)
  moreover have "n \<noteq> 0" "n \<le> length t" "v \<le> length t - n"
      "f = \<lparr>hf_name = take n t, hf_value = take v (drop n t)\<rparr>" "rest = drop (n + v) t"
    using assms by (auto simp: parse_field_def s n_def v_def not_less Let_def split: if_splits)
  moreover have "n \<le> 255" "char_of n = c" using of_char_le_255 [of c] by (simp_all add: n_def)
  moreover have "t = take n t @ take v (drop n t) @ drop (n + v) t"
    by (metis add.commute append_take_drop_id drop_drop)
  ultimately show ?thesis
    using v by (auto simp: valid_field_def encode_field_def s min_def)
qed

interpretation field_codec: stream_codec valid_field encode_field parse_field
  by unfold_locales (simp_all add: parse_encode_field parse_field_Some)

lemma ParseHeadersSidecar_eq:
  "ParseHeadersSidecar payload = Some fs \<longleftrightarrow>
    list_all valid_field fs \<and> length fs \<le> 65535 \<and> payload = encode_sidecar fs"
proof
  assume parse: "ParseHeadersSidecar payload = Some fs"
  then have "3 \<le> length payload" by (simp add: ParseHeadersSidecar_def split: if_splits)
  then obtain c a b t where p: "payload = c # a # b # t"
    by (metis One_nat_def Suc_le_length_iff numeral_3_eq_3)
  from parse have c: "of_char c = (1 :: nat)" and many: "read_many parse_field (be_val [a, b]) t = Some (fs, [])"
    by (auto simp: ParseHeadersSidecar_def p kHeadersSidecarFormatVersion_def bind_eq_Some_conv split: if_splits)
  have "c = char_of (1 :: nat)" using c by (metis char_of_char)
  moreover have "be_bytes 2 (length fs) = [a, b]" "length fs \<le> 65535"
    using field_codec.read_many_dec [OF many] be_bytes_two be_val_less [of "[a, b]"] by auto
  ultimately show "list_all valid_field fs \<and> length fs \<le> 65535 \<and> payload = encode_sidecar fs"
    using field_codec.read_many_dec [OF many] by (simp add: encode_sidecar_def p kHeadersSidecarFormatVersion_def)
next
  assume "list_all valid_field fs \<and> length fs \<le> 65535 \<and> payload = encode_sidecar fs"
  then show "ParseHeadersSidecar payload = Some fs"
    using field_codec.read_many_enc [of fs "[]"]
    by (simp add: ParseHeadersSidecar_def encode_sidecar_def kHeadersSidecarFormatVersion_def be_val_be_bytes)
qed

section \<open>The scan\<close>

definition nonce_field :: "HeaderField \<Rightarrow> bool" where
  "nonce_field f \<longleftrightarrow>
     (AsciiEqualsIgnoreCase (hf_name f) ''content-security-policy'' \<and> CspCarriesNonce (hf_value f)) \<or>
     (AsciiEqualsIgnoreCase (hf_name f) ''link'' \<and> LinkCarriesNonce (hf_value f))"

definition replayed_elsewhere :: "HeaderField \<Rightarrow> bool" where
  "replayed_elsewhere f \<longleftrightarrow>
     Contains kReproducedByEntryMetadata (hf_name f) \<or> Contains kStampedPerResponse (hf_name f)"

definition carriable :: "HeaderField \<Rightarrow> bool" where
  "carriable f \<longleftrightarrow>
     \<not> nonce_field f \<and> IsFieldName (hf_name f) \<and> IsStorableFieldValue (hf_value f) \<and> \<not> replayed_elsewhere f \<and>
     Contains kAllowlist (hf_name f) \<and> valid_field f"

definition accounted :: "HeaderField \<Rightarrow> bool" where
  "accounted f \<longleftrightarrow>
     carriable f \<or>
     (\<not> nonce_field f \<and> IsFieldName (hf_name f) \<and> IsStorableFieldValue (hf_value f) \<and> replayed_elsewhere f)"

lemma scan_field_step:
  "ss_never_optimized (scan_field f s) = (ss_never_optimized s \<or> nonce_field f)"
  "ss_carried (scan_field f s) = ss_carried s @ (if carriable f then [f] else [])"
  "ss_reasons (scan_field f s) = [] \<longleftrightarrow> ss_reasons s = [] \<and> accounted f"
proof -
  have name: "1 \<le> length n" if "IsFieldName n" for n using that by (cases n) (simp_all add: IsFieldName_def)
  show "ss_never_optimized (scan_field f s) = (ss_never_optimized s \<or> nonce_field f)"
    by (auto simp: scan_field_def nonce_field_def add_reason_def scan_vary_def Let_def)
  show "ss_carried (scan_field f s) = ss_carried s @ (if carriable f then [f] else [])"
    using name by (auto simp: scan_field_def nonce_field_def add_reason_def scan_vary_def Let_def carriable_def
        valid_field_def replayed_elsewhere_def kMaxHeadersSidecarNameBytes_def kMaxHeadersSidecarValueBytes_def)
  show "ss_reasons (scan_field f s) = [] \<longleftrightarrow> ss_reasons s = [] \<and> accounted f"
    using name by (auto simp: scan_field_def nonce_field_def add_reason_def scan_vary_def Let_def carriable_def
        accounted_def valid_field_def replayed_elsewhere_def kMaxHeadersSidecarNameBytes_def
        kMaxHeadersSidecarValueBytes_def)
qed

lemma fold_scan_field:
  "ss_never_optimized (fold scan_field hs s) = (ss_never_optimized s \<or> list_ex nonce_field hs)"
  "ss_carried (fold scan_field hs s) = ss_carried s @ filter carriable hs"
  "ss_reasons (fold scan_field hs s) = [] \<longleftrightarrow> ss_reasons s = [] \<and> list_all accounted hs"
  by (induction hs arbitrary: s) (auto simp: scan_field_step)

lemma sidecar_encoded_size_eq: "sidecar_encoded_size fs = length (encode_sidecar fs)"
proof -
  have "foldl (\<lambda>n f. n + (3 + length (hf_name f) + length (hf_value f))) k fs =
      k + length (concat (map encode_field fs))" for k
    by (induction fs arbitrary: k) (simp_all add: encode_field_def)
  then show ?thesis by (simp add: sidecar_encoded_size_def encode_sidecar_def)
qed

lemma scan_limits_never [simp]: "ss_never_optimized (scan_limits s) = ss_never_optimized s"
  by (simp add: scan_limits_def add_reason_def Let_def)

lemma scan_limits_ok:
  "ss_reasons (scan_limits s) = [] \<Longrightarrow>
   ss_reasons s = [] \<and> ss_carried (scan_limits s) = ss_carried s \<and>
   (ss_carried s \<noteq> [] \<longrightarrow> length (ss_carried s) \<le> 65535 \<and> length (encode_sidecar (ss_carried s)) \<le> 8192)"
  by (auto simp: scan_limits_def add_reason_def Let_def sidecar_encoded_size_eq
      kMaxHeadersSidecarPayloadBytes_def split: if_splits)

lemma filter_carriable: "list_all accounted hs \<Longrightarrow> filter carriable hs = filter (\<lambda>f. \<not> replayed_elsewhere f) hs"
  by (rule filter_cong) (auto simp: list_all_iff accounted_def carriable_def)

lemma swap_eligible_scan:
  assumes "sc_verdict (ClassifyForHeadersSidecar hs) = kSwapEligible"
  shows "list_all accounted hs"
    and "filter (\<lambda>f. \<not> replayed_elsewhere f) hs \<noteq> [] \<Longrightarrow>
      ParseHeadersSidecar (sc_payload (ClassifyForHeadersSidecar hs)) = Some (filter (\<lambda>f. \<not> replayed_elsewhere f) hs) \<and>
      length (sc_payload (ClassifyForHeadersSidecar hs)) \<le> 8192"
    and "filter (\<lambda>f. \<not> replayed_elsewhere f) hs = [] \<Longrightarrow> sc_payload (ClassifyForHeadersSidecar hs) = []"
proof -
  let ?s = "scan_headers hs"
  have reasons: "ss_reasons (scan_limits ?s) = []"
    using assms by (auto simp: ClassifyForHeadersSidecar_def Let_def split: if_splits)
  note ok = scan_limits_ok [OF reasons]
  show acc: "list_all accounted hs"
    using ok by (simp add: scan_headers_def fold_scan_field)
  have carried: "ss_carried (scan_limits ?s) = filter (\<lambda>f. \<not> replayed_elsewhere f) hs"
    using ok by (simp add: scan_headers_def fold_scan_field filter_carriable [OF acc])
  have "list_all valid_field (filter carriable hs)" by (auto simp: list_all_iff carriable_def)
  then have valid: "list_all valid_field (filter (\<lambda>f. \<not> replayed_elsewhere f) hs)"
    by (simp add: filter_carriable [OF acc])
  show "ParseHeadersSidecar (sc_payload (ClassifyForHeadersSidecar hs)) = Some (filter (\<lambda>f. \<not> replayed_elsewhere f) hs) \<and>
      length (sc_payload (ClassifyForHeadersSidecar hs)) \<le> 8192"
    if "filter (\<lambda>f. \<not> replayed_elsewhere f) hs \<noteq> []"
    using that ok assms carried valid unfolding ParseHeadersSidecar_eq
    by (auto simp: ClassifyForHeadersSidecar_def Let_def split: if_splits)
  show "sc_payload (ClassifyForHeadersSidecar hs) = []" if "filter (\<lambda>f. \<not> replayed_elsewhere f) hs = []"
    using that carried by (simp add: ClassifyForHeadersSidecar_def Let_def)
qed

lemma never_optimized_iff:
  "sc_verdict (ClassifyForHeadersSidecar hs) = kNeverOptimized \<longleftrightarrow> list_ex nonce_field hs"
  by (simp add: ClassifyForHeadersSidecar_def Let_def scan_headers_def fold_scan_field)

section \<open>Nonces: what the scans find\<close>

lemma lower_nonce: "AsciiToLower ''nonce-'' = ''nonce-''" "AsciiToLower ''nonce'' = ''nonce''"
  by code_simp+

text \<open>The search loop that compares a needle of length \<open>n\<close> at every position where it fits.\<close>

lemma scan_positions:
  "(if l < n then False else list_ex Q [0 ..< Suc (l - n)]) \<longleftrightarrow> (\<exists>i. i + n \<le> l \<and> Q i)"
proof (cases "l < n")
  case False
  then have "i \<in> set [0 ..< Suc (l - n)] \<longleftrightarrow> i + n \<le> l" for i by (auto simp del: upt_Suc)
  with False show ?thesis by (auto simp: list_ex_iff simp del: upt_Suc set_upt)
qed auto

lemma CspCarriesNonce_positions:
  "CspCarriesNonce v \<longleftrightarrow>
    (\<exists>i. i + length ''nonce-'' \<le> length v \<and> take (length ''nonce-'') (drop i (AsciiToLower v)) = ''nonce-'')"
proof -
  have "AsciiEqualsIgnoreCase (sv_substr i n v) ''nonce-'' \<longleftrightarrow> take n (drop i (AsciiToLower v)) = ''nonce-''" for i n
    by (simp only: AsciiEqualsIgnoreCase_iff sv_substr_def lower_nonce) (simp add: AsciiToLower_def take_map drop_map)
  then show ?thesis
    unfolding CspCarriesNonce_def scan_positions by simp
qed

lemma CspCarriesNonce_iff: "CspCarriesNonce v \<longleftrightarrow> (\<exists>u w. AsciiToLower v = u @ ''nonce-'' @ w)"
proof -
  have len: "length (AsciiToLower v) = length v" by (simp add: AsciiToLower_def)
  have "(\<exists>i. i + length n \<le> length x \<and> take (length n) (drop i x) = n) \<longleftrightarrow> (\<exists>u w. x = u @ n @ w)" for n x :: string
  proof safe
    fix i assume "i + length n \<le> length x" "take (length n) (drop i x) = n"
    then have "x = take i x @ n @ drop (length n) (drop i x)" by (metis append_take_drop_id)
    then show "\<exists>u w. x = u @ n @ w" by blast
  next
    fix u w show "\<exists>i. i + length n \<le> length (u @ n @ w) \<and> take (length n) (drop i (u @ n @ w)) = n"
      by (rule exI [of _ "length u"]) simp
  qed
  from this [of "''nonce-''" "AsciiToLower v"] show ?thesis
    unfolding CspCarriesNonce_positions len .
qed

primrec has_nonce :: "string \<Rightarrow> bool" where
  "has_nonce [] = False"
| "has_nonce (c # cs) = (at_nonce (c # cs) \<or> has_nonce cs)"

lemma at_nonce_backslash: "\<not> at_nonce (CHR 0x5C # cs)"
  by (simp add: at_nonce_def AsciiEqualsIgnoreCase_iff AsciiToLower_def LowerChar_def less_eq_char_def)

lemma link_loop_no_target:
  "CHR ''<'' \<notin> set s \<Longrightarrow> link_loop False q s = has_nonce s"
proof (induction s arbitrary: q rule: length_induct)
  case (1 s)
  show ?case
  proof (cases s)
    case Nil
    then show ?thesis by simp
  next
    case (Cons c cs)
    have IH: "link_loop False q' t = has_nonce t" if "length t < length s" "set t \<subseteq> set s" for q' t
      using 1 that by blast
    show ?thesis
    proof (cases "q \<and> c = CHR 0x5C \<and> cs \<noteq> []")
      case True
      then have "link_step False q c cs = (False, q, cs)" by (simp add: link_step_def)
      moreover have "has_nonce cs = (at_nonce cs \<or> has_nonce (tl cs))" using True by (cases cs) simp_all
      moreover have "link_loop False q (tl cs) = has_nonce (tl cs)"
        using True by (intro IH) (cases cs; auto simp: Cons)+
      ultimately show ?thesis using True at_nonce_backslash [of cs] by (simp add: Cons)
    next
      case False
      have "c \<noteq> CHR ''<''" using "1.prems" Cons by auto
      then have "link_step False q c cs = (False, if c = CHR 0x22 then \<not> q else q, c # cs)"
        using False by (simp add: link_step_def; blast)
      then obtain q' where "link_step False q c cs = (False, q', c # cs)" by blast
      moreover have "link_loop False q' cs = has_nonce cs" by (rule IH) (auto simp: Cons)
      ultimately show ?thesis by (simp add: Cons)
    qed
  qed
qed

lemma has_nonce_iff: "has_nonce v \<longleftrightarrow> (\<exists>u w. AsciiToLower v = u @ ''nonce'' @ w)"
proof (induction v)
  case Nil
  then show ?case by (simp add: AsciiToLower_def)
next
  case (Cons c cs)
  have pre: "(\<exists>w. x = n @ w) \<longleftrightarrow> length n \<le> length x \<and> take (length n) x = n" for n x :: string
    by (metis append_eq_conv_conj append_take_drop_id le_add1 length_append)
  have "length (AsciiToLower (c # cs)) = length (c # cs)" "take k (AsciiToLower (c # cs)) = AsciiToLower (take k (c # cs))" for k
    by (simp_all only: AsciiToLower_def length_map take_map)
  then have at: "at_nonce (c # cs) \<longleftrightarrow> (\<exists>w. AsciiToLower (c # cs) = ''nonce'' @ w)"
    unfolding pre at_nonce_def AsciiEqualsIgnoreCase_iff lower_nonce by simp
  have split: "(\<exists>u w. x # xs = u @ n @ w) \<longleftrightarrow> (\<exists>w. x # xs = n @ w) \<or> (\<exists>u w. xs = u @ n @ w)"
    for x :: char and xs n
  proof
    assume "\<exists>u w. x # xs = u @ n @ w"
    then obtain u w where "x # xs = u @ n @ w" by blast
    then show "(\<exists>w. x # xs = n @ w) \<or> (\<exists>u w. xs = u @ n @ w)" by (cases u) auto
  qed (metis append_Cons append_Nil)
  have "AsciiToLower (c # cs) = LowerChar c # AsciiToLower cs" by (simp add: AsciiToLower_def)
  with split [of "LowerChar c" "AsciiToLower cs" "''nonce''"]
  have "(\<exists>u w. AsciiToLower (c # cs) = u @ ''nonce'' @ w) \<longleftrightarrow>
      (\<exists>w. AsciiToLower (c # cs) = ''nonce'' @ w) \<or> (\<exists>u w. AsciiToLower cs = u @ ''nonce'' @ w)" by (simp only:)
  with Cons at show ?case by (simp only: has_nonce.simps)
qed

section \<open>Properties\<close>

text \<open>
  C24: a response passes the gate only when every one of its headers is accounted for: it is reproduced by
  the entry metadata, stamped by the server, or carried in the block.  The block then parses back to exactly
  the headers that are not reproduced elsewhere, byte for byte and in order, within the 8 KiB ceiling.
\<close>

theorem swap_eligible_accounts_for_every_header:
  assumes "sc_verdict (ClassifyForHeadersSidecar hs) = kSwapEligible"
  shows "let rest = filter (\<lambda>f. \<not> (Contains kReproducedByEntryMetadata (hf_name f) \<or>
                                Contains kStampedPerResponse (hf_name f))) hs;
             payload = sc_payload (ClassifyForHeadersSidecar hs)
    in (\<forall>f \<in> set rest. Contains kAllowlist (hf_name f)) \<and> length payload \<le> 8192 \<and>
       (if rest = [] then payload = [] else ParseHeadersSidecar payload = Some rest)"
proof -
  have rest: "(\<lambda>f. \<not> (Contains kReproducedByEntryMetadata (hf_name f) \<or> Contains kStampedPerResponse (hf_name f))) =
      (\<lambda>f. \<not> replayed_elsewhere f)" by (simp add: replayed_elsewhere_def fun_eq_iff)
  show ?thesis
    using swap_eligible_scan [OF assms] unfolding rest Let_def
    by (cases "filter (\<lambda>f. \<not> replayed_elsewhere f) hs = []")
       (auto simp: list_all_iff accounted_def carriable_def)
qed

definition sample_headers :: "HeaderField list" where
  "sample_headers = [\<lparr>hf_name = ''ETag'', hf_value = ''x''\<rparr>, \<lparr>hf_name = ''NEL'', hf_value = ''y''\<rparr>]"

lemma sample_facts:
  "Contains kReproducedByEntryMetadata ''ETag''" "\<not> Contains kReproducedByEntryMetadata ''NEL''"
  "\<not> Contains kStampedPerResponse ''NEL''" "Contains kAllowlist ''NEL''"
  "\<not> AsciiEqualsIgnoreCase ''ETag'' ''content-security-policy''" "\<not> AsciiEqualsIgnoreCase ''NEL'' ''content-security-policy''"
  "\<not> AsciiEqualsIgnoreCase ''ETag'' ''link''" "\<not> AsciiEqualsIgnoreCase ''NEL'' ''link''"
  "\<not> AsciiEqualsIgnoreCase ''ETag'' ''vary''" "\<not> AsciiEqualsIgnoreCase ''NEL'' ''vary''"
  "IsFieldName ''ETag''" "IsFieldName ''NEL''" "IsStorableFieldValue ''x''" "IsStorableFieldValue ''y''"
  by code_simp+

theorem swap_eligible_accounts_for_every_header_witness:
  "ParseHeadersSidecar (sc_payload (ClassifyForHeadersSidecar sample_headers)) =
    Some [\<lparr>hf_name = ''NEL'', hf_value = ''y''\<rparr>]"
proof -
  have "sc_verdict (ClassifyForHeadersSidecar sample_headers) = kSwapEligible"
    by (simp add: ClassifyForHeadersSidecar_def scan_headers_def sample_headers_def scan_field_def scan_vary_def
        scan_limits_def Let_def sample_facts sidecar_encoded_size_def kMaxHeadersSidecarPayloadBytes_def
        kMaxHeadersSidecarNameBytes_def kMaxHeadersSidecarValueBytes_def)
  then show ?thesis
    using swap_eligible_accounts_for_every_header [of sample_headers]
    by (simp add: Let_def sample_headers_def sample_facts)
qed

text \<open>
  a response is permanently excluded exactly when its Content-Security-Policy contains nonce- in any
  case or one of its Link headers is found to carry a nonce; neither depends on the other headers.
\<close>

theorem never_optimized_iff_nonce:
  "sc_verdict (ClassifyForHeadersSidecar hs) = kNeverOptimized \<longleftrightarrow>
    (\<exists>f \<in> set hs.
       (AsciiToLower (hf_name f) = ''content-security-policy'' \<and>
          (\<exists>u w. AsciiToLower (hf_value f) = u @ ''nonce-'' @ w)) \<or>
       (AsciiToLower (hf_name f) = ''link'' \<and> LinkCarriesNonce (hf_value f)))"
proof -
  have "AsciiToLower ''content-security-policy'' = ''content-security-policy''" "AsciiToLower ''link'' = ''link''"
    by code_simp+
  then show ?thesis
    by (simp add: never_optimized_iff list_ex_iff nonce_field_def AsciiEqualsIgnoreCase_iff CspCarriesNonce_iff)
qed

text \<open>
  in a Link value without an angle bracket the nonce scan finds the word exactly when it occurs, in any
  case, quoted or not, escaped or not: the skip after a backslash hides no occurrence.
\<close>

theorem LinkCarriesNonce_outside_targets:
  assumes "CHR ''<'' \<notin> set v"
  shows "LinkCarriesNonce v \<longleftrightarrow> (\<exists>u w. AsciiToLower v = u @ ''nonce'' @ w)"
  by (simp only: LinkCarriesNonce_def link_loop_no_target [OF assms] has_nonce_iff)

theorem LinkCarriesNonce_outside_targets_witness: "LinkCarriesNonce ''a; nonce=b''"
proof -
  have "AsciiToLower ''a; nonce=b'' = ''a; '' @ ''nonce'' @ ''=b''" by code_simp
  moreover have "CHR ''<'' \<notin> set ''a; nonce=b''" by simp
  ultimately show ?thesis unfolding LinkCarriesNonce_outside_targets [OF \<open>CHR ''<'' \<notin> set ''a; nonce=b''\<close>] by blast
qed

text \<open>
  a stored block is accepted exactly when it is the encoding of a list of fields whose lengths fit: the
  reader accepts no other byte string, so truncation, padding and a wrong version are refused.
\<close>

theorem ParseHeadersSidecar_iff:
  "ParseHeadersSidecar payload = Some fs \<longleftrightarrow>
    list_all (\<lambda>f. 1 \<le> length (hf_name f) \<and> length (hf_name f) \<le> 255 \<and> length (hf_value f) \<le> 65535) fs \<and>
    length fs \<le> 65535 \<and> payload = encode_sidecar fs"
  by (simp only: ParseHeadersSidecar_eq valid_field_def [abs_def])

end
