(* ===== verification/Personalisation.thy ===== *)
theory Personalisation
  imports Headers_Sidecar
begin

text \<open>
  The ASCII text helpers and the personalisation scan of \<open>lib/cache/html_cache_policy.cc\<close>: a bounded
  walk over the \<open>meta\<close>, \<open>input\<close> and \<open>form\<close> tags of a page that looks for per-client markers.  A
  position in a view is the suffix that starts there.
\<close>

section \<open>Text helpers\<close>

definition AsciiLowerChar :: "char \<Rightarrow> char" where
  "AsciiLowerChar c = (if CHR ''A'' \<le> c \<and> c \<le> CHR ''Z'' then char_of ((of_char c :: nat) OR 0x20) else c)"

definition EqualsIgnoreCase :: "string \<Rightarrow> string \<Rightarrow> bool" where
  "EqualsIgnoreCase a b \<longleftrightarrow> length a = length b \<and> list_all2 (\<lambda>x y. AsciiLowerChar x = AsciiLowerChar y) a b"

definition StartsWithIgnoreCase :: "string \<Rightarrow> string \<Rightarrow> bool" where
  "StartsWithIgnoreCase s prefix \<longleftrightarrow>
     length s \<ge> length prefix \<and> EqualsIgnoreCase (take (length prefix) s) prefix"

definition ContainsIgnoreCase :: "string \<Rightarrow> string \<Rightarrow> bool" where
  "ContainsIgnoreCase haystack needle \<longleftrightarrow>
     (if needle = [] then True
      else if length haystack < length needle then False
      else list_ex (\<lambda>i. EqualsIgnoreCase (sv_substr i (length needle) haystack) needle)
             [0 ..< Suc (length haystack - length needle)])"

definition Lower :: "string \<Rightarrow> string" where
  "Lower s = map AsciiLowerChar s"

definition IsHttpTokenChar :: "char \<Rightarrow> bool" where
  "IsHttpTokenChar c \<longleftrightarrow>
     (CHR ''0'' \<le> c \<and> c \<le> CHR ''9'') \<or> (CHR ''a'' \<le> c \<and> c \<le> CHR ''z'') \<or>
     (CHR ''A'' \<le> c \<and> c \<le> CHR ''Z'') \<or> c \<in> set (''!#$%&'' @ [CHR 0x27] @ ''*+-.^_'' @ [CHR 0x60] @ ''|~'')"

definition IsHttpToken :: "string \<Rightarrow> bool" where
  "IsHttpToken s \<longleftrightarrow> s \<noteq> [] \<and> list_all IsHttpTokenChar s"

definition kMaxHtmlStoreDetailBytes :: nat where
  "kMaxHtmlStoreDetailBytes = 128"

definition SanitizeDetail :: "string \<Rightarrow> string" where
  "SanitizeDetail s =
     map (\<lambda>c. if IsHttpTokenChar c then c else CHR ''_'') (take kMaxHtmlStoreDetailBytes s)"

section \<open>Tags\<close>

definition kMaxTagBytes :: nat where
  "kMaxTagBytes = 4096"

definition IsAsciiSpace :: "char \<Rightarrow> bool" where
  "IsAsciiSpace c \<longleftrightarrow> c = CHR '' '' \<or> c = CHR 0x09 \<or> c = CHR 0x0A \<or> c = CHR 0x0D \<or> c = CHR 0x0C"

text \<open>The offset of the closing bracket in the text after the opening one; \<open>quote\<close> is the open quote.\<close>

fun tag_close :: "char option \<Rightarrow> string \<Rightarrow> nat option" where
  "tag_close quote [] = None"
| "tag_close quote (c # cs) =
     (case quote of
        Some q \<Rightarrow> map_option Suc (tag_close (if c = q then None else Some q) cs)
      | None \<Rightarrow>
          if c = CHR 0x22 \<or> c = CHR 0x27 then map_option Suc (tag_close (Some c) cs)
          else if c = CHR ''>'' then Some 0
          else map_option Suc (tag_close None cs))"

text \<open>The tag at the start of \<open>rest\<close> and whether it is still open at the bound.\<close>

definition TagText :: "string \<Rightarrow> string \<times> bool" where
  "TagText rest =
     (let bounded = take kMaxTagBytes rest
      in case tag_close None (tl bounded) of
           Some i \<Rightarrow> (take (i + 2) bounded, False)
         | None \<Rightarrow> (bounded, True))"

definition attr_stop :: "char \<Rightarrow> bool" where
  "attr_stop c \<longleftrightarrow> IsAsciiSpace c \<or> c = CHR ''='' \<or> c = CHR ''>'' \<or> c = CHR ''/''"

text \<open>The value after an attribute name and the text after that value.\<close>

definition attr_value :: "string \<Rightarrow> string \<times> string" where
  "attr_value t =
     (if t \<noteq> [] \<and> hd t = CHR ''='' then
        (let v = dropWhile IsAsciiSpace (tl t)
         in if v \<noteq> [] \<and> (hd v = CHR 0x22 \<or> hd v = CHR 0x27) then
              (takeWhile (\<lambda>c. c \<noteq> hd v) (tl v), tl (dropWhile (\<lambda>c. c \<noteq> hd v) (tl v)))
            else (takeWhile (\<lambda>c. \<not> IsAsciiSpace c \<and> c \<noteq> CHR ''>'') v,
                  dropWhile (\<lambda>c. \<not> IsAsciiSpace c \<and> c \<noteq> CHR ''>'') v))
      else ([], t))"

lemma length_tl_dropWhile_le: "length (tl (dropWhile P s)) \<le> length s"
  by (metis diff_le_self length_dropWhile_le length_tl order_trans)

lemma length_attr_value_le: "length (snd (attr_value t)) \<le> length t"
proof -
  have "length (dropWhile P (dropWhile IsAsciiSpace (tl t))) \<le> length t" for P
    by (metis diff_le_self length_dropWhile_le length_tl order_trans)
  moreover have "length (tl (dropWhile P (tl (dropWhile IsAsciiSpace (tl t))))) \<le> length t" for P
    by (metis diff_le_self length_dropWhile_le length_tl order_trans)
  ultimately show ?thesis by (simp add: attr_value_def Let_def)
qed

lemma length_attr_value_less: "t \<noteq> [] \<Longrightarrow> hd t = CHR ''='' \<Longrightarrow> length (snd (attr_value t)) < length t"
proof -
  assume t: "t \<noteq> []" "hd t = CHR ''=''"
  have "length (dropWhile P (dropWhile IsAsciiSpace (tl t))) \<le> length (tl t)" for P
    by (metis length_dropWhile_le order_trans)
  moreover have "length (tl (dropWhile P (tl (dropWhile IsAsciiSpace (tl t))))) \<le> length (tl t)" for P
    by (metis diff_le_self length_dropWhile_le length_tl order_trans)
  ultimately have "length (snd (attr_value t)) \<le> length (tl t)" using t by (simp add: attr_value_def Let_def)
  with t show ?thesis by (cases t) auto
qed

text \<open>One attribute: its name, its value, and the text after it.\<close>

definition next_attr :: "string \<Rightarrow> string \<times> string \<times> string" where
  "next_attr t =
     (let attr = takeWhile (\<lambda>c. \<not> attr_stop c) t;
          (val, r) = attr_value (dropWhile IsAsciiSpace (dropWhile (\<lambda>c. \<not> attr_stop c) t))
      in (attr, val, r))"

lemma next_attr_less:
  assumes "t \<noteq> []" "\<not> (IsAsciiSpace (hd t) \<or> hd t = CHR ''/'')" "hd t \<noteq> CHR ''>''" "next_attr t = (a, v, r)"
  shows "length r < length t"
proof -
  let ?u = "dropWhile IsAsciiSpace (dropWhile (\<lambda>c. \<not> attr_stop c) t)"
  have r: "r = snd (attr_value ?u)" using assms(4) by (simp add: next_attr_def Let_def split_beta)
  show ?thesis
  proof (cases "hd t = CHR ''=''")
    case True
    then have "?u = t" using assms(1) by (cases t) (auto simp: attr_stop_def IsAsciiSpace_def)
    then show ?thesis using length_attr_value_less [of t] assms(1) True r by simp
  next
    case False
    then have "\<not> attr_stop (hd t)" using assms(2,3) by (simp add: attr_stop_def)
    then have "length (dropWhile (\<lambda>c. \<not> attr_stop c) t) < length t"
      using assms(1) by (cases t) (auto simp: less_Suc_eq_le length_dropWhile_le)
    moreover have "length ?u \<le> length (dropWhile (\<lambda>c. \<not> attr_stop c) t)" by (rule length_dropWhile_le)
    moreover have "length r \<le> length ?u" unfolding r by (rule length_attr_value_le)
    ultimately show ?thesis by linarith
  qed
qed

lemma find_attribute_less:
  assumes "\<not> (t = [] \<or> hd t = CHR ''>'')" "t = dropWhile (\<lambda>c. IsAsciiSpace c \<or> c = CHR ''/'') tag"
    "(a, v, r) = next_attr t"
  shows "length r < length tag"
proof -
  have "\<not> (IsAsciiSpace (hd t) \<or> hd t = CHR ''/'')"
    using hd_dropWhile [of "\<lambda>c. IsAsciiSpace c \<or> c = CHR ''/''" tag] assms(1,2) by auto
  then have "length r < length t" using assms(1) assms(3) [symmetric] by (auto intro!: next_attr_less [of t a v r])
  moreover have "length t \<le> length tag" using assms(2) by (simp add: length_dropWhile_le)
  ultimately show ?thesis by simp
qed

function find_attribute :: "string \<Rightarrow> string \<Rightarrow> string option" where
  "find_attribute name tag =
     (let t = dropWhile (\<lambda>c. IsAsciiSpace c \<or> c = CHR ''/'') tag
      in if t = [] \<or> hd t = CHR ''>'' then None
         else (case next_attr t of
                 (attr, val, r) \<Rightarrow>
                   if attr \<noteq> [] \<and> EqualsIgnoreCase attr name then Some val else find_attribute name r))"
  by pat_completeness auto
termination
proof (relation "measure (\<lambda>(n, t). length t)")
  fix name tag t a y v r
  assume "t = dropWhile (\<lambda>c. IsAsciiSpace c \<or> c = CHR ''/'') tag" "\<not> (t = [] \<or> hd t = CHR ''>'')"
    "(a, y) = next_attr t" "(v, r) = y"
  then show "((name, r), (name, tag)) \<in> measure (\<lambda>(n, t). length t)"
    using find_attribute_less [of t tag a v r] by simp
qed simp

declare find_attribute.simps [simp del]

definition FindAttribute :: "string \<Rightarrow> nat \<Rightarrow> string \<Rightarrow> string option" where
  "FindAttribute tag tag_name_len name = find_attribute name (drop tag_name_len tag)"

definition IsTagNamed :: "string \<Rightarrow> string \<Rightarrow> bool" where
  "IsTagNamed tag name_with_bracket \<longleftrightarrow>
     StartsWithIgnoreCase tag name_with_bracket \<and>
     (length tag = length name_with_bracket \<or>
      (let nxt = tag ! length name_with_bracket
       in IsAsciiSpace nxt \<or> nxt = CHR ''/'' \<or> nxt = CHR ''>''))"

section \<open>Signals\<close>

definition kSignalNames :: "string list" where
  "kSignalNames =
    [''meta_csrf_token'', ''meta_csrf_param'', ''hidden_token'', ''hidden_csrf'', ''hidden_authenticity'',
     ''hidden_request_verification'', ''hidden_csrfmiddlewaretoken'', ''hidden_wpnonce'', ''post_form_login'',
     ''post_form_checkout'', ''oversized_tag'']"

definition meta_signal :: "string \<Rightarrow> string option" where
  "meta_signal tag =
     (case FindAttribute tag 5 ''name'' of
        None \<Rightarrow> None
      | Some name \<Rightarrow>
          if EqualsIgnoreCase name ''csrf-token'' \<or> EqualsIgnoreCase name ''_csrf'' then Some ''meta_csrf_token''
          else if EqualsIgnoreCase name ''csrf-param'' \<or> EqualsIgnoreCase name ''_csrf_header'' then Some ''meta_csrf_param''
          else None)"

definition input_signal :: "string \<Rightarrow> string option" where
  "input_signal tag =
     (case FindAttribute tag 6 ''type'' of
        None \<Rightarrow> None
      | Some type \<Rightarrow>
          if \<not> EqualsIgnoreCase type ''hidden'' then None
          else
            (case FindAttribute tag 6 ''name'' of
               None \<Rightarrow> None
             | Some name \<Rightarrow>
                 if EqualsIgnoreCase name ''csrfmiddlewaretoken'' then Some ''hidden_csrfmiddlewaretoken''
                 else if EqualsIgnoreCase name ''_token'' then Some ''hidden_token''
                 else if EqualsIgnoreCase name ''_wpnonce'' then Some ''hidden_wpnonce''
                 else if StartsWithIgnoreCase name ''csrf'' \<or> StartsWithIgnoreCase name ''_csrf'' then Some ''hidden_csrf''
                 else if EqualsIgnoreCase name ''authenticity_token'' then Some ''hidden_authenticity''
                 else if EqualsIgnoreCase name ''__RequestVerificationToken'' then Some ''hidden_request_verification''
                 else None))"

definition form_signal :: "string \<Rightarrow> string option" where
  "form_signal tag =
     (case FindAttribute tag 5 ''method'' of
        None \<Rightarrow> None
      | Some method \<Rightarrow>
          if \<not> EqualsIgnoreCase method ''post'' then None
          else
            (case FindAttribute tag 5 ''action'' of
               None \<Rightarrow> None
             | Some action \<Rightarrow>
                 if ContainsIgnoreCase action ''login'' \<or> ContainsIgnoreCase action ''signin'' then Some ''post_form_login''
                 else if ContainsIgnoreCase action ''checkout'' \<or> ContainsIgnoreCase action ''cart''
                 then Some ''post_form_checkout''
                 else None))"

definition SignalForTag :: "string \<Rightarrow> string option" where
  "SignalForTag tag =
     (if IsTagNamed tag ''<meta'' then meta_signal tag
      else if IsTagNamed tag ''<input'' then input_signal tag
      else if IsTagNamed tag ''<form'' then form_signal tag
      else None)"

definition tag_of_interest :: "string \<Rightarrow> bool" where
  "tag_of_interest rest \<longleftrightarrow>
     IsTagNamed rest ''<meta'' \<or> IsTagNamed rest ''<input'' \<or> IsTagNamed rest ''<form''"

definition kPersonalisationScanBytes :: nat where
  "kPersonalisationScanBytes = 64 * 1024"

lemma TagText_nonempty: "rest \<noteq> [] \<Longrightarrow> fst (TagText rest) \<noteq> []"
  by (auto simp: TagText_def Let_def kMaxTagBytes_def split: option.split)

lemma scan_tags_less:
  assumes "sv_find (CHR ''<'') s = Some pos"
  shows "length (tl (drop pos s)) < length s"
    and "(tag, unclosed) = TagText (drop pos s) \<Longrightarrow> length (drop (length tag) (drop pos s)) < length s"
proof -
  have pos: "pos < length s" using assms by (simp add: sv_find_Some)
  then show "length (tl (drop pos s)) < length s" by auto
  assume "(tag, unclosed) = TagText (drop pos s)"
  then have "tag \<noteq> []" using TagText_nonempty [of "drop pos s"] pos by (metis drop_eq_Nil fst_conv not_le)
  then show "length (drop (length tag) (drop pos s)) < length s" using pos by (cases tag) auto
qed

function scan_tags :: "bool \<Rightarrow> string \<Rightarrow> string option" where
  "scan_tags body_continues s =
     (case sv_find (CHR ''<'') s of
        None \<Rightarrow> None
      | Some pos \<Rightarrow>
          (let rest = drop pos s
           in if \<not> tag_of_interest rest then scan_tags body_continues (tl rest)
              else
                (case TagText rest of
                   (tag, unclosed) \<Rightarrow>
                     if unclosed \<and> (length tag = kMaxTagBytes \<or> body_continues) then Some ''oversized_tag''
                     else (case SignalForTag tag of
                             Some signal \<Rightarrow> Some signal
                           | None \<Rightarrow> scan_tags body_continues (drop (length tag) rest)))))"
  by pat_completeness auto
termination
  by (relation "measure (\<lambda>(b, s). length s)") (auto dest: scan_tags_less)

declare scan_tags.simps [simp del]

definition ScanForSignal :: "string \<Rightarrow> bool \<Rightarrow> string option" where
  "ScanForSignal body_prefix body_continues =
     (if length body_prefix > kPersonalisationScanBytes
      then scan_tags True (take kPersonalisationScanBytes body_prefix)
      else scan_tags body_continues body_prefix)"

definition FindPersonalisationSignal :: "string \<Rightarrow> string option" where
  "FindPersonalisationSignal body_prefix = ScanForSignal body_prefix False"

section \<open>Lemmas\<close>

lemma AsciiLowerChar_LowerChar: "AsciiLowerChar c = LowerChar c"
  by (simp add: AsciiLowerChar_def fold_az_def [symmetric] fold_az_LowerChar)

lemma EqualsIgnoreCase_iff: "EqualsIgnoreCase a b \<longleftrightarrow> AsciiToLower a = AsciiToLower b"
  by (auto simp: EqualsIgnoreCase_def AsciiLowerChar_LowerChar AsciiToLower_def list_all2_conv_all_nth
      list_eq_iff_nth_eq [of "map LowerChar a"])

lemma Lower_AsciiToLower: "Lower s = AsciiToLower s"
  by (simp add: Lower_def AsciiToLower_def AsciiLowerChar_LowerChar)

lemma SanitizeDetail_token:
  "length (SanitizeDetail s) \<le> 128" "list_all IsHttpTokenChar (SanitizeDetail s)" "SanitizeDetail s = [] \<longleftrightarrow> s = []"
proof -
  have "IsHttpTokenChar (CHR ''_'')" by (simp add: IsHttpTokenChar_def)
  then show "list_all IsHttpTokenChar (SanitizeDetail s)" by (auto simp: SanitizeDetail_def list_all_iff)
  show "length (SanitizeDetail s) \<le> 128" "SanitizeDetail s = [] \<longleftrightarrow> s = []"
    by (simp_all add: SanitizeDetail_def kMaxHtmlStoreDetailBytes_def)
qed

lemma tag_close_append: "tag_close q t = Some i \<Longrightarrow> tag_close q (t @ u) = Some i"
proof (induction t arbitrary: q i)
  case (Cons c t)
  then show ?case by (cases q) (fastforce split: if_splits)+
qed simp

lemma tag_close_less: "tag_close q t = Some i \<Longrightarrow> i < length t"
proof (induction t arbitrary: q i)
  case (Cons c t)
  then show ?case by (cases q) (fastforce split: if_splits)+
qed simp

lemma TagText_closed:
  assumes "tag_close None t = Some (length t - 1)" "Suc (length t) \<le> kMaxTagBytes"
  shows "TagText (CHR ''<'' # t @ post) = (CHR ''<'' # t, False)"
proof -
  from tag_close_less [OF assms(1)] have t: "t \<noteq> []" by auto
  have bounded: "take kMaxTagBytes (CHR ''<'' # t @ post) = CHR ''<'' # t @ take (kMaxTagBytes - Suc (length t)) post"
    using assms(2) by (simp add: take_Cons')
  have "tag_close None (t @ take (kMaxTagBytes - Suc (length t)) post) = Some (length t - 1)"
    by (rule tag_close_append [OF assms(1)])
  then show ?thesis
    using t unfolding TagText_def bounded Let_def by simp
qed

lemma sv_find_first: "c \<notin> set pre \<Longrightarrow> sv_find c (pre @ c # post) = Some (length pre)"
  by (simp add: sv_simps)

lemma SignalForTag_names: "SignalForTag tag = Some s \<Longrightarrow> s \<in> set kSignalNames"
  by (auto simp: SignalForTag_def meta_signal_def input_signal_def form_signal_def kSignalNames_def
      split: if_splits option.splits)

lemma scan_tags_names: "scan_tags b s = Some sig \<Longrightarrow> sig \<in> set kSignalNames"
proof (induction b s rule: scan_tags.induct)
  case (1 b s)
  have over: "''oversized_tag'' \<in> set kSignalNames" by (simp add: kSignalNames_def)
  show ?case
    using "1.prems" "1.IH" over SignalForTag_names
    by (subst (asm) scan_tags.simps) (auto simp: Let_def split: option.splits if_splits prod.splits)
qed

lemma ScanForSignal_names: "ScanForSignal body cont = Some sig \<Longrightarrow> sig \<in> set kSignalNames"
  using scan_tags_names by (auto simp: ScanForSignal_def split: if_splits)

section \<open>Properties\<close>

text \<open>
  the walk reads each tag of interest whole: text without an opening bracket is skipped, and a tag that
  closes within the 4 KiB bound is judged by its own text alone; when it is no signal the walk goes on right
  after it.
\<close>

theorem scan_tags_reads_each_tag:
  assumes "CHR ''<'' \<notin> set pre" "tag_of_interest (CHR ''<'' # t @ post)"
    and "tag_close None t = Some (length t - 1)" "Suc (length t) \<le> 4096"
  shows "scan_tags cont (pre @ CHR ''<'' # t @ post) =
    (case SignalForTag (CHR ''<'' # t) of Some sig \<Rightarrow> Some sig | None \<Rightarrow> scan_tags cont post)"
proof -
  have find: "sv_find (CHR ''<'') (pre @ CHR ''<'' # t @ post) = Some (length pre)"
    by (rule sv_find_first [OF assms(1)])
  have "TagText (CHR ''<'' # t @ post) = (CHR ''<'' # t, False)"
    using assms(3,4) by (intro TagText_closed) (simp_all add: kMaxTagBytes_def)
  then show ?thesis
    using assms(2) by (subst scan_tags.simps) (simp add: find Let_def split: option.split)
qed

theorem scan_tags_reads_each_tag_witness:
  "scan_tags False (''a<input type=hidden name=_token>b'') = Some ''hidden_token''"
proof -
  let ?t = "''input type=hidden name=_token>''"
  have "tag_of_interest (CHR ''<'' # ?t @ ''b'')" "tag_close None ?t = Some (length ?t - 1)"
      "SignalForTag (CHR ''<'' # ?t) = Some ''hidden_token''" by code_simp+
  then show ?thesis using scan_tags_reads_each_tag [of "''a''" ?t "''b''" False] by simp
qed

lemma tag_close_open_quote: "c \<notin> set t \<Longrightarrow> tag_close (Some c) t = None"
  by (induction t) auto

lemma scan_tags_Nil: "scan_tags b [] = None"
  by (subst scan_tags.simps) simp

lemma meta_stray_quote:
  assumes "CHR 0x27 \<notin> set rest"
  defines "page \<equiv> ''<meta a=x'' @ [CHR 0x27] @ ''>'' @ rest"
  shows "tag_of_interest page" "tag_close None (tl page) = None" "SignalForTag page = None"
proof -
  have name: "IsTagNamed page ''<meta''"
    by (simp add: page_def IsTagNamed_def StartsWithIgnoreCase_def EqualsIgnoreCase_iff Let_def IsAsciiSpace_def)
  then show "tag_of_interest page" by (simp add: tag_of_interest_def)
  show "tag_close None (tl page) = None"
    using tag_close_open_quote [OF assms(1)] by (simp add: page_def)
  have "FindAttribute page 5 ''name'' = None"
    by (simp add: page_def FindAttribute_def find_attribute.simps next_attr_def Let_def IsAsciiSpace_def
        attr_stop_def attr_value_def EqualsIgnoreCase_iff AsciiToLower_def)
  with name show "SignalForTag page = None" by (simp add: SignalForTag_def meta_signal_def)
qed



end
