(* ===== verification/Http_Date.thy ===== *)
theory Http_Date
  imports Origin_Cache_Control "HOL-Library.Signed_Division" "HOL-Library.Monad_Syntax"
begin

text \<open>
  HTTP dates: the calendar arithmetic and \<open>ParseHttpDateSeconds\<close> of
  \<open>lib/cache/html_cache_policy.cc\<close>.  64-bit signed values are \<^typ>\<open>int\<close> (a year has at most four
  digits, so no sum leaves 64 bits), division truncates as in C++, and the unsigned month and day are
  \<^typ>\<open>nat\<close>: they are at most 12 and 31 where they are used.
\<close>

section \<open>Digits\<close>

text \<open>The accumulator is a 32-bit unsigned value, so a long run of digits wraps.\<close>

fun digits_loop :: "nat \<Rightarrow> string \<Rightarrow> nat option" where
  "digits_loop v [] = Some v"
| "digits_loop v (c # cs) =
     (if c < CHR ''0'' \<or> c > CHR ''9'' then None
      else digits_loop ((v * 10 + digit_value c) mod 2 ^ 32) cs)"

definition ParseDigits :: "string \<Rightarrow> nat option" where
  "ParseDigits s = digits_loop 0 s"

section \<open>Calendar arithmetic\<close>

definition DaysFromCivil :: "int \<Rightarrow> nat \<Rightarrow> nat \<Rightarrow> int" where
  "DaysFromCivil y0 m d =
     (let y = y0 - (if m \<le> 2 then 1 else 0);
          era = (if y \<ge> 0 then y else y - 399) sdiv 400;
          yoe = nat (y - era * 400);
          doy = (153 * (if m > 2 then m - 3 else m + 9) + 2) div 5 + d - 1;
          doe = yoe * 365 + yoe div 4 - yoe div 100 + doy
      in era * 146097 + int doe - 719468)"

definition IsLeap :: "int \<Rightarrow> bool" where
  "IsLeap y \<longleftrightarrow> (y smod 4 = 0 \<and> y smod 100 \<noteq> 0) \<or> y smod 400 = 0"

definition DaysInMonth :: "int \<Rightarrow> nat \<Rightarrow> nat" where
  "DaysInMonth y m =
     (if m = 2 \<and> IsLeap y then 29 else [31, 28, 31, 30, 31, 30, 31, 31, 30, 31, 30, 31] ! (m - 1))"

definition SaturateU32 :: "int \<Rightarrow> u32" where
  "SaturateU32 v = (if v \<le> 0 then 0 else if v > 4294967295 then 0xFFFFFFFF else word_of_int v)"

definition YearFromDays :: "int \<Rightarrow> int" where
  "YearFromDays days0 =
     (let days = days0 + 719468;
          era = (if days \<ge> 0 then days else days - 146096) sdiv 146097;
          doe = nat (days - era * 146097);
          yoe = (doe - doe div 1460 + doe div 36524 - doe div 146096) div 365;
          doy = doe - (365 * yoe + yoe div 4 - yoe div 100);
          mp = (5 * doy + 2) div 153;
          month = (if mp < 10 then mp + 3 else mp - 9)
      in int yoe + era * 400 + (if month \<le> 2 then 1 else 0))"

definition ResolveTwoDigitYear :: "nat \<Rightarrow> u32 \<Rightarrow> int" where
  "ResolveTwoDigitYear yy now_seconds =
     (let now_year = YearFromDays (uint now_seconds sdiv 86400);
          year = now_year - (now_year smod 100) + int yy
      in if year > now_year + 50 then year - 100
         else if year + 100 \<le> now_year + 50 then year + 100
         else year)"

section \<open>The three date forms\<close>

definition kShortDays :: "string list" where
  "kShortDays = [''Sun'', ''Mon'', ''Tue'', ''Wed'', ''Thu'', ''Fri'', ''Sat'']"

definition kLongDays :: "string list" where
  "kLongDays = [''Sunday'', ''Monday'', ''Tuesday'', ''Wednesday'', ''Thursday'', ''Friday'', ''Saturday'']"

definition kMonths :: "string list" where
  "kMonths = [''Jan'', ''Feb'', ''Mar'', ''Apr'', ''May'', ''Jun'', ''Jul'', ''Aug'', ''Sep'', ''Oct'', ''Nov'', ''Dec'']"

definition IndexIn :: "string \<Rightarrow> string list \<Rightarrow> int" where
  "IndexIn s names = (case List.find (\<lambda>i. names ! i = s) [0 ..< length names] of Some i \<Rightarrow> int i | None \<Rightarrow> -1)"

record date_text =
  dt_weekday :: int
  dt_day :: string
  dt_month :: string
  dt_time :: string
  dt_year :: int

definition imf_fixdate :: "string \<Rightarrow> date_text option" where
  "imf_fixdate value =
     do {
       check (\<not> (value ! 4 \<noteq> CHR '' '' \<or> value ! 7 \<noteq> CHR '' '' \<or> value ! 11 \<noteq> CHR '' '' \<or>
                 value ! 16 \<noteq> CHR '' '' \<or> value ! 25 \<noteq> CHR '' '' \<or> drop 26 value \<noteq> ''GMT''));
       year \<leftarrow> ParseDigits (sv_substr 12 4 value);
       Some \<lparr>dt_weekday = IndexIn (sv_substr 0 3 value) kShortDays, dt_day = sv_substr 5 2 value,
             dt_month = sv_substr 8 3 value, dt_time = sv_substr 17 8 value, dt_year = int year\<rparr>
     }"

definition asctime_date :: "string \<Rightarrow> date_text option" where
  "asctime_date value =
     do {
       check (\<not> (value ! 7 \<noteq> CHR '' '' \<or> value ! 10 \<noteq> CHR '' '' \<or> value ! 19 \<noteq> CHR '' ''));
       let day_text = sv_substr 8 2 value;
       let day_text = (if hd day_text = CHR '' '' then tl day_text else day_text);
       year \<leftarrow> ParseDigits (sv_substr 20 4 value);
       Some \<lparr>dt_weekday = IndexIn (sv_substr 0 3 value) kShortDays, dt_day = day_text,
             dt_month = sv_substr 4 3 value, dt_time = sv_substr 11 8 value, dt_year = int year\<rparr>
     }"

definition rfc850_date :: "string \<Rightarrow> u32 \<Rightarrow> date_text option" where
  "rfc850_date value now_seconds =
     do {
       comma \<leftarrow> sv_find (CHR '','') value;
       let rest = drop (Suc comma) value;
       check (\<not> (length rest \<noteq> 23 \<or> rest ! 0 \<noteq> CHR '' '' \<or> rest ! 3 \<noteq> CHR ''-'' \<or> rest ! 7 \<noteq> CHR ''-'' \<or>
                 rest ! 10 \<noteq> CHR '' '' \<or> rest ! 19 \<noteq> CHR '' '' \<or> drop 20 rest \<noteq> ''GMT''));
       two_digit_year \<leftarrow> ParseDigits (sv_substr 8 2 rest);
       Some \<lparr>dt_weekday = IndexIn (take comma value) kLongDays, dt_day = sv_substr 1 2 rest,
             dt_month = sv_substr 4 3 rest, dt_time = sv_substr 11 8 rest,
             dt_year = ResolveTwoDigitYear two_digit_year now_seconds\<rparr>
     }"

definition date_seconds :: "date_text \<Rightarrow> int option" where
  "date_seconds t =
     do {
       check (\<not> dt_weekday t < 0);
       let month_index = IndexIn (dt_month t) kMonths;
       check (\<not> month_index < 0);
       let month = nat month_index + 1;
       let time_text = dt_time t;
       check (\<not> (dt_day t = [] \<or> time_text ! 2 \<noteq> CHR '':'' \<or> time_text ! 5 \<noteq> CHR '':''));
       day \<leftarrow> ParseDigits (dt_day t);
       hour \<leftarrow> ParseDigits (sv_substr 0 2 time_text);
       minute \<leftarrow> ParseDigits (sv_substr 3 2 time_text);
       second \<leftarrow> ParseDigits (sv_substr 6 2 time_text);
       check (\<not> (day < 1 \<or> day > DaysInMonth (dt_year t) month));
       check (\<not> (hour > 23 \<or> minute > 59 \<or> second > 59));
       let days = DaysFromCivil (dt_year t) month day;
       let expected = ((days smod 7) + 7 + 4) smod 7;
       check (\<not> expected \<noteq> dt_weekday t);
       Some (days * 86400 + int hour * 3600 + int minute * 60 + int second)
     }"

definition ParseHttpDateSeconds :: "string \<Rightarrow> u32 \<Rightarrow> int option" where
  "ParseHttpDateSeconds value0 now_seconds =
     (let value = TrimOws value0
      in do {
           t \<leftarrow> (if length value = 29 \<and> value ! 3 = CHR '','' then imf_fixdate value
                else if length value = 24 \<and> value ! 3 = CHR '' '' then asctime_date value
                else rfc850_date value now_seconds);
           date_seconds t
         })"

section \<open>Lemmas on the calendar\<close>

lemma sdiv_numeral: "x sdiv numeral n = (if x \<ge> 0 then x div numeral n else - ((- x) div numeral n))" for x :: int
  by (simp add: signed_divide_int_def sgn_if)

lemma era_400: "(if y \<ge> 0 then y else y - 399) sdiv 400 = y div (400 :: int)"
  unfolding sdiv_numeral by (cases "y \<ge> 0"; simp; presburger)

lemma smod_0_iff: "x smod n = 0 \<longleftrightarrow> x mod n = (0 :: int)"
  by (auto simp: signed_modulo_int_def sgn_if mod_eq_0_iff_dvd)

lemma IsLeap_mod: "IsLeap y \<longleftrightarrow> (y mod 4 = 0 \<and> y mod 100 \<noteq> 0) \<or> y mod 400 = 0"
  by (simp add: IsLeap_def smod_0_iff)

text \<open>The era arithmetic is the usual count of leap days.\<close>

lemma leap_days_400:
  fixes y :: int
  shows "(y div 400) * 146097 + (y mod 400) * 365 + (y mod 400) div 4 - (y mod 400) div 100 =
    365 * y + y div 4 - y div 100 + y div 400"
proof -
  define q r where "q = y div 400" and "r = y mod 400"
  have y: "y = r + 400 * q" by (simp add: q_def r_def)
  have "y div 4 = (r + (100 * q) * 4) div 4" "y div 100 = (r + (4 * q) * 100) div 100" by (simp_all add: y)
  then have "y div 4 = 100 * q + r div 4" "y div 100 = 4 * q + r div 100"
    by (simp_all only: div_mult_self1 zero_neq_numeral [symmetric] not_False_eq_True)
  then show ?thesis unfolding q_def [symmetric] r_def [symmetric] using y by linarith
qed

definition leap_days :: "int \<Rightarrow> int" where
  "leap_days y = y div 4 - y div 100 + y div 400"

lemma DaysFromCivil_closed:
  assumes "1 \<le> d"
  shows "DaysFromCivil y0 m d =
    (let y = y0 - (if m \<le> 2 then 1 else 0)
     in 365 * y + leap_days y + int ((153 * (if m > 2 then m - 3 else m + 9) + 2) div 5 + d - 1) - 719468)"
proof -
  define y where "y = y0 - (if m \<le> 2 then 1 else 0)"
  define doy where "doy = (153 * (if m > 2 then m - 3 else m + 9) + 2) div 5 + d - 1"
  define r where "r = nat (y mod 400)"
  have r: "int r = y mod 400" "r < 400" by (simp_all add: r_def)
  have "r div 100 \<le> r * 365 + r div 4" by (simp add: div_le_mono2 trans_le_add2)
  then have "int (r * 365 + r div 4 - r div 100 + doy) = y mod 400 * 365 + (y mod 400) div 4 - (y mod 400) div 100 + int doy"
    using r by (simp add: of_nat_diff zdiv_int)
  moreover have "nat (y - y div 400 * 400) = r" by (simp add: r_def minus_div_mult_eq_mod)
  ultimately show ?thesis
    using leap_days_400 [of y]
    unfolding DaysFromCivil_def Let_def era_400 y_def [symmetric] doy_def [symmetric] leap_days_def by simp
qed

text \<open>The day after a date in the civil calendar.\<close>

fun next_day :: "int \<times> nat \<times> nat \<Rightarrow> int \<times> nat \<times> nat" where
  "next_day (y, m, d) =
     (if d < DaysInMonth y m then (y, m, d + 1) else if m < 12 then (y, m + 1, 1) else (y + 1, 1, 1))"

definition civil_date :: "int \<Rightarrow> nat \<Rightarrow> nat \<Rightarrow> bool" where
  "civil_date y m d \<longleftrightarrow> 1 \<le> m \<and> m \<le> 12 \<and> 1 \<le> d \<and> d \<le> DaysInMonth y m"

lemma month_cases:
  fixes m :: nat
  assumes "1 \<le> m" "m \<le> 12"
  obtains "m = 1" | "m = 2" | "m = 3" | "m = 4" | "m = 5" | "m = 6" | "m = 7" | "m = 8" | "m = 9" | "m = 10"
    | "m = 11" | "m = 12"
proof -
  have "m = 1 \<or> m = 2 \<or> m = 3 \<or> m = 4 \<or> m = 5 \<or> m = 6 \<or> m = 7 \<or> m = 8 \<or> m = 9 \<or> m = 10 \<or> m = 11 \<or> m = 12"
    using assms by presburger
  then show ?thesis using that by blast
qed

lemma div_pred: "n > 0 \<Longrightarrow> y div n = (y - 1) div n + (if y mod n = 0 then 1 else 0)" for y n :: int
proof -
  assume "n > 0"
  show ?thesis
  proof (cases "y mod n = 0")
    case True
    then obtain k where k: "y = n * k" by (auto simp: mod_eq_0_iff_dvd)
    have "(n * k - 1) div n = k - 1"
      using \<open>n > 0\<close> by (intro int_div_pos_eq [where r = "n - 1"]) (auto simp: algebra_simps)
    with True k \<open>n > 0\<close> show ?thesis by simp
  next
    case False
    define r where "r = y mod n"
    have "0 \<le> r" "r < n" "r \<noteq> 0" "y = n * (y div n) + r" using \<open>n > 0\<close> False by (simp_all add: r_def)
    then have "(y - 1) div n = y div n"
      by (intro int_div_pos_eq [where r = "r - 1"]) linarith+
    with False show ?thesis by simp
  qed
qed

lemma leap_step:
  fixes y :: int
  shows "leap_days y = leap_days (y - 1) + (if IsLeap y then 1 else 0)"
proof -
  have sum: "a - b + c = a' - b' + c' + s" if "a = a' + p" "b = b' + q" "c = c' + r" "p - q + r = s"
    for a b c a' b' c' p q r s :: int
    using that by linarith
  have "y mod 400 = 0 \<Longrightarrow> y mod 100 = 0" "y mod 100 = 0 \<Longrightarrow> y mod 4 = 0"
    using dvd_trans [of 100 400 y] dvd_trans [of 4 100 y] by (simp_all add: mod_eq_0_iff_dvd)
  then have "(if y mod 4 = 0 then 1 else 0) - (if y mod 100 = 0 then 1 else 0) + (if y mod 400 = 0 then 1 else 0) =
      (if IsLeap y then 1 else (0 :: int))"
    by (cases "y mod 4 = 0"; cases "y mod 100 = 0"; cases "y mod 400 = 0"; simp only: IsLeap_mod simp_thms if_True if_False; simp)
  from sum [OF div_pred div_pred div_pred this] show ?thesis unfolding leap_days_def by simp
qed

lemma DaysInMonth_pos: "1 \<le> m \<Longrightarrow> m \<le> 12 \<Longrightarrow> 1 \<le> DaysInMonth y m"
  by (erule (1) month_cases) (simp_all add: DaysInMonth_def)

lemma month_step:
  assumes "1 \<le> m" "m < 12"
  shows "DaysFromCivil y (m + 1) 1 = DaysFromCivil y m (DaysInMonth y m) + 1"
proof -
  have "m \<le> 12" using assms by simp
  note pos = DaysInMonth_pos [OF assms(1) this, of y]
  from assms(1) \<open>m \<le> 12\<close> show ?thesis
  proof (rule month_cases)
    assume "m = 2"
    then show ?thesis using leap_step [of y] by (simp add: DaysFromCivil_closed Let_def DaysInMonth_def)
  qed (use assms(2) in \<open>simp_all add: DaysFromCivil_closed Let_def DaysInMonth_def\<close>)
qed

lemma day_step: "1 \<le> d \<Longrightarrow> DaysFromCivil y m (d + 1) = DaysFromCivil y m d + 1"
  by (simp add: DaysFromCivil_closed Let_def)

lemma year_step: "DaysFromCivil (y + 1) 1 1 = DaysFromCivil y 12 31 + 1"
  by (simp add: DaysFromCivil_closed Let_def)

lemma next_day_DaysFromCivil:
  assumes "civil_date y m d" "next_day (y, m, d) = (y', m', d')"
  shows "DaysFromCivil y' m' d' = DaysFromCivil y m d + 1 \<and> civil_date y' m' d'"
proof -
  have m: "1 \<le> m" "m \<le> 12" "1 \<le> d" "d \<le> DaysInMonth y m" using assms(1) by (simp_all add: civil_date_def)
  consider "d < DaysInMonth y m" | "d = DaysInMonth y m" "m < 12" | "d = DaysInMonth y m" "m = 12"
    using m(2,4) by linarith
  then show ?thesis
  proof cases
    case 1
    with assms(2) have "y' = y" "m' = m" "d' = d + 1" by simp_all
    with 1 m day_step [of d y m] show ?thesis by (simp add: civil_date_def)
  next
    case 2
    with assms(2) have "y' = y" "m' = m + 1" "d' = 1" by simp_all
    with 2 m month_step [of m y] DaysInMonth_pos [of "m + 1" y] show ?thesis by (simp add: civil_date_def)
  next
    case 3
    have "DaysInMonth y 12 = 31" "DaysInMonth (y + 1) 1 = 31" by (simp_all add: DaysInMonth_def)
    moreover from 3 assms(2) have "y' = y + 1" "m' = 1" "d' = 1" by simp_all
    ultimately show ?thesis using 3 year_step [of y] by (simp add: civil_date_def)
  qed
qed

section \<open>Reading a printed date\<close>

definition two_digits :: "nat \<Rightarrow> string" where
  "two_digits n = [char_of (48 + n div 10), char_of (48 + n mod 10)]"

text \<open>The preferred form of RFC 9110 for a date whose weekday index is \<open>w\<close>.\<close>

definition imf_date :: "nat \<Rightarrow> nat \<Rightarrow> nat \<Rightarrow> nat \<Rightarrow> nat \<Rightarrow> nat \<Rightarrow> nat \<Rightarrow> string" where
  "imf_date w y m d h mi s =
     kShortDays ! w @ '', '' @ two_digits d @ '' '' @ kMonths ! (m - 1) @ '' '' @
     two_digits (y div 100) @ two_digits (y mod 100) @ '' '' @
     two_digits h @ '':'' @ two_digits mi @ '':'' @ two_digits s @ '' GMT''"

lemma digit_char: "n < 10 \<Longrightarrow> digits_loop v (char_of (48 + n) # cs) = digits_loop ((v * 10 + n) mod 2 ^ 32) cs"
  by (simp add: less_char_def digit_value_def)

lemma digits_loop_two:
  assumes "n < 100" "v < 1000"
  shows "digits_loop v (two_digits n @ cs) = digits_loop (v * 100 + n) cs"
proof -
  have d: "n div 10 < 10" "n mod 10 < 10" using assms(1) by (simp_all add: less_mult_imp_div_less)
  have "(v * 10 + n div 10) mod 2 ^ 32 = v * 10 + n div 10" using assms d by simp
  moreover have "(v * 10 + n div 10) * 10 + n mod 10 = v * 100 + n"
    by (simp add: add_mult_distrib)
  moreover have "(v * 100 + n) mod 2 ^ 32 = v * 100 + n" using assms by simp
  ultimately show ?thesis by (simp only: two_digits_def append.simps digit_char d)
qed

lemma ParseDigits_two: "n < 100 \<Longrightarrow> ParseDigits (two_digits n) = Some n"
  using digits_loop_two [of n 0 "[]"] by (simp add: ParseDigits_def)

lemma ParseDigits_four:
  assumes "n < 10000"
  shows "ParseDigits (two_digits (n div 100) @ two_digits (n mod 100)) = Some n"
proof -
  have "n div 100 < 100" "n mod 100 < 100" using assms by (simp_all add: less_mult_imp_div_less)
  then show ?thesis
    using digits_loop_two [of "n div 100" 0 "two_digits (n mod 100)"] digits_loop_two [of "n mod 100" "n div 100" "[]"]
    by (simp add: ParseDigits_def)
qed

lemma weekday_expected: "((days smod 7) + 7 + 4) smod 7 = (days + 4) mod (7 :: int)"
proof -
  define b where "b = (sgn days \<noteq> sgn (7 :: int) \<and> \<not> 7 dvd days)"
  have eq: "days smod 7 = days mod 7 - 7 * of_bool b"
    unfolding b_def by (rule signed_modulo_int_eq_modulo_int)
  have "0 \<le> days mod 7" by simp
  then have "0 \<le> days smod 7 + 7 + 4" unfolding eq by (cases b) simp_all
  then have "((days smod 7) + 7 + 4) smod 7 = (days mod 7 - 7 * of_bool b + 7 + 4) mod 7"
    unfolding eq [symmetric] by (intro smod_mod_positive) simp_all
  also have "\<dots> = (days + 4) mod 7"
  proof (cases b)
    case True
    then show ?thesis by (simp add: mod_add_left_eq)
  next
    case False
    then have "(days mod 7 - 7 * of_bool b + 7 + 4) mod 7 = (days mod 7 + 4 + 7) mod 7" by simp
    also have "\<dots> = (days + 4) mod 7" by (simp only: mod_add_self2 mod_add_left_eq)
    finally show ?thesis .
  qed
  finally show ?thesis .
qed

lemma kShortDays_entry:
  assumes "w < 7"
  obtains a b c where "kShortDays ! w = [a, b, c]" "IndexIn [a, b, c] kShortDays = int w" "\<not> is_ows a"
proof -
  have "list_all (\<lambda>w. length (kShortDays ! w) = 3 \<and> IndexIn (kShortDays ! w) kShortDays = int w \<and>
      \<not> is_ows (hd (kShortDays ! w))) [0 ..< 7]" by code_simp
  with assms have "length (kShortDays ! w) = 3" "IndexIn (kShortDays ! w) kShortDays = int w" "\<not> is_ows (hd (kShortDays ! w))"
    by (simp_all add: list_all_iff)
  then show ?thesis using that by (auto simp: numeral_3_eq_3 length_Suc_conv)
qed

lemma kMonths_entry:
  assumes "k < 12"
  obtains a b c where "kMonths ! k = [a, b, c]" "IndexIn [a, b, c] kMonths = int k"
proof -
  have "list_all (\<lambda>w. length (kMonths ! w) = 3 \<and> IndexIn (kMonths ! w) kMonths = int w) [0 ..< 12]" by code_simp
  with assms have "length (kMonths ! k) = 3" "IndexIn (kMonths ! k) kMonths = int k"
    by (simp_all add: list_all_iff)
  then show ?thesis using that by (auto simp: numeral_3_eq_3 length_Suc_conv)
qed

lemma YearFromDays_nonneg:
  assumes "0 \<le> days"
  shows "0 \<le> YearFromDays days"
proof -
  have era: "0 \<le> (if 0 \<le> days + 719468 then days + 719468 else days + 719468 - 146096) sdiv 146097"
    using assms by (simp add: sdiv_numeral pos_imp_zdiv_nonneg_iff)
  have one: "0 \<le> (if P then 1 else (0 :: int))" for P by simp
  show ?thesis
    unfolding YearFromDays_def Let_def
    by (intro add_nonneg_nonneg mult_nonneg_nonneg era one of_nat_0_le_iff zero_le_numeral)
qed

section \<open>Properties\<close>

text \<open>
  C28: the day number is the calendar's: 1970-01-01 is day 0, and the day after a date (with its month
  lengths and leap years) has the next number, for every year.
\<close>

theorem DaysFromCivil_counts_days:
  assumes "civil_date y m d" "next_day (y, m, d) = (y', m', d')"
  shows "DaysFromCivil 1970 1 1 = 0 \<and> DaysFromCivil y' m' d' = DaysFromCivil y m d + 1 \<and> civil_date y' m' d'"
proof -
  have "DaysFromCivil 1970 1 1 = 0" by (simp add: DaysFromCivil_closed Let_def leap_days_def)
  with next_day_DaysFromCivil [OF assms] show ?thesis by simp
qed

theorem DaysFromCivil_counts_days_witness:
  "DaysFromCivil 2000 3 1 = DaysFromCivil 2000 2 29 + 1"
  using DaysFromCivil_counts_days [of 2000 2 29 2000 3 1]
  by (simp add: civil_date_def DaysInMonth_def IsLeap_mod)

text \<open>
  C29: a date printed in the preferred form with its own weekday is read back as its second count; the year
  has up to four digits and the time is within the day.
\<close>

theorem ParseHttpDate_imf:
  assumes date: "civil_date (int y) m d" "y < 10000" and time: "h < 24" "mi < 60" "s < 60"
    and w: "int w = (DaysFromCivil (int y) m d + 4) mod 7"
  shows "ParseHttpDateSeconds (imf_date w y m d h mi s) now =
    Some (DaysFromCivil (int y) m d * 86400 + int h * 3600 + int mi * 60 + int s)"
proof -
  have m: "1 \<le> m" "m \<le> 12" "1 \<le> d" "d \<le> DaysInMonth (int y) m"
    using date(1) by (simp_all add: civil_date_def)
  have "DaysInMonth (int y) m \<le> 31"
    using m(1,2) by (rule month_cases) (simp_all add: DaysInMonth_def)
  with m have d: "d < 100" by linarith
  have "w < 7" using w pos_mod_bound [of 7 "DaysFromCivil (int y) m d + 4"] by linarith
  then obtain a b c where day: "kShortDays ! w = [a, b, c]" "IndexIn [a, b, c] kShortDays = int w" "\<not> is_ows a"
    by (rule kShortDays_entry)
  from m have "m - 1 < 12" by simp
  then obtain e f g where month: "kMonths ! (m - 1) = [e, f, g]" "IndexIn [e, f, g] kMonths = int (m - 1)"
    by (rule kMonths_entry)
  define v where "v = imf_date w y m d h mi s"
  have explicit: "v = [a, b, c, CHR '','', CHR '' ''] @ two_digits d @ [CHR '' '', e, f, g, CHR '' ''] @
      two_digits (y div 100) @ two_digits (y mod 100) @ [CHR '' ''] @ two_digits h @ [CHR '':''] @ two_digits mi @
      [CHR '':''] @ two_digits s @ '' GMT''"
    unfolding v_def imf_date_def day month by simp
  have trim: "TrimOws v = v"
    unfolding TrimOws_def by (rule trim_id) (use day(3) in \<open>simp add: explicit is_ows_def\<close>)
  have len: "length v = 29" "v ! 3 = CHR '',''" by (simp_all add: explicit two_digits_def)
  have "imf_fixdate v = Some \<lparr>dt_weekday = int w, dt_day = two_digits d, dt_month = [e, f, g],
      dt_time = two_digits h @ [CHR '':''] @ two_digits mi @ [CHR '':''] @ two_digits s, dt_year = int y\<rparr>"
    using ParseDigits_four [OF date(2)]
    by (simp add: imf_fixdate_def check_def explicit two_digits_def sv_substr_def day)
  note parsed = trim len this
  have "Suc (nat (int m - 1)) = m" using m(1) by simp
  moreover have "(11 + DaysFromCivil (int y) m d smod 7) smod 7 = int w"
    using weekday_expected [of "DaysFromCivil (int y) m d"] w by (simp add: add.commute)
  ultimately have "date_seconds \<lparr>dt_weekday = int w, dt_day = two_digits d, dt_month = [e, f, g],
      dt_time = two_digits h @ [CHR '':''] @ two_digits mi @ [CHR '':''] @ two_digits s, dt_year = int y\<rparr> =
      Some (DaysFromCivil (int y) m d * 86400 + int h * 3600 + int mi * 60 + int s)"
    using ParseDigits_two [OF d] ParseDigits_two [of h] ParseDigits_two [of mi] ParseDigits_two [of s] time m
    by (simp add: date_seconds_def check_def month Let_def sv_substr_def two_digits_def not_less)
  with parsed show ?thesis by (simp add: ParseHttpDateSeconds_def v_def [symmetric])
qed

theorem ParseHttpDate_imf_witness:
  "ParseHttpDateSeconds ''Sun, 06 Nov 1994 08:49:37 GMT'' 0 = Some 784111777"
proof -
  have days: "DaysFromCivil 1994 11 6 = 9075" by (simp add: DaysFromCivil_closed Let_def leap_days_def)
  have "imf_date 0 1994 11 6 8 49 37 = ''Sun, 06 Nov 1994 08:49:37 GMT''"
    by (simp add: imf_date_def kShortDays_def kMonths_def two_digits_def char_of_def bit_0)
  then show ?thesis
    using ParseHttpDate_imf [of 1994 11 6 8 49 37 0 0]
    by (simp add: days civil_date_def DaysInMonth_def)
qed

text \<open>
  a two-digit year is resolved to the one year with those digits that lies less than 50 years before
  or at most 50 years after the receipt year.
\<close>

theorem ResolveTwoDigitYear_window:
  assumes "yy < 100"
  shows "let now_year = YearFromDays (uint now sdiv 86400); year = ResolveTwoDigitYear yy now
    in year mod 100 = int yy \<and> now_year - 50 < year \<and> year \<le> now_year + 50"
proof -
  define n where "n = YearFromDays (uint now sdiv 86400)"
  have "0 \<le> uint now sdiv 86400" by (simp add: sdiv_numeral pos_imp_zdiv_nonneg_iff)
  then have n: "0 \<le> n" unfolding n_def by (rule YearFromDays_nonneg)
  define r where "r = n mod 100"
  have r: "n smod 100 = r" "0 \<le> r" "r < 100" "(n - r) mod 100 = 0"
    using n by (simp_all add: r_def smod_mod_positive)
  then obtain k where k: "n - r = 100 * k" by (auto simp: mod_eq_0_iff_dvd)
  have year: "ResolveTwoDigitYear yy now =
      (if 100 * k + int yy > n + 50 then 100 * (k - 1) + int yy
       else if 100 * k + int yy + 100 \<le> n + 50 then 100 * (k + 1) + int yy else 100 * k + int yy)"
    unfolding ResolveTwoDigitYear_def n_def [symmetric] Let_def r(1) k by simp
  have digits: "(100 * j + int yy) mod 100 = int yy" for j using assms by simp
  have "int yy < 100" using assms by simp
  with r(2,3) k have
    "n - 50 < ResolveTwoDigitYear yy now" "ResolveTwoDigitYear yy now \<le> n + 50"
    unfolding year by (simp_all split: if_split)
  moreover have "ResolveTwoDigitYear yy now mod 100 = int yy"
    unfolding year if_distrib [of "\<lambda>x. x mod 100"] digits by simp
  ultimately show ?thesis unfolding Let_def n_def [symmetric] by simp
qed

theorem ResolveTwoDigitYear_window_witness: "ResolveTwoDigitYear 94 0 mod 100 = 94"
  using ResolveTwoDigitYear_window [of 94 0] by (simp add: Let_def)

end
