(* ===== verification/Html_Cache_Policy.thy ===== *)
theory Html_Cache_Policy
  imports Personalisation Http_Date
begin

text \<open>
  The policy for caching HTML: \<open>lib/cache/html_cache_policy.cc\<close>.  Whether an origin's page may be
  stored, and whether a stored page may be served, as two pure functions of the facts a front end gathers.
  Both sides share reason names; constructors that would clash carry the suffix \<open>_store\<close> or
  \<open>_serve\<close>.  Body sizes are \<^typ>\<open>nat\<close> (64-bit counts), request lifetimes \<^typ>\<open>int\<close>.
\<close>

section \<open>Data\<close>

datatype HtmlCacheMode = kOff_mode | kReportOnly | kServeVariants | kServeCachedHtml

datatype HtmlStoreAction = kRefuse | kStore | kStoreNoNotify | kWouldStore | kWouldStoreNoNotify

datatype HtmlStoreReason =
    kNone_store | kMethod | kStatus | kIncomplete | kAuthRequest | kCookieRequest | kSetCookie | kPrivate
  | kNoStore | kNoLifetime | kVary | kHeaders | kNonceCsp | kNonceLink | kContentType | kEncoding | kSize
  | kUrl | kPersonalisationSignal | kNoTransform | kMode

record HtmlStoreRequest =
  sq_method :: string
  sq_url_path :: string
  sq_has_authorization :: bool
  sq_authenticated_user :: bool
  sq_has_cookie :: bool
  sq_request_no_store :: bool

record HtmlStoreResponse =
  sr_status :: int
  sr_headers :: "HeaderField list"
  sr_body_bytes :: nat
  sr_body_complete :: bool
  sr_body_prefix :: string

record HtmlStorePolicy =
  sp_mode :: HtmlCacheMode
  sp_max_body_bytes :: nat
  sp_now_seconds :: u32

record HtmlStoreVerdict =
  sv_action :: HtmlStoreAction
  sv_reason :: HtmlStoreReason
  sv_detail :: string
  sv_lifetime_s :: u32
  sv_lifetime_explicit :: bool
  sv_needs_validation :: bool
  sv_has_validators :: bool
  sv_explicit_shared :: bool
  sv_cc_flags :: u16
  sv_vary_tokens :: "string list"
  sv_sidecar_evaluated :: bool
  sv_cc_evaluated :: bool
  sv_sidecar :: SidecarClassification

definition default_HtmlStoreVerdict :: HtmlStoreVerdict where
  "default_HtmlStoreVerdict =
     \<lparr>sv_action = kRefuse, sv_reason = kNone_store, sv_detail = [], sv_lifetime_s = 0,
      sv_lifetime_explicit = False, sv_needs_validation = False, sv_has_validators = False,
      sv_explicit_shared = False, sv_cc_flags = 0, sv_vary_tokens = [], sv_sidecar_evaluated = False,
      sv_cc_evaluated = False,
      sv_sidecar = \<lparr>sc_verdict = kSwapEligible, sc_reasons = [], sc_payload = [], sc_fields = 0\<rparr>\<rparr>"

definition stores :: "HtmlStoreVerdict \<Rightarrow> bool" where
  "stores v \<longleftrightarrow> sv_action v = kStore \<or> sv_action v = kStoreNoNotify"

definition kHtmlStoreHardMaxBodyBytes :: nat where
  "kHtmlStoreHardMaxBodyBytes = 16 * 1024 * 1024"

section \<open>Names\<close>

definition HtmlStoreActionName :: "HtmlStoreAction \<Rightarrow> string" where
  "HtmlStoreActionName action =
     (case action of kRefuse \<Rightarrow> ''refuse'' | kStore \<Rightarrow> ''store'' | kStoreNoNotify \<Rightarrow> ''store_no_notify''
      | kWouldStore \<Rightarrow> ''would_store'' | kWouldStoreNoNotify \<Rightarrow> ''would_store_no_notify'')"

definition HtmlStoreReasonName :: "HtmlStoreReason \<Rightarrow> string" where
  "HtmlStoreReasonName reason =
     (case reason of
        kNone_store \<Rightarrow> ''none'' | kMethod \<Rightarrow> ''method'' | kStatus \<Rightarrow> ''status'' | kIncomplete \<Rightarrow> ''incomplete''
      | kAuthRequest \<Rightarrow> ''auth_request'' | kCookieRequest \<Rightarrow> ''cookie_request'' | kSetCookie \<Rightarrow> ''set_cookie''
      | kPrivate \<Rightarrow> ''private'' | kNoStore \<Rightarrow> ''no_store'' | kNoLifetime \<Rightarrow> ''no_lifetime'' | kVary \<Rightarrow> ''vary''
      | kHeaders \<Rightarrow> ''headers'' | kNonceCsp \<Rightarrow> ''nonce_csp'' | kNonceLink \<Rightarrow> ''nonce_link''
      | kContentType \<Rightarrow> ''content_type'' | kEncoding \<Rightarrow> ''encoding'' | kSize \<Rightarrow> ''size'' | kUrl \<Rightarrow> ''url''
      | kPersonalisationSignal \<Rightarrow> ''personalisation_signal'' | kNoTransform \<Rightarrow> ''no_transform'' | kMode \<Rightarrow> ''mode'')"

definition HtmlCacheModeName :: "HtmlCacheMode \<Rightarrow> string" where
  "HtmlCacheModeName mode =
     (case mode of kOff_mode \<Rightarrow> ''off'' | kReportOnly \<Rightarrow> ''report-only'' | kServeVariants \<Rightarrow> ''serve-variants''
      | kServeCachedHtml \<Rightarrow> ''serve-cached-html'')"

definition store_reason_code :: "HtmlStoreVerdict \<Rightarrow> string" where
  "store_reason_code v =
     HtmlStoreReasonName (sv_reason v) @
     (if (sv_reason v = kHeaders \<or> sv_reason v = kVary) \<and> sv_detail v \<noteq> [] then '':'' @ sv_detail v else [])"

section \<open>Header lookups\<close>

definition FindHeader :: "HeaderField list \<Rightarrow> string \<Rightarrow> HeaderField option" where
  "FindHeader headers name = List.find (\<lambda>h. EqualsIgnoreCase (hf_name h) name) headers"

definition CountHeader :: "HeaderField list \<Rightarrow> string \<Rightarrow> nat" where
  "CountHeader headers name = length (filter (\<lambda>h. EqualsIgnoreCase (hf_name h) name) headers)"

text \<open>The name of a list member: the text before the first equals sign, trimmed.\<close>

definition member_name :: "string \<Rightarrow> string" where
  "member_name token = TrimOws (before (sv_find (CHR ''='') token) token)"

definition CountDirective :: "string \<Rightarrow> string \<Rightarrow> nat" where
  "CountDirective line name =
     length (filter (\<lambda>token. EqualsIgnoreCase (member_name token) name) (list_members (CHR '','') line))"

definition valid_s_maxage_member :: "string \<Rightarrow> bool" where
  "valid_s_maxage_member token \<longleftrightarrow>
     sv_find (CHR ''='') token \<noteq> None \<and> EqualsIgnoreCase (member_name token) ''s-maxage'' \<and>
     (let val = TrimOws (after (sv_find (CHR ''='') token) token)
      in val \<noteq> [] \<and> ParseDigits val \<noteq> None)"

definition HasValidSMaxage :: "string \<Rightarrow> bool" where
  "HasValidSMaxage line \<longleftrightarrow> list_ex valid_s_maxage_member (list_members (CHR '','') line)"

definition Refuse :: "HtmlStoreVerdict \<Rightarrow> HtmlStoreReason \<Rightarrow> string \<Rightarrow> HtmlStoreVerdict" where
  "Refuse v reason detail = v\<lparr>sv_action := kRefuse, sv_reason := reason, sv_detail := detail\<rparr>"

definition SidecarDetail :: "SidecarClassification \<Rightarrow> string" where
  "SidecarDetail sidecar =
     (case sc_reasons sidecar of
        [] \<Rightarrow> []
      | reason # _ \<Rightarrow>
          if reason = ''sidecar-too-large'' then ''sidecar-too-large''
          else (case sv_find (CHR '':'') reason of
                  None \<Rightarrow> SanitizeDetail reason
                | Some colon \<Rightarrow>
                    if take colon reason = ''vary-unstorable'' then ''vary''
                    else SanitizeDetail (drop (Suc colon) reason)))"

section \<open>The store rules\<close>

text \<open>Rule 2: the path is safe as a key and not one the optimizer produced.\<close>

definition url_refused :: "string \<Rightarrow> bool" where
  "url_refused url_path \<longleftrightarrow>
     url_path = [] \<or> hd url_path \<noteq> CHR ''/'' \<or> list_ex (\<lambda>c. c \<in> set ''?%#;'') url_path \<or>
     sv_find_str ''.pagespeed.'' url_path \<noteq> None"

text \<open>Rule 3: one Content-Type, text/html; and no coding but identity.\<close>

definition content_type_refused :: "HeaderField list \<Rightarrow> bool" where
  "content_type_refused headers \<longleftrightarrow>
     CountHeader headers ''content-type'' \<noteq> 1 \<or>
     (case FindHeader headers ''content-type'' of
        None \<Rightarrow> True
      | Some h \<Rightarrow> \<not> EqualsIgnoreCase (TrimOws (before (sv_find (CHR '';'') (hf_value h)) (hf_value h))) ''text/html'')"

definition encoding_refused :: "HeaderField list \<Rightarrow> bool" where
  "encoding_refused headers \<longleftrightarrow>
     list_ex (\<lambda>h. EqualsIgnoreCase (hf_name h) ''content-encoding'' \<and>
                  \<not> EqualsIgnoreCase (TrimOws (hf_value h)) ''identity'') headers"

text \<open>Rule 7: all Cache-Control lines together.\<close>

record cc_summary =
  cs_cc :: OriginCacheControl
  cs_max_age_count :: nat
  cs_s_maxage_count :: nat
  cs_valid_s_maxage :: bool

definition summarise_cc :: "HeaderField list \<Rightarrow> cc_summary" where
  "summarise_cc headers =
     fold (\<lambda>h s. if \<not> EqualsIgnoreCase (hf_name h) ''cache-control'' then s
                 else \<lparr>cs_cc = AccumulateOriginCacheControl (hf_value h) (cs_cc s),
                       cs_max_age_count = cs_max_age_count s + CountDirective (hf_value h) ''max-age'',
                       cs_s_maxage_count = cs_s_maxage_count s + CountDirective (hf_value h) ''s-maxage'',
                       cs_valid_s_maxage = (cs_valid_s_maxage s \<or> HasValidSMaxage (hf_value h))\<rparr>) headers
       \<lparr>cs_cc = \<lparr>occ_flags = 0, occ_max_age = 0, occ_s_maxage = 0\<rparr>, cs_max_age_count = 0,
        cs_s_maxage_count = 0, cs_valid_s_maxage = False\<rparr>"

text \<open>Rule 9: the Vary lines joined, split and lower-cased.\<close>

definition joined_vary :: "HeaderField list \<Rightarrow> string" where
  "joined_vary headers =
     fold (\<lambda>h joined. if \<not> EqualsIgnoreCase (hf_name h) ''vary'' then joined
                      else (if joined \<noteq> [] then joined @ '', '' else joined) @ hf_value h) headers []"

definition vary_tokens_of :: "string \<Rightarrow> string list" where
  "vary_tokens_of joined =
     map Lower (filter (\<lambda>t. t \<noteq> []) (map TrimOws (list_members (CHR '','') joined)))"

text \<open>Rule 11: the explicit lifetime, and whether every use must be validated.\<close>

definition expires_lifetime :: "HeaderField list \<Rightarrow> u32 \<Rightarrow> u32" where
  "expires_lifetime headers now_seconds =
     (let date =
            (if CountHeader headers ''date'' = 1 then
               (case FindHeader headers ''date'' of
                  Some h \<Rightarrow> (case ParseHttpDateSeconds (hf_value h) now_seconds of
                               Some parsed \<Rightarrow> parsed | None \<Rightarrow> uint now_seconds)
                | None \<Rightarrow> uint now_seconds)
             else uint now_seconds)
      in if CountHeader headers ''expires'' = 1 then
           (case FindHeader headers ''expires'' of
              Some h \<Rightarrow> (case ParseHttpDateSeconds (hf_value h) now_seconds of
                           Some parsed \<Rightarrow> SaturateU32 (parsed - date) | None \<Rightarrow> 0)
            | None \<Rightarrow> 0)
         else 0)"

definition explicit_lifetime :: "HeaderField list \<Rightarrow> cc_summary \<Rightarrow> u32 \<Rightarrow> (u32 \<times> bool)" where
  "explicit_lifetime headers s now_seconds =
     (if occ_flags (cs_cc s) AND kCCOriginSMaxagePresent \<noteq> 0 then (occ_s_maxage (cs_cc s), True)
      else if cs_max_age_count s > 0 then (occ_max_age (cs_cc s), True)
      else if FindHeader headers ''expires'' \<noteq> None then (expires_lifetime headers now_seconds, True)
      else (0, False))"

definition has_validator :: "HeaderField list \<Rightarrow> bool" where
  "has_validator headers \<longleftrightarrow>
     list_ex (\<lambda>h. (EqualsIgnoreCase (hf_name h) ''etag'' \<or> EqualsIgnoreCase (hf_name h) ''last-modified'') \<and>
                  TrimOws (hf_value h) \<noteq> []) headers"

definition freshness_rule :: "HeaderField list \<Rightarrow> cc_summary \<Rightarrow> u32 \<Rightarrow> HtmlStoreVerdict \<Rightarrow> HtmlStoreVerdict" where
  "freshness_rule headers s now_seconds v =
     (let (lifetime, explicit) = explicit_lifetime headers s now_seconds;
          no_cache = (occ_flags (cs_cc s) AND kCCOriginNoCache \<noteq> 0);
          conflicting = (cs_max_age_count s > 1 \<or> cs_s_maxage_count s > 1);
          lifetime = (if conflicting then 0 else lifetime)
      in v\<lparr>sv_lifetime_s := lifetime, sv_lifetime_explicit := explicit,
           sv_needs_validation := (lifetime = 0 \<or> no_cache \<or> conflicting),
           sv_has_validators := has_validator headers\<rparr>)"

text \<open>Rules 10 to 14, on a verdict that already carries the Cache-Control facts and the Vary tokens.\<close>

definition store_rules_body ::
    "HtmlStoreResponse \<Rightarrow> HtmlStorePolicy \<Rightarrow> cc_summary \<Rightarrow> HtmlStoreVerdict \<Rightarrow> HtmlStoreVerdict" where
  "store_rules_body response policy s v0 =
     (let headers = sr_headers response;
          v = v0\<lparr>sv_sidecar := ClassifyForHeadersSidecar headers, sv_sidecar_evaluated := True\<rparr>
      in if sc_verdict (sv_sidecar v) = kNeverOptimized then
           Refuse v (if ''nonce-csp'' \<in> set (sc_reasons (sv_sidecar v)) then kNonceCsp else kNonceLink) []
         else if sc_verdict (sv_sidecar v) = kFallThrough then
           Refuse v kHeaders (SidecarDetail (sv_sidecar v))
         else
           (let v = freshness_rule headers s (sp_now_seconds policy) v
            in if (\<not> sv_lifetime_explicit v \<and> \<not> sv_has_validators v) \<or>
                  (sv_needs_validation v \<and> \<not> sv_has_validators v) then
                 Refuse v kNoLifetime []
               else if sr_body_bytes response > min (sp_max_body_bytes policy) kHtmlStoreHardMaxBodyBytes then
                 Refuse v kSize []
               else if length (sr_body_prefix response) < min (sr_body_bytes response) kPersonalisationScanBytes then
                 Refuse v kIncomplete ''body_prefix''
               else
                 (case ScanForSignal (sr_body_prefix response) (sr_body_bytes response > kPersonalisationScanBytes) of
                    Some signal \<Rightarrow> Refuse v kPersonalisationSignal signal
                  | None \<Rightarrow>
                      if occ_flags (cs_cc s) AND kCCOriginNoTransform \<noteq> 0
                      then v\<lparr>sv_action := kStoreNoNotify, sv_reason := kNoTransform\<rparr>
                      else v\<lparr>sv_action := kStore, sv_reason := kNone_store\<rparr>)))"

text \<open>Rules 7 to 9: the origin's Cache-Control, a cookie on the request, and Vary; then the rest.\<close>

definition sharing_rules_body :: "HtmlStoreRequest \<Rightarrow> HtmlStoreResponse \<Rightarrow> HtmlStorePolicy \<Rightarrow> HtmlStoreVerdict \<Rightarrow> HtmlStoreVerdict" where
  "sharing_rules_body request response policy v0 =
     (let headers = sr_headers response; s = summarise_cc headers; flags = occ_flags (cs_cc s);
          v = v0\<lparr>sv_cc_flags := flags, sv_cc_evaluated := True,
                 sv_explicit_shared := (flags AND kCCOriginPublic \<noteq> 0 \<or> cs_valid_s_maxage s)\<rparr>
      in if flags AND kCCOriginPrivate \<noteq> 0 then Refuse v kPrivate []
         else if flags AND kCCOriginNoStore \<noteq> 0 then Refuse v kNoStore []
         else if sq_has_cookie request \<and> \<not> sv_explicit_shared v then Refuse v kCookieRequest []
         else
           (let v = v\<lparr>sv_vary_tokens := vary_tokens_of (joined_vary headers)\<rparr>
            in case List.find (\<lambda>token. token \<noteq> ''accept-encoding'') (sv_vary_tokens v) of
                 Some token \<Rightarrow> Refuse v kVary (SanitizeDetail token)
               | None \<Rightarrow> store_rules_body response policy s v))"

definition ApplyStoreRules :: "HtmlStoreRequest \<Rightarrow> HtmlStoreResponse \<Rightarrow> HtmlStorePolicy \<Rightarrow> HtmlStoreVerdict" where
  "ApplyStoreRules request response policy =
     (let v = default_HtmlStoreVerdict; headers = sr_headers response
      in if sq_method request \<noteq> ''GET'' then Refuse v kMethod []
         else if sr_status response \<noteq> 200 then Refuse v kStatus []
         else if \<not> sr_body_complete response \<or> FindHeader headers ''content-range'' \<noteq> None then
           Refuse v kIncomplete []
         else if url_refused (sq_url_path request) then Refuse v kUrl []
         else if content_type_refused headers then Refuse v kContentType []
         else if encoding_refused headers then Refuse v kEncoding []
         else if sq_has_authorization request \<or> sq_authenticated_user request then Refuse v kAuthRequest []
         else if sq_request_no_store request then Refuse v kNoStore ''request''
         else if FindHeader headers ''set-cookie'' \<noteq> None \<or> FindHeader headers ''set-cookie2'' \<noteq> None then
           Refuse v kSetCookie []
         else sharing_rules_body request response policy v)"

definition ClassifyHtmlForStore :: "HtmlStoreRequest \<Rightarrow> HtmlStoreResponse \<Rightarrow> HtmlStorePolicy \<Rightarrow> HtmlStoreVerdict" where
  "ClassifyHtmlForStore request response policy =
     (if sp_mode policy = kOff_mode then Refuse default_HtmlStoreVerdict kMode []
      else
        (let v = ApplyStoreRules request response policy
         in if sp_mode policy \<noteq> kReportOnly then v
            else if sv_action v = kStore then v\<lparr>sv_action := kWouldStore\<rparr>
            else if sv_action v = kStoreNoNotify then v\<lparr>sv_action := kWouldStoreNoNotify\<rparr>
            else v))"

section \<open>The serve rules\<close>

datatype HtmlServeAction = kFallThrough_serve | kServeHtml | kServeMarkdown | kValidate

datatype HtmlServeReason =
    kFresh_serve | kMode_serve | kAuthRequest_serve | kCookieRequest_serve | kClientNoCache | kNeedsValidation
  | kStale | kHeadersNotReproducible | kSidecarMissing | kPurged | kAbsent | kBindingStale | kParentStale

record HtmlServeRequest =
  vq_mode :: HtmlCacheMode
  vq_wants_markdown :: bool
  vq_has_authorization :: bool
  vq_authenticated_user :: bool
  vq_has_cookie :: bool
  vq_has_cache_control :: bool
  vq_cache_control_no_cache :: bool
  vq_pragma_no_cache :: bool
  vq_max_age :: int
  vq_min_fresh :: int
  vq_now_seconds :: u32

record StoredHtmlFacts =
  sf_present :: bool
  sf_stored_at :: u32
  sf_age_at_store :: u32
  sf_lifetime_s :: u32
  sf_needs_validation :: bool
  sf_explicit_shared :: bool
  sf_headers_not_reproducible :: bool
  sf_sidecar_required :: bool
  sf_sidecar_present :: bool
  sf_purged :: bool
  sf_validated_this_request :: bool
  sf_variant_present :: bool
  sf_binding_live :: bool
  sf_render_ttl_s :: u32

record HtmlServeVerdict =
  vv_action :: HtmlServeAction
  vv_reason :: HtmlServeReason
  vv_enforce :: bool
  vv_age_s :: u32

definition HtmlServeActionName :: "HtmlServeAction \<Rightarrow> string" where
  "HtmlServeActionName action =
     (case action of kFallThrough_serve \<Rightarrow> ''fall_through'' | kServeHtml \<Rightarrow> ''serve_html''
      | kServeMarkdown \<Rightarrow> ''serve_markdown'' | kValidate \<Rightarrow> ''validate'')"

definition HtmlServeReasonName :: "HtmlServeReason \<Rightarrow> string" where
  "HtmlServeReasonName reason =
     (case reason of
        kFresh_serve \<Rightarrow> ''fresh'' | kMode_serve \<Rightarrow> ''mode'' | kAuthRequest_serve \<Rightarrow> ''auth_request''
      | kCookieRequest_serve \<Rightarrow> ''cookie_request'' | kClientNoCache \<Rightarrow> ''client_no_cache''
      | kNeedsValidation \<Rightarrow> ''needs_validation'' | kStale \<Rightarrow> ''stale''
      | kHeadersNotReproducible \<Rightarrow> ''headers_not_reproducible'' | kSidecarMissing \<Rightarrow> ''sidecar_missing''
      | kPurged \<Rightarrow> ''purged'' | kAbsent \<Rightarrow> ''absent'' | kBindingStale \<Rightarrow> ''binding_stale''
      | kParentStale \<Rightarrow> ''parent_stale'')"

definition serve_age :: "HtmlServeRequest \<Rightarrow> StoredHtmlFacts \<Rightarrow> u32" where
  "serve_age request stored =
     SaturateU32 (uint (sf_age_at_store stored) +
                  max 0 (uint (vq_now_seconds request) - uint (sf_stored_at stored)))"

definition serve_fresh :: "HtmlServeRequest \<Rightarrow> StoredHtmlFacts \<Rightarrow> bool" where
  "serve_fresh request stored \<longleftrightarrow>
     (let age = uint (serve_age request stored); lifetime = uint (sf_lifetime_s stored);
          must_validate = (sf_needs_validation stored \<or> sf_lifetime_s stored = 0);
          fresh = (\<not> must_validate \<and> age < lifetime);
          fresh = (if vq_max_age request \<ge> 0 \<and> age > vq_max_age request then False else fresh)
      in if vq_min_fresh request \<ge> 0 \<and>
            (vq_min_fresh request > lifetime \<or> age > lifetime - vq_min_fresh request) then False else fresh)"

definition serve_decision :: "HtmlServeRequest \<Rightarrow> StoredHtmlFacts \<Rightarrow> HtmlServeAction \<times> HtmlServeReason" where
  "serve_decision request stored =
     (let cached_html = (vq_mode request = kServeCachedHtml);
          age = uint (serve_age request stored); lifetime = uint (sf_lifetime_s stored);
          must_validate = (sf_needs_validation stored \<or> sf_lifetime_s stored = 0);
          validated = (cached_html \<and> sf_validated_this_request stored)
      in if vq_has_authorization request \<or> vq_authenticated_user request then (kFallThrough_serve, kAuthRequest_serve)
         else if vq_has_cookie request \<and> \<not> sf_explicit_shared stored then (kFallThrough_serve, kCookieRequest_serve)
         else if vq_cache_control_no_cache request \<or>
                 (vq_pragma_no_cache request \<and> \<not> vq_has_cache_control request) then
           (kFallThrough_serve, kClientNoCache)
         else if sf_purged stored then (kFallThrough_serve, kPurged)
         else if sf_headers_not_reproducible stored then (kFallThrough_serve, kHeadersNotReproducible)
         else if sf_sidecar_required stored \<and> \<not> sf_sidecar_present stored then (kFallThrough_serve, kSidecarMissing)
         else if \<not> serve_fresh request stored \<and> \<not> validated then
           (if cached_html then kValidate else kFallThrough_serve,
            if vq_wants_markdown request then kParentStale
            else if must_validate then kNeedsValidation else kStale)
         else if vq_wants_markdown request then
           (if \<not> sf_variant_present stored then (kFallThrough_serve, kAbsent)
            else if \<not> sf_binding_live stored then (kFallThrough_serve, kBindingStale)
            else if age \<ge> (if validated then uint (sf_render_ttl_s stored)
                           else min lifetime (uint (sf_render_ttl_s stored))) then (kFallThrough_serve, kParentStale)
            else (kServeMarkdown, kFresh_serve))
         else if cached_html then (kServeHtml, kFresh_serve)
         else (kFallThrough_serve, kMode_serve))"

definition ClassifyHtmlForServe :: "HtmlServeRequest \<Rightarrow> StoredHtmlFacts \<Rightarrow> HtmlServeVerdict" where
  "ClassifyHtmlForServe request stored =
     (let enforce = (vq_mode request = kServeVariants \<or> vq_mode request = kServeCachedHtml)
      in if vq_mode request = kOff_mode \<or> vq_mode request = kReportOnly then
           \<lparr>vv_action = kFallThrough_serve, vv_reason = kMode_serve, vv_enforce = enforce, vv_age_s = 0\<rparr>
         else if \<not> sf_present stored then
           \<lparr>vv_action = kFallThrough_serve, vv_reason = kAbsent, vv_enforce = enforce, vv_age_s = 0\<rparr>
         else
           (case serve_decision request stored of
              (action, reason) \<Rightarrow>
                \<lparr>vv_action = action, vv_reason = reason, vv_enforce = enforce, vv_age_s = serve_age request stored\<rparr>))"

section \<open>Lemmas\<close>

definition cc_line :: "HeaderField \<Rightarrow> bool" where
  "cc_line h \<longleftrightarrow> AsciiToLower (hf_name h) = ''cache-control''"

lemma lower_cc: "AsciiToLower ''cache-control'' = ''cache-control''"
  by code_simp

lemma summarise_step_flags:
  assumes "kCCOriginHeaderPresent AND f = 0"
  shows "occ_flags (cs_cc (fold (\<lambda>h s. if \<not> EqualsIgnoreCase (hf_name h) ''cache-control'' then s
                 else \<lparr>cs_cc = AccumulateOriginCacheControl (hf_value h) (cs_cc s),
                       cs_max_age_count = cs_max_age_count s + CountDirective (hf_value h) ''max-age'',
                       cs_s_maxage_count = cs_s_maxage_count s + CountDirective (hf_value h) ''s-maxage'',
                       cs_valid_s_maxage = (cs_valid_s_maxage s \<or> HasValidSMaxage (hf_value h))\<rparr>) hs s)) AND f \<noteq> 0 \<longleftrightarrow>
    occ_flags (cs_cc s) AND f \<noteq> 0 \<or>
    (\<exists>h \<in> set hs. cc_line h \<and> (\<exists>t \<in> set (list_members (CHR '','') (hf_value h)). token_flags t AND f \<noteq> 0))"
proof (induction hs arbitrary: s)
  case Nil
  then show ?case by simp
next
  case (Cons h hs)
  have cc: "EqualsIgnoreCase (hf_name h) ''cache-control'' \<longleftrightarrow> cc_line h"
    by (simp add: EqualsIgnoreCase_iff cc_line_def lower_cc)
  show ?case
    unfolding fold_simps Cons.IH by (cases "cc_line h") (auto simp: cc Accumulate_AND [OF assms])
qed

lemma summarise_flags:
  assumes "(n, f) \<in> set kCCDirectives"
  shows "occ_flags (cs_cc (summarise_cc hs)) AND f \<noteq> 0 \<longleftrightarrow>
    (\<exists>h \<in> set hs. cc_line h \<and> (\<exists>t \<in> set (list_members (CHR '','') (hf_value h)). named t n))"
proof -
  have "kCCOriginHeaderPresent AND f = 0"
    using assms by (auto simp: kCCDirectives_def cc_flag_values)
  from summarise_step_flags [OF this] show ?thesis
    by (simp add: summarise_cc_def token_flags_directive [OF assms])
qed

lemma FindHeader_None: "FindHeader hs n = None \<longleftrightarrow> (\<forall>h \<in> set hs. AsciiToLower (hf_name h) \<noteq> AsciiToLower n)"
  by (auto simp: FindHeader_def find_None_iff EqualsIgnoreCase_iff)

lemma Refuse_not_stores [simp]: "\<not> stores (Refuse v r d)"
  by (simp add: stores_def Refuse_def)

lemma Refuse_sel [simp]:
  "sv_action (Refuse v r d) = kRefuse" "sv_reason (Refuse v r d) = r" "sv_detail (Refuse v r d) = d"
  by (simp_all add: Refuse_def)

lemma freshness_rule_sel:
  "sv_sidecar (freshness_rule hs s now v) = sv_sidecar v"
  "sv_has_validators (freshness_rule hs s now v) = has_validator hs"
  "sv_needs_validation (freshness_rule hs s now v) \<or> sv_lifetime_s (freshness_rule hs s now v) \<noteq> 0"
  by (simp_all add: freshness_rule_def Let_def split_beta)


lemma stores_if: "stores (if b then x else y) = (if b then stores x else stores y)"
  by simp

lemma stores_case_option: "stores (case x of None \<Rightarrow> a | Some y \<Rightarrow> f y) = (case x of None \<Rightarrow> stores a | Some y \<Rightarrow> stores (f y))"
  by (cases x) simp_all

lemma stores_action [simp]:
  "stores (v\<lparr>sv_action := kStoreNoNotify, sv_reason := r\<rparr>)" "stores (v\<lparr>sv_action := kStore, sv_reason := r\<rparr>)"
  by (simp_all add: stores_def)

lemma store_body_stores:
  "stores (store_rules_body response policy s v) \<longleftrightarrow>
     sc_verdict (ClassifyForHeadersSidecar (sr_headers response)) = kSwapEligible \<and>
     (has_validator (sr_headers response) \<or>
      (let f = freshness_rule (sr_headers response) s (sp_now_seconds policy) v
       in sv_lifetime_explicit f \<and> \<not> sv_needs_validation f)) \<and>
     sr_body_bytes response \<le> min (sp_max_body_bytes policy) kHtmlStoreHardMaxBodyBytes \<and>
     min (sr_body_bytes response) kPersonalisationScanBytes \<le> length (sr_body_prefix response) \<and>
     ScanForSignal (sr_body_prefix response) (sr_body_bytes response > kPersonalisationScanBytes) = None"
proof -
  have f: "sv_lifetime_explicit (freshness_rule hs s now (v\<lparr>sv_sidecar := c, sv_sidecar_evaluated := True\<rparr>)) =
      sv_lifetime_explicit (freshness_rule hs s now v)"
    "sv_needs_validation (freshness_rule hs s now (v\<lparr>sv_sidecar := c, sv_sidecar_evaluated := True\<rparr>)) =
      sv_needs_validation (freshness_rule hs s now v)" for hs now c
    by (simp_all add: freshness_rule_def Let_def split_beta)
  show ?thesis
    unfolding store_rules_body_def Let_def stores_if stores_case_option
    by (cases "sc_verdict (ClassifyForHeadersSidecar (sr_headers response))")
      (auto simp: freshness_rule_sel f not_le not_less split: option.split)
qed

section \<open>The members of several Vary lines\<close>

definition ows_members :: "string \<Rightarrow> string list" where
  "ows_members v = filter (\<lambda>t. t \<noteq> []) (map TrimOws (list_members (CHR '','') v))"

lemma TrimOws_Nil [simp]: "TrimOws [] = []"
  by (simp add: TrimOws_def trim_def trim_left_def trim_right_def)

lemma TrimOws_blank [simp]: "TrimOws (CHR '' '' # s) = TrimOws s"
  by (simp add: TrimOws_def trim_def trim_left_def is_ows_def)

lemma ows_members_comma: "ows_members (a @ CHR '','' # b) = ows_members a @ ows_members b"
proof (induction "CHR '',''" a rule: list_members.induct)
  case (1 a)
  show ?case
  proof (cases "CHR '','' \<in> set a")
    case False
    then have "list_members (CHR '','') (a @ CHR '','' # b) = a # list_members (CHR '','') b"
      by (rule list_members_append_Cons)
    then show ?thesis
      using False by (cases "a = []") (simp_all add: ows_members_def list_members_last)
  next
    case True
    then obtain t a' where a: "a = t @ CHR '','' # a'" "CHR '','' \<notin> set t" by (metis split_list_first)
    have find: "after (sv_find (CHR '','') a) a = a'"
      using a(2) by (simp add: a(1) sv_simps)
    have "ows_members (a' @ CHR '','' # b) = ows_members a' @ ows_members b"
      using 1 [unfolded find] a by simp
    moreover have "ows_members (t @ CHR '','' # x) = filter (\<lambda>t. t \<noteq> []) [TrimOws t] @ ows_members x" for x
      using list_members_append_Cons [OF a(2)] by (simp add: ows_members_def)
    ultimately show ?thesis unfolding a(1) append_assoc append_Cons by simp
  qed
qed

lemma ows_members_blank: "ows_members (CHR '' '' # b) = ows_members b"
proof (cases "CHR '','' \<in> set b")
  case False
  then show ?thesis by (cases "b = []") (simp_all add: ows_members_def list_members_last)
next
  case True
  then obtain t b' where b: "b = t @ CHR '','' # b'" "CHR '','' \<notin> set t" by (metis split_list_first)
  then show ?thesis
    using list_members_append_Cons [of "CHR '',''" "CHR '' '' # t" b'] list_members_append_Cons [OF b(2), of b']
    by (simp add: ows_members_def)
qed

lemma ows_members_joined:
  "ows_members (fold (\<lambda>h joined. if \<not> EqualsIgnoreCase (hf_name h) ''vary'' then joined
      else (if joined \<noteq> [] then joined @ '', '' else joined) @ hf_value h) hs j) =
   ows_members j @ concat (map (\<lambda>h. ows_members (hf_value h)) (filter (\<lambda>h. EqualsIgnoreCase (hf_name h) ''vary'') hs))"
proof (induction hs arbitrary: j)
  case Nil
  then show ?case by simp
next
  case (Cons h hs)
  have "ows_members ((if j \<noteq> [] then j @ '', '' else j) @ hf_value h) = ows_members j @ ows_members (hf_value h)"
    using ows_members_comma [of j "CHR '' '' # hf_value h"]
    by (cases "j = []") (simp_all add: ows_members_blank, simp add: ows_members_def)
  then show ?case by (simp add: Cons.IH)
qed

lemma vary_tokens_iff:
  "t \<in> set (vary_tokens_of (joined_vary hs)) \<longleftrightarrow>
    (\<exists>h \<in> set hs. AsciiToLower (hf_name h) = ''vary'' \<and>
       (\<exists>m \<in> set (list_members (CHR '','') (hf_value h)). TrimOws m \<noteq> [] \<and> AsciiToLower (TrimOws m) = t))"
proof -
  have v: "AsciiToLower ''vary'' = ''vary''" by code_simp
  have "vary_tokens_of (joined_vary hs) = map Lower (ows_members (joined_vary hs))"
    by (simp add: vary_tokens_of_def ows_members_def)
  also have "ows_members (joined_vary hs) =
      concat (map (\<lambda>h. ows_members (hf_value h)) (filter (\<lambda>h. EqualsIgnoreCase (hf_name h) ''vary'') hs))"
    using ows_members_joined [of hs "[]"] by (simp add: joined_vary_def) (simp add: ows_members_def)
  finally show ?thesis
    by (auto simp: EqualsIgnoreCase_iff v Lower_AsciiToLower ows_members_def)
qed

section \<open>What a stored page satisfies\<close>

definition rules_verdict :: "HeaderField list \<Rightarrow> HtmlStoreVerdict" where
  "rules_verdict headers =
     (let s = summarise_cc headers
      in default_HtmlStoreVerdict\<lparr>sv_cc_flags := occ_flags (cs_cc s), sv_cc_evaluated := True,
           sv_explicit_shared := (occ_flags (cs_cc s) AND kCCOriginPublic \<noteq> 0 \<or> cs_valid_s_maxage s),
           sv_vary_tokens := vary_tokens_of (joined_vary headers)\<rparr>)"

definition request_rules :: "HtmlStoreRequest \<Rightarrow> HtmlStoreResponse \<Rightarrow> bool" where
  "request_rules request response \<longleftrightarrow>
     sq_method request = ''GET'' \<and> sr_status response = 200 \<and> sr_body_complete response \<and>
     FindHeader (sr_headers response) ''content-range'' = None \<and> \<not> url_refused (sq_url_path request) \<and>
     \<not> content_type_refused (sr_headers response) \<and> \<not> encoding_refused (sr_headers response) \<and>
     \<not> sq_has_authorization request \<and> \<not> sq_authenticated_user request \<and> \<not> sq_request_no_store request \<and>
     FindHeader (sr_headers response) ''set-cookie'' = None \<and> FindHeader (sr_headers response) ''set-cookie2'' = None"

definition sharing_rules :: "HtmlStoreRequest \<Rightarrow> HtmlStoreResponse \<Rightarrow> bool" where
  "sharing_rules request response \<longleftrightarrow>
     (let s = summarise_cc (sr_headers response)
      in occ_flags (cs_cc s) AND kCCOriginPrivate = 0 \<and> occ_flags (cs_cc s) AND kCCOriginNoStore = 0 \<and>
         (sq_has_cookie request \<longrightarrow> occ_flags (cs_cc s) AND kCCOriginPublic \<noteq> 0 \<or> cs_valid_s_maxage s) \<and>
         List.find (\<lambda>token. token \<noteq> ''accept-encoding'') (vary_tokens_of (joined_vary (sr_headers response))) = None)"

lemma ApplyStoreRules_passed:
  "request_rules request response \<Longrightarrow>
    ApplyStoreRules request response policy = sharing_rules_body request response policy default_HtmlStoreVerdict"
  unfolding request_rules_def ApplyStoreRules_def Let_def by simp

lemma ApplyStoreRules_request_refused:
  "\<not> request_rules request response \<Longrightarrow> sv_action (ApplyStoreRules request response policy) = kRefuse"
  unfolding request_rules_def ApplyStoreRules_def Let_def if_distrib [of sv_action] Refuse_sel by argo

lemma sharing_rules_body_passed:
  assumes "sharing_rules request response"
  shows "sharing_rules_body request response policy default_HtmlStoreVerdict =
    store_rules_body response policy (summarise_cc (sr_headers response)) (rules_verdict (sr_headers response))"
  using assms unfolding sharing_rules_def sharing_rules_body_def rules_verdict_def Let_def by simp blast

lemma sharing_rules_body_refused:
  assumes "\<not> sharing_rules request response"
  shows "sv_action (sharing_rules_body request response policy v) = kRefuse"
proof (cases "List.find (\<lambda>token. token \<noteq> ''accept-encoding'') (vary_tokens_of (joined_vary (sr_headers response)))")
  case None
  have eq: "(if a then kRefuse else if b then kRefuse else if c \<and> \<not> d then kRefuse else x) = kRefuse"
    if "\<not> (\<not> a \<and> \<not> b \<and> (c \<longrightarrow> d))" for a b c d x
    using that by (simp; blast)
  from assms None show ?thesis
    unfolding sharing_rules_def sharing_rules_body_def Let_def if_distrib [of sv_action] Refuse_sel
    by (intro eq) simp
next
  case (Some t)
  then show ?thesis by (simp add: sharing_rules_body_def Let_def)
qed

lemma ApplyStoreRules_body:
  "request_rules request response \<Longrightarrow> sharing_rules request response \<Longrightarrow>
    ApplyStoreRules request response policy =
    store_rules_body response policy (summarise_cc (sr_headers response)) (rules_verdict (sr_headers response))"
  by (simp add: ApplyStoreRules_passed sharing_rules_body_passed)

lemma ApplyStoreRules_refused:
  "\<not> (request_rules request response \<and> sharing_rules request response) \<Longrightarrow>
    sv_action (ApplyStoreRules request response policy) = kRefuse"
  by (cases "request_rules request response")
    (simp_all add: ApplyStoreRules_passed ApplyStoreRules_request_refused sharing_rules_body_refused)

lemma ApplyStoreRules_stores:
  "stores (ApplyStoreRules request response policy) \<longleftrightarrow>
    request_rules request response \<and> sharing_rules request response \<and>
    stores (store_rules_body response policy (summarise_cc (sr_headers response)) (rules_verdict (sr_headers response)))"
  using ApplyStoreRules_body [of request response policy] ApplyStoreRules_refused [of request response policy]
  by (cases "request_rules request response \<and> sharing_rules request response") (auto simp: stores_def)

lemma store_body_value:
  assumes "stores (store_rules_body response policy s v)"
  shows "\<exists>a r. store_rules_body response policy s v =
    (freshness_rule (sr_headers response) s (sp_now_seconds policy)
       (v\<lparr>sv_sidecar := ClassifyForHeadersSidecar (sr_headers response), sv_sidecar_evaluated := True\<rparr>))
       \<lparr>sv_action := a, sv_reason := r\<rparr>"
proof -
  from assms have "sc_verdict (ClassifyForHeadersSidecar (sr_headers response)) = kSwapEligible"
    by (simp add: store_body_stores)
  with assms show ?thesis
    unfolding store_rules_body_def Let_def by (auto split: if_splits option.splits)
qed

lemma store_body_fields:
  assumes "stores (store_rules_body response policy s v)"
  shows "sv_explicit_shared (store_rules_body response policy s v) = sv_explicit_shared v"
    and "sv_lifetime_s (store_rules_body response policy s v) =
      sv_lifetime_s (freshness_rule (sr_headers response) s (sp_now_seconds policy) v)"
proof -
  obtain a r where "store_rules_body response policy s v =
    (freshness_rule (sr_headers response) s (sp_now_seconds policy)
       (v\<lparr>sv_sidecar := ClassifyForHeadersSidecar (sr_headers response), sv_sidecar_evaluated := True\<rparr>))
       \<lparr>sv_action := a, sv_reason := r\<rparr>"
    using store_body_value [OF assms] by blast
  then show "sv_explicit_shared (store_rules_body response policy s v) = sv_explicit_shared v"
    and "sv_lifetime_s (store_rules_body response policy s v) =
      sv_lifetime_s (freshness_rule (sr_headers response) s (sp_now_seconds policy) v)"
    by (simp_all add: freshness_rule_def Let_def split_beta)
qed

section \<open>Properties\<close>

definition header_named :: "string \<Rightarrow> HeaderField \<Rightarrow> bool" where
  "header_named n h \<longleftrightarrow> AsciiToLower (hf_name h) = n"

lemma policy_lower_names:
  "AsciiToLower ''content-range'' = ''content-range''" "AsciiToLower ''set-cookie'' = ''set-cookie''"
  "AsciiToLower ''set-cookie2'' = ''set-cookie2''"
  by code_simp+

lemma no_member_flag:
  assumes "(n, f) \<in> set kCCDirectives"
  shows "occ_flags (cs_cc (summarise_cc hs)) AND f = 0 \<longleftrightarrow>
    \<not> (\<exists>h \<in> set hs. header_named ''cache-control'' h \<and> (\<exists>t \<in> set (list_members (CHR '','') (hf_value h)). named t n))"
  using summarise_flags [OF assms, of hs] by (auto simp: cc_line_def header_named_def)

lemma ClassifyHtmlForStore_stores:
  "stores (ClassifyHtmlForStore request response policy) \<longleftrightarrow>
    (sp_mode policy = kServeVariants \<or> sp_mode policy = kServeCachedHtml) \<and>
    stores (ApplyStoreRules request response policy)"
  by (cases "sp_mode policy") (auto simp: ClassifyHtmlForStore_def Let_def stores_def)

text \<open>
  C1: a page is stored only when it can be shared: the mode serves, the request is an anonymous GET, the
  response is a complete 200 without Set-Cookie or Content-Range, no Cache-Control member is named private or
  no-store, every Vary member is Accept-Encoding, the stored headers can be replayed, a cookie on the request
  is outweighed by an explicit permission to share, the body is at most 16 MiB and shows no personalisation
  signal in the scanned prefix, and there is a validator or a lifetime above zero.
\<close>

theorem stored_page_is_shareable:
  assumes "stores (ClassifyHtmlForStore request response policy)"
  defines "headers \<equiv> sr_headers response"
  shows "(sp_mode policy = kServeVariants \<or> sp_mode policy = kServeCachedHtml) \<and>
    sq_method request = ''GET'' \<and> sr_status response = 200 \<and> sr_body_complete response \<and>
    \<not> sq_has_authorization request \<and> \<not> sq_authenticated_user request \<and> \<not> sq_request_no_store request \<and>
    \<not> (\<exists>h \<in> set headers. AsciiToLower (hf_name h) \<in> {''set-cookie'', ''set-cookie2'', ''content-range''}) \<and>
    \<not> (\<exists>h \<in> set headers. AsciiToLower (hf_name h) = ''cache-control'' \<and>
         (\<exists>t \<in> set (list_members (CHR '','') (hf_value h)). TrimOws t \<noteq> [] \<and>
            AsciiToLower (token_name (TrimOws t)) \<in> {''private'', ''no-store''})) \<and>
    \<not> (\<exists>h \<in> set headers. AsciiToLower (hf_name h) = ''vary'' \<and>
         (\<exists>t \<in> set (list_members (CHR '','') (hf_value h)). TrimOws t \<noteq> [] \<and>
            AsciiToLower (TrimOws t) \<noteq> ''accept-encoding'')) \<and>
    sc_verdict (ClassifyForHeadersSidecar headers) = kSwapEligible \<and>
    (sq_has_cookie request \<longrightarrow> sv_explicit_shared (ClassifyHtmlForStore request response policy)) \<and>
    sr_body_bytes response \<le> 16777216 \<and>
    ScanForSignal (sr_body_prefix response) (sr_body_bytes response > kPersonalisationScanBytes) = None \<and>
    (has_validator headers \<or> sv_lifetime_s (ClassifyHtmlForStore request response policy) > 0)"
proof -
  let ?v = "store_rules_body response policy (summarise_cc headers) (rules_verdict headers)"
  from assms(1) have mode: "sp_mode policy = kServeVariants \<or> sp_mode policy = kServeCachedHtml"
    and apply_stores: "stores (ApplyStoreRules request response policy)"
    by (simp_all add: ClassifyHtmlForStore_stores)
  then have rules: "request_rules request response" "sharing_rules request response" and body: "stores ?v"
    by (simp_all add: ApplyStoreRules_stores headers_def)
  have v: "ClassifyHtmlForStore request response policy = ?v"
    using mode ApplyStoreRules_body [OF rules] by (auto simp: ClassifyHtmlForStore_def Let_def headers_def)
  note b = body [unfolded store_body_stores]
  have names: "\<not> (\<exists>h \<in> set headers. AsciiToLower (hf_name h) \<in> {''set-cookie'', ''set-cookie2'', ''content-range''})"
    using rules(1) by (auto simp: request_rules_def FindHeader_None policy_lower_names headers_def)
  have dirs: "(''private'', kCCOriginPrivate) \<in> set kCCDirectives" "(''no-store'', kCCOriginNoStore) \<in> set kCCDirectives"
    by (simp_all add: kCCDirectives_def)
  have cc: "\<not> (\<exists>h \<in> set headers. AsciiToLower (hf_name h) = ''cache-control'' \<and>
      (\<exists>t \<in> set (list_members (CHR '','') (hf_value h)). TrimOws t \<noteq> [] \<and>
         AsciiToLower (token_name (TrimOws t)) \<in> {''private'', ''no-store''}))"
    using rules(2) unfolding sharing_rules_def Let_def no_member_flag [OF dirs(1)] no_member_flag [OF dirs(2)]
    by (auto simp: header_named_def named_def headers_def)
  have vary: "\<not> (\<exists>h \<in> set headers. AsciiToLower (hf_name h) = ''vary'' \<and>
      (\<exists>t \<in> set (list_members (CHR '','') (hf_value h)). TrimOws t \<noteq> [] \<and> AsciiToLower (TrimOws t) \<noteq> ''accept-encoding''))"
    using rules(2) vary_tokens_iff [of _ headers] unfolding sharing_rules_def Let_def find_None_iff headers_def by blast
  have cookie: "sq_has_cookie request \<longrightarrow> sv_explicit_shared ?v"
    using rules(2) unfolding store_body_fields(1) [OF body] by (simp add: sharing_rules_def rules_verdict_def Let_def headers_def)
  have life: "has_validator headers \<or> sv_lifetime_s ?v > 0"
    using b freshness_rule_sel(3) [of "sr_headers response" "summarise_cc headers" "sp_now_seconds policy" "rules_verdict headers"]
    unfolding store_body_fields(2) [OF body] unfolding Let_def headers_def word_neq_0_conv by blast
  have rest: "sc_verdict (ClassifyForHeadersSidecar headers) = kSwapEligible" "sr_body_bytes response \<le> 16777216"
    "ScanForSignal (sr_body_prefix response) (sr_body_bytes response > kPersonalisationScanBytes) = None"
    using b by (simp_all add: headers_def kHtmlStoreHardMaxBodyBytes_def)
  show ?thesis
    using mode rules(1) names cc vary cookie life rest unfolding request_rules_def v by blast
qed

definition sample_request :: HtmlStoreRequest where
  "sample_request = \<lparr>sq_method = ''GET'', sq_url_path = ''/'', sq_has_authorization = False,
     sq_authenticated_user = False, sq_has_cookie = False, sq_request_no_store = False\<rparr>"

definition sample_response :: HtmlStoreResponse where
  "sample_response = \<lparr>sr_status = 200, sr_headers = [\<lparr>hf_name = ''content-type'', hf_value = ''text/html''\<rparr>,
     \<lparr>hf_name = ''cache-control'', hf_value = ''public''\<rparr>, \<lparr>hf_name = ''ETag'', hf_value = ''x''\<rparr>],
     sr_body_bytes = 2, sr_body_complete = True, sr_body_prefix = ''Hi''\<rparr>"

definition sample_policy :: HtmlStorePolicy where
  "sample_policy = \<lparr>sp_mode = kServeVariants, sp_max_body_bytes = 1000, sp_now_seconds = 0\<rparr>"

lemma sample_request_rules: "request_rules sample_request sample_response"
proof -
  have "\<not> url_refused ''/''" "\<not> content_type_refused (sr_headers sample_response)"
    "\<not> encoding_refused (sr_headers sample_response)" by code_simp+
  moreover have "FindHeader (sr_headers sample_response) ''content-range'' = None"
    "FindHeader (sr_headers sample_response) ''set-cookie'' = None" "FindHeader (sr_headers sample_response) ''set-cookie2'' = None"
    by code_simp+
  ultimately show ?thesis by (simp add: request_rules_def sample_request_def) (simp add: sample_response_def)
qed

lemma sample_sharing_rules: "sharing_rules sample_request sample_response"
proof -
  have "occ_flags (cs_cc (summarise_cc (sr_headers sample_response))) = 0x210" by code_simp
  moreover have "List.find (\<lambda>token. token \<noteq> ''accept-encoding'') (vary_tokens_of (joined_vary (sr_headers sample_response))) = None"
    by code_simp
  ultimately show ?thesis by (simp add: sharing_rules_def Let_def cc_flag_values sample_request_def)
qed

lemma sample_names:
  "Contains kReproducedByEntryMetadata ''content-type''" "Contains kReproducedByEntryMetadata ''cache-control''"
  "IsFieldName ''content-type''" "IsFieldName ''cache-control''" "IsStorableFieldValue ''text/html''" "IsStorableFieldValue ''public''"
  "\<not> AsciiEqualsIgnoreCase ''content-type'' ''content-security-policy''" "\<not> AsciiEqualsIgnoreCase ''cache-control'' ''content-security-policy''"
  "\<not> AsciiEqualsIgnoreCase ''content-type'' ''link''" "\<not> AsciiEqualsIgnoreCase ''cache-control'' ''link''"
  "\<not> AsciiEqualsIgnoreCase ''content-type'' ''vary''" "\<not> AsciiEqualsIgnoreCase ''cache-control'' ''vary''"
  by code_simp+

lemma sample_swap_eligible: "sc_verdict (ClassifyForHeadersSidecar (sr_headers sample_response)) = kSwapEligible"
  by (simp add: ClassifyForHeadersSidecar_def scan_headers_def sample_response_def scan_field_def scan_vary_def
        scan_limits_def Let_def sample_names sample_facts sidecar_encoded_size_def kMaxHeadersSidecarPayloadBytes_def
        kMaxHeadersSidecarNameBytes_def kMaxHeadersSidecarValueBytes_def)

lemma sample_stores: "stores (ClassifyHtmlForStore sample_request sample_response sample_policy)"
proof -
  have "has_validator (sr_headers sample_response)" by code_simp
  moreover have "ScanForSignal ''Hi'' False = None"
    by (simp add: ScanForSignal_def kPersonalisationScanBytes_def scan_tags.simps)
  ultimately show ?thesis
    by (simp add: ClassifyHtmlForStore_stores ApplyStoreRules_stores sample_request_rules sample_sharing_rules
        store_body_stores sample_swap_eligible)
       (simp add: sample_policy_def sample_response_def kHtmlStoreHardMaxBodyBytes_def kPersonalisationScanBytes_def)
qed

theorem stored_page_is_shareable_witness:
  "stores (ClassifyHtmlForStore sample_request sample_response sample_policy) \<and>
    sc_verdict (ClassifyForHeadersSidecar (sr_headers sample_response)) = kSwapEligible"
  using stored_page_is_shareable [OF sample_stores] sample_stores by blast


lemma ApplyStoreRules_action:
  "sv_action (ApplyStoreRules request response policy) \<in> {kRefuse, kStore, kStoreNoNotify}"
proof (cases "request_rules request response \<and> sharing_rules request response")
  case True
  show ?thesis
    unfolding ApplyStoreRules_body [OF True [THEN conjunct1] True [THEN conjunct2]] store_rules_body_def Let_def
    by (auto split: option.split)
qed (simp add: ApplyStoreRules_refused)

lemma mode_irrelevant:
  "ApplyStoreRules request response (policy\<lparr>sp_mode := mode\<rparr>) = ApplyStoreRules request response policy"
  by (cases policy)
    (simp only: ApplyStoreRules_def sharing_rules_body_def store_rules_body_def HtmlStorePolicy.simps)

text \<open>
  report-only predicts and never stores: its verdict is that of a serving mode for the same request,
  response and clock with the two storing actions renamed to their would-store forms, and every other field
  (reason, detail, lifetime, sidecar) equal.
\<close>

theorem report_only_predicts:
  "let served = ClassifyHtmlForStore request response (policy\<lparr>sp_mode := kServeVariants\<rparr>);
       reported = ClassifyHtmlForStore request response (policy\<lparr>sp_mode := kReportOnly\<rparr>)
   in \<not> stores reported \<and>
      reported = served\<lparr>sv_action :=
        (case sv_action served of kStore \<Rightarrow> kWouldStore | kStoreNoNotify \<Rightarrow> kWouldStoreNoNotify | a \<Rightarrow> a)\<rparr>"
  using ApplyStoreRules_action [of request response policy]
  by (cases "sv_action (ApplyStoreRules request response policy)")
     (auto simp: ClassifyHtmlForStore_def mode_irrelevant stores_def Let_def)

section \<open>Serving\<close>

lemma SaturateU32_uint: "0 \<le> x \<Longrightarrow> uint (SaturateU32 x) = min x 4294967295"
  by (cases "x \<le> 4294967295") (auto simp: SaturateU32_def uint_word_of_int_eq take_bit_int_eq_self min_def)

lemma serve_html_conditions:
  defines "age \<equiv> \<lambda>request stored. min 4294967295 (uint (sf_age_at_store stored) +
      max 0 (uint (vq_now_seconds request) - uint (sf_stored_at stored)))"
  shows "vv_action (ClassifyHtmlForServe request stored) = kServeHtml \<longleftrightarrow>
    vq_mode request = kServeCachedHtml \<and> \<not> vq_wants_markdown request \<and> sf_present stored \<and>
    \<not> vq_has_authorization request \<and> \<not> vq_authenticated_user request \<and>
    \<not> (vq_has_cookie request \<and> \<not> sf_explicit_shared stored) \<and>
    \<not> vq_cache_control_no_cache request \<and> \<not> (vq_pragma_no_cache request \<and> \<not> vq_has_cache_control request) \<and>
    \<not> sf_purged stored \<and> \<not> sf_headers_not_reproducible stored \<and>
    \<not> (sf_sidecar_required stored \<and> \<not> sf_sidecar_present stored) \<and>
    (if sf_validated_this_request stored then True
     else \<not> sf_needs_validation stored \<and> age request stored < uint (sf_lifetime_s stored) \<and>
       \<not> (0 \<le> vq_max_age request \<and> vq_max_age request < age request stored) \<and>
       \<not> (0 \<le> vq_min_fresh request \<and> uint (sf_lifetime_s stored) < age request stored + vq_min_fresh request))"
proof -
  have age: "uint (serve_age request stored) = age request stored"
    unfolding serve_age_def age_def by (subst SaturateU32_uint) simp_all
  have fresh: "serve_fresh request stored \<longleftrightarrow>
      \<not> sf_needs_validation stored \<and> age request stored < uint (sf_lifetime_s stored) \<and>
       \<not> (0 \<le> vq_max_age request \<and> vq_max_age request < age request stored) \<and>
       \<not> (0 \<le> vq_min_fresh request \<and> uint (sf_lifetime_s stored) < age request stored + vq_min_fresh request)"
  proof -
    have "0 \<le> age request stored" unfolding age_def by simp
    moreover from this have "sf_lifetime_s stored \<noteq> 0" if "age request stored < uint (sf_lifetime_s stored)"
      using that by auto
    ultimately show ?thesis by (auto simp: serve_fresh_def Let_def age)
  qed
  show ?thesis
    unfolding fresh [symmetric]
    by (cases "vq_mode request") (simp_all add: ClassifyHtmlForServe_def serve_decision_def Let_def split_beta)
qed

text \<open>
  C2: stored HTML is served exactly when the mode serves it, the entry is present, complete with its sidecar and
  not purged, the request is anonymous or the page explicitly shared, the client forbids no cached answer,
  wants HTML, and the page was validated for this request or is fresh: younger than its lifetime, no older than
  the request's max-age and with its min-fresh left, all on the exact age.
\<close>

theorem serve_html_iff:
  "let age = min 4294967295 (uint (sf_age_at_store stored) +
         max 0 (uint (vq_now_seconds request) - uint (sf_stored_at stored)))
   in vv_action (ClassifyHtmlForServe request stored) = kServeHtml \<longleftrightarrow>
      vq_mode request = kServeCachedHtml \<and> \<not> vq_wants_markdown request \<and> sf_present stored \<and>
      \<not> vq_has_authorization request \<and> \<not> vq_authenticated_user request \<and>
      \<not> (vq_has_cookie request \<and> \<not> sf_explicit_shared stored) \<and>
      \<not> vq_cache_control_no_cache request \<and> \<not> (vq_pragma_no_cache request \<and> \<not> vq_has_cache_control request) \<and>
      \<not> sf_purged stored \<and> \<not> sf_headers_not_reproducible stored \<and>
      \<not> (sf_sidecar_required stored \<and> \<not> sf_sidecar_present stored) \<and>
      (if sf_validated_this_request stored then True
       else \<not> sf_needs_validation stored \<and> age < uint (sf_lifetime_s stored) \<and>
         \<not> (0 \<le> vq_max_age request \<and> vq_max_age request < age) \<and>
         \<not> (0 \<le> vq_min_fresh request \<and> uint (sf_lifetime_s stored) < age + vq_min_fresh request))"
  using serve_html_conditions [of request stored] by (simp only: Let_def)

end
