(* ===== verification/Html_Cache_Decision.thy ===== *)
theory Html_Cache_Decision
  imports Html_Cache_Policy
begin

text \<open>
  The decision log of the HTML cache: \<open>lib/cache/html_cache_decision.cc\<close>.  One decision is one JSON line of
  fixed keys in a fixed order, whose values follow a grammar per key; a second rendering is the key by which
  repeated decisions are counted once.  The line is read back here by a reader of the same grammar, which is
  not part of the source and states what a consumer of the log relies on.
\<close>

section \<open>Keys\<close>

record HtmlCacheDecisionField =
  df_key :: string
  df_value :: string

definition kMaxHtmlCacheDecisionPathBytes :: nat where "kMaxHtmlCacheDecisionPathBytes = 300"

definition kMaxHtmlCacheDecisionVaryBytes :: nat where "kMaxHtmlCacheDecisionVaryBytes = 1024"

definition kKeys :: "string list" where
  "kKeys =
    [''ts_ms'', ''host'', ''path'', ''mode'', ''action'',
     ''reason'', ''status'', ''size'', ''lifetime_s'', ''validators'',
     ''cc'', ''vary'', ''sidecar'', ''request'', ''personalisation'',
     ''before'', ''variant'', ''binding'', ''age_s'']"

definition IsNumericKey :: "string \<Rightarrow> bool" where
  "IsNumericKey key \<longleftrightarrow>
     key = ''ts_ms'' \<or> key = ''status'' \<or> key = ''size'' \<or> key = ''lifetime_s'' \<or> key = ''age_s''"

definition IsCanonicalInteger :: "string \<Rightarrow> bool" where
  "IsCanonicalInteger v \<longleftrightarrow>
     \<not> (v = [] \<or> length v > 20) \<and> \<not> (length v > 1 \<and> hd v = CHR ''0'') \<and> list_all is_digit_char v"

definition KeyIndex :: "string \<Rightarrow> nat" where
  "KeyIndex key =
     (case List.find (\<lambda>i. kKeys ! i = key) [0..<length kKeys] of Some i \<Rightarrow> i | None \<Rightarrow> length kKeys)"

definition HasForbiddenByte :: "string \<Rightarrow> bool" where
  "HasForbiddenByte v \<longleftrightarrow> list_ex (\<lambda>c. (of_char c :: nat) \<le> 0x1F \<or> (of_char c :: nat) = 0x7F) v"

section \<open>The value grammar\<close>

definition IsAlnum :: "char \<Rightarrow> bool" where
  "IsAlnum c \<longleftrightarrow> (CHR ''0'' \<le> c \<and> c \<le> CHR ''9'') \<or> (CHR ''a'' \<le> c \<and> c \<le> CHR ''z'') \<or>
     (CHR ''A'' \<le> c \<and> c \<le> CHR ''Z'')"

definition TrimSpaces :: "string \<Rightarrow> string" where
  "TrimSpaces s = trim (\<lambda>c. c = CHR '' '') s"

definition IsMember :: "string \<Rightarrow> string list \<Rightarrow> bool" where
  "IsMember v names = list_ex (\<lambda>s. s = v) names"

definition kMaxHostBytes :: nat where "kMaxHostBytes = 255"

definition IsHost :: "string \<Rightarrow> bool" where
  "IsHost v \<longleftrightarrow>
     \<not> (v = [] \<or> length v > kMaxHostBytes) \<and> list_all (\<lambda>c. IsAlnum c \<or> c \<in> set ''.-_:[]'') v"

definition IsPath :: "string \<Rightarrow> bool" where
  "IsPath v \<longleftrightarrow>
     v \<noteq> [] \<and> length v \<le> kMaxHtmlCacheDecisionPathBytes \<and>
     \<not> list_ex (\<lambda>c. c \<in> set ''%;'') v \<and> \<not> list_ex (\<lambda>c. c \<in> set ''?#'') v"

text \<open>The enumerations in declaration order: the loops over their numeric values.\<close>

definition all_modes :: "HtmlCacheMode list" where
  "all_modes = [kOff_mode, kReportOnly, kServeVariants, kServeCachedHtml]"

definition all_store_actions :: "HtmlStoreAction list" where
  "all_store_actions = [kRefuse, kStore, kStoreNoNotify, kWouldStore, kWouldStoreNoNotify]"

definition all_serve_actions :: "HtmlServeAction list" where
  "all_serve_actions = [kFallThrough_serve, kServeHtml, kServeMarkdown, kValidate]"

definition all_store_reasons :: "HtmlStoreReason list" where
  "all_store_reasons =
    [kNone_store, kMethod, kStatus, kIncomplete, kAuthRequest, kCookieRequest, kSetCookie, kPrivate, kNoStore,
     kNoLifetime, kVary, kHeaders, kNonceCsp, kNonceLink, kContentType, kEncoding, kSize, kUrl,
     kPersonalisationSignal, kNoTransform, kMode]"

definition all_serve_reasons :: "HtmlServeReason list" where
  "all_serve_reasons =
    [kFresh_serve, kMode_serve, kAuthRequest_serve, kCookieRequest_serve, kClientNoCache, kNeedsValidation, kStale,
     kHeadersNotReproducible, kSidecarMissing, kPurged, kAbsent, kBindingStale, kParentStale]"

definition IsMode :: "string \<Rightarrow> bool" where
  "IsMode v = list_ex (\<lambda>m. HtmlCacheModeName m = v) all_modes"

definition kOutcomes :: "string list" where
  "kOutcomes =
    [''would_store'', ''stored'', ''skipped'', ''would_serve'', ''served_html'',
     ''served_markdown'', ''validated'', ''purged'', ''invalidated'']"

definition IsAction :: "string \<Rightarrow> bool" where
  "IsAction v \<longleftrightarrow>
     IsMember v kOutcomes \<or> list_ex (\<lambda>a. HtmlStoreActionName a = v) all_store_actions \<or>
     list_ex (\<lambda>a. HtmlServeActionName a = v) all_serve_actions"

definition IsReportOnlyAction :: "string \<Rightarrow> bool" where
  "IsReportOnlyAction v \<longleftrightarrow>
     v = ''would_store'' \<or> v = ''would_store_no_notify'' \<or> v = ''skipped'' \<or> v = ''refuse''"

definition kFrontEndReasons :: "string list" where
  "kFrontEndReasons = [''validated'', ''validation_failed'', ''sidecar_write_failed'', ''invalidated'']"

definition IsBareReason :: "string \<Rightarrow> bool" where
  "IsBareReason v \<longleftrightarrow>
     list_ex (\<lambda>r. HtmlStoreReasonName r = v) all_store_reasons \<or>
     list_ex (\<lambda>r. HtmlServeReasonName r = v) all_serve_reasons \<or> IsMember v kFrontEndReasons"

definition IsReason :: "string \<Rightarrow> bool" where
  "IsReason v \<longleftrightarrow>
     (case sv_find (CHR '':'') v of
        None \<Rightarrow> IsBareReason v
      | Some colon \<Rightarrow>
          (let bare = take colon v; detail = drop (Suc colon) v
           in if bare \<noteq> ''headers'' \<and> bare \<noteq> ''vary'' then False
              else length detail \<le> kMaxHtmlStoreDetailBytes \<and> IsHttpToken detail))"

definition IsSidecar :: "string \<Rightarrow> bool" where
  "IsSidecar v \<longleftrightarrow>
     (if v = ''eligible_block'' \<or> v = ''eligible_empty'' \<or> v = ''fall_through'' \<or>
         v = ''never:nonce_csp'' \<or> v = ''never:nonce_link'' then True
      else if take 13 v \<noteq> ''fall_through:'' then False
      else length (drop 13 v) \<le> kMaxHtmlStoreDetailBytes \<and> IsHttpToken (drop 13 v))"

lemma after_shorter: "d \<in> set v \<Longrightarrow> length (after (sv_find d v) v) < length v"
  by (cases v) (auto simp: after_def split: option.split)

text \<open>The index \<open>next\<close> is the suffix of the names that may still follow.\<close>

function ordered_subset_loop :: "string \<Rightarrow> string list \<Rightarrow> bool" where
  "ordered_subset_loop v names =
     (let comma = sv_find (CHR '','') v; rest = dropWhile (\<lambda>n. n \<noteq> before comma v) names
      in if rest = [] then False
         else if comma = None then True
         else if after comma v = [] then False
         else ordered_subset_loop (after comma v) (tl rest))"
  by pat_completeness auto
termination
  by (relation "measure (\<lambda>(v, names). length v)") (auto intro: after_shorter)

definition IsOrderedSubset :: "string \<Rightarrow> string list \<Rightarrow> bool" where
  "IsOrderedSubset v names =
     (if v = ''none'' then True else if v = [] then False else ordered_subset_loop v names)"

definition kValidatorNames :: "string list" where
  "kValidatorNames = [''etag'', ''last_modified'']"

definition kRequestNames :: "string list" where
  "kRequestNames = [''authorization'', ''cookie'', ''no_cache'', ''accept_markdown'']"

definition kDirectives :: "string list" where
  "kDirectives =
    [''immutable'', ''max-age'', ''must-revalidate'', ''no-cache'',
     ''no-store'', ''no-transform'', ''private'', ''proxy-revalidate'',
     ''public'', ''s-maxage'', ''stale-if-error'', ''stale-while-revalidate'']"

definition kNumericDirectives :: "string list" where
  "kNumericDirectives = [''max-age'', ''s-maxage'', ''stale-if-error'', ''stale-while-revalidate'']"

definition directive_index :: "string \<Rightarrow> nat" where
  "directive_index name =
     fold (\<lambda>i index. if kDirectives ! i = name then i else index) [0..<length kDirectives] (length kDirectives)"

function cache_control_loop :: "string \<Rightarrow> bool list \<Rightarrow> bool" where
  "cache_control_loop v seen =
     (let comma = sv_find (CHR '','') v; item = TrimSpaces (before comma v); eq = sv_find (CHR ''='') item;
          name = before eq item; index = directive_index name
      in if index = length kDirectives \<or> seen ! index then False
         else if eq \<noteq> None \<and> (\<not> IsMember name kNumericDirectives \<or> \<not> IsCanonicalInteger (after eq item)) then False
         else if comma = None then True
         else cache_control_loop (after comma v) (seen[index := True]))"
  by pat_completeness auto
termination
  by (relation "measure (\<lambda>(v, seen). length v)") (auto intro: after_shorter)

definition IsCacheControl :: "string \<Rightarrow> bool" where
  "IsCacheControl v =
     (if v = [] then False else cache_control_loop v (replicate (length kDirectives) False))"

function vary_list_loop :: "string \<Rightarrow> bool" where
  "vary_list_loop v =
     (let comma = sv_find (CHR '','') v
      in if \<not> IsHttpToken (TrimSpaces (before comma v)) then False
         else if comma = None then True
         else vary_list_loop (after comma v))"
  by pat_completeness auto
termination
  by (relation "measure length") (auto intro: after_shorter)

definition IsVaryList :: "string \<Rightarrow> bool" where
  "IsVaryList v =
     (if v = [] \<or> length v > kMaxHtmlCacheDecisionVaryBytes then False else vary_list_loop v)"

definition IsHash :: "string \<Rightarrow> bool" where
  "IsHash v \<longleftrightarrow>
     \<not> (v = [] \<or> length v > 20) \<and>
     list_all (\<lambda>c. (CHR ''0'' \<le> c \<and> c \<le> CHR ''9'') \<or> (CHR ''a'' \<le> c \<and> c \<le> CHR ''f'')) v"

declare ordered_subset_loop.simps [simp del] cache_control_loop.simps [simp del] vary_list_loop.simps [simp del]

definition ValueFits :: "string \<Rightarrow> string \<Rightarrow> bool" where
  "ValueFits key value =
     (if value = [] \<or> HasForbiddenByte value then False
      else if IsNumericKey key then IsCanonicalInteger value
      else if key = ''host'' then IsHost value
      else if key = ''path'' then IsPath value
      else if key = ''mode'' then IsMode value
      else if key = ''action'' then IsAction value
      else if key = ''reason'' then IsReason value
      else if key = ''validators'' then IsOrderedSubset value kValidatorNames
      else if key = ''cc'' then IsCacheControl value
      else if key = ''vary'' then IsVaryList value
      else if key = ''sidecar'' then IsSidecar value
      else if key = ''request'' then IsOrderedSubset value kRequestNames
      else if key = ''personalisation'' then IsMember value kSignalNames
      else if key = ''before'' then IsHash value
      else if key = ''variant'' then value = ''0x7C'' \<or> value = ''markdown''
      else if key = ''binding'' then value = ''live'' \<or> value = ''stale''
      else False)"

section \<open>The line\<close>

definition kHex :: string where "kHex = ''0123456789abcdef''"

definition escape_char :: "char \<Rightarrow> string" where
  "escape_char c =
     (let u = (of_char c :: nat)
      in if c = CHR 0x22 \<or> c = CHR 0x5C then [CHR 0x5C, c]
         else if u \<ge> 0x80 then [CHR 0x5C] @ ''u00'' @ [kHex ! (u div 16), kHex ! (u mod 16)]
         else [c])"

definition AppendEscaped :: "string \<Rightarrow> string \<Rightarrow> string" where
  "AppendEscaped out value = out @ concat (map escape_char value)"

definition HtmlCacheDecisionValueFits :: "string \<Rightarrow> string \<Rightarrow> bool" where
  "HtmlCacheDecisionValueFits key value \<longleftrightarrow> KeyIndex key \<noteq> length kKeys \<and> ValueFits key value"

definition store_side_field :: "HtmlCacheDecisionField \<Rightarrow> bool" where
  "store_side_field field =
     (if df_key field = ''variant'' \<or> df_key field = ''binding'' \<or> df_key field = ''age_s'' then False
      else if df_key field = ''mode'' \<and> df_value field \<noteq> ''off'' \<and> df_value field \<noteq> ''report-only'' then False
      else if df_key field = ''action'' \<and> \<not> IsReportOnlyAction (df_value field) then False
      else if df_key field = ''request'' \<and>
              (sv_find_str ''no_cache'' (df_value field) \<noteq> None \<or>
               sv_find_str ''accept_markdown'' (df_value field) \<noteq> None) then False
      else if df_key field = ''reason'' then
        (let bare = before (sv_find (CHR '':'') (df_value field)) (df_value field)
         in bare = ''sidecar_write_failed'' \<or> list_ex (\<lambda>r. HtmlStoreReasonName r = bare) all_store_reasons)
      else True)"

definition HtmlCacheDecisionIsStoreSide :: "HtmlCacheDecisionField list \<Rightarrow> bool" where
  "HtmlCacheDecisionIsStoreSide entries = list_all store_side_field entries"

fun fill_slots :: "HtmlCacheDecisionField list \<Rightarrow> string option list \<Rightarrow> string option list option" where
  "fill_slots [] slots = Some slots"
| "fill_slots (field # entries) slots =
     (let index = KeyIndex (df_key field)
      in if index = length kKeys then None
         else if slots ! index \<noteq> None then None
         else if \<not> ValueFits (kKeys ! index) (df_value field) then None
         else fill_slots entries (slots[index := Some (df_value field)]))"

definition render_value :: "string \<Rightarrow> string \<Rightarrow> string" where
  "render_value key value =
     (if IsNumericKey key then value else [CHR 0x22] @ AppendEscaped [] value @ [CHR 0x22])"

fun render_slots :: "bool \<Rightarrow> (string \<times> string option) list \<Rightarrow> string" where
  "render_slots first [] = []"
| "render_slots first ((key, slot) # rest) =
     (case slot of
        None \<Rightarrow> render_slots first rest
      | Some val \<Rightarrow>
          (if first then [] else '','') @ [CHR 0x22] @ key @ [CHR 0x22, CHR '':''] @ render_value key val @
          render_slots False rest)"

definition report_only_conflict :: "string option list \<Rightarrow> bool" where
  "report_only_conflict slots \<longleftrightarrow>
     slots ! KeyIndex ''mode'' = Some ''report-only'' \<and>
     (case slots ! KeyIndex ''action'' of None \<Rightarrow> False | Some action \<Rightarrow> \<not> IsReportOnlyAction action)"

definition FormatHtmlCacheDecisionLine :: "HtmlCacheDecisionField list \<Rightarrow> string option" where
  "FormatHtmlCacheDecisionLine entries =
     (case fill_slots entries (replicate (length kKeys) None) of
        None \<Rightarrow> None
      | Some slots \<Rightarrow>
          if report_only_conflict slots then None
          else Some (''{'' @ render_slots True (zip kKeys slots) @ ''}''))"

definition HtmlCacheFnv1a64 :: "string \<Rightarrow> u64" where
  "HtmlCacheFnv1a64 bytes =
     fold (\<lambda>c hash. (hash XOR of_char c) * 0x100000001b3) bytes 0xcbf29ce484222325"

definition kDedupKeys :: "string list" where
  "kDedupKeys = [''host'', ''path'', ''mode'', ''action'', ''reason'', ''sidecar'', ''before'']"

definition dedup_value :: "HtmlCacheDecisionField list \<Rightarrow> string \<Rightarrow> string" where
  "dedup_value entries key =
     (case List.find (\<lambda>f. df_key f = key) entries of Some f \<Rightarrow> df_value f | None \<Rightarrow> [])"

fun dedup_join :: "bool \<Rightarrow> string list \<Rightarrow> string" where
  "dedup_join first [] = []"
| "dedup_join first (v # vs) = (if first then [] else [CHR 0x1F]) @ v @ dedup_join False vs"

definition HtmlCacheDecisionDedupKey :: "HtmlCacheDecisionField list \<Rightarrow> string" where
  "HtmlCacheDecisionDedupKey entries = dedup_join True (map (dedup_value entries) kDedupKeys)"

section \<open>Lemmas on the keys and the slots\<close>

lemma length_kKeys [simp]: "length kKeys = 19"
  by (simp add: kKeys_def)

lemma distinct_kKeys: "distinct kKeys"
  by code_simp

lemma KeyIndex_less: "KeyIndex key \<noteq> 19 \<Longrightarrow> KeyIndex key < 19 \<and> kKeys ! KeyIndex key = key"
  by (auto simp: KeyIndex_def find_Some_iff split: option.splits)

lemma KeyIndex_in: "KeyIndex key \<noteq> 19 \<longleftrightarrow> key \<in> set kKeys"
proof
  show "KeyIndex key \<noteq> 19 \<Longrightarrow> key \<in> set kKeys" using KeyIndex_less [of key] by (metis length_kKeys nth_mem)
  assume "key \<in> set kKeys"
  then obtain i where "i < 19" "kKeys ! i = key" by (auto simp: in_set_conv_nth)
  then show "KeyIndex key \<noteq> 19"
    by (auto simp: KeyIndex_def find_None_iff find_Some_iff split: option.split)
qed

text \<open>What a filled table holds: each supplied value at the slot of its key, and nothing else.\<close>

lemma fill_slots_Some:
  assumes "fill_slots entries slots = Some out" "length slots = 19"
  shows "length out = 19 \<and> distinct (map df_key entries) \<and>
    (\<forall>f \<in> set entries. df_key f \<in> set kKeys \<and> slots ! KeyIndex (df_key f) = None \<and> ValueFits (df_key f) (df_value f)) \<and>
    (\<forall>i < 19. out ! i = (case map_of (map (\<lambda>f. (df_key f, df_value f)) entries) (kKeys ! i) of
                          None \<Rightarrow> slots ! i | Some v \<Rightarrow> Some v))"
  using assms
proof (induction entries slots rule: fill_slots.induct)
  case (1 slots)
  then show ?case by simp
next
  case (2 field entries slots)
  let ?k = "KeyIndex (df_key field)"
  from 2(2) have k: "?k \<noteq> 19" "slots ! ?k = None" "ValueFits (kKeys ! ?k) (df_value field)"
    and rest: "fill_slots entries (slots[?k := Some (df_value field)]) = Some out"
    by (auto simp: Let_def split: if_splits)
  note kk = KeyIndex_less [OF k(1)]
  have IH: "length out = 19 \<and> distinct (map df_key entries) \<and>
    (\<forall>f \<in> set entries. df_key f \<in> set kKeys \<and> slots[?k := Some (df_value field)] ! KeyIndex (df_key f) = None \<and>
       ValueFits (df_key f) (df_value f)) \<and>
    (\<forall>i < 19. out ! i = (case map_of (map (\<lambda>f. (df_key f, df_value f)) entries) (kKeys ! i) of
                          None \<Rightarrow> slots[?k := Some (df_value field)] ! i | Some v \<Rightarrow> Some v))"
    using 2(1) [OF refl] k rest 2(3) by simp
  have fresh: "df_key f \<noteq> df_key field \<and> slots ! KeyIndex (df_key f) = None" if "f \<in> set entries" for f
  proof -
    have "slots[?k := Some (df_value field)] ! KeyIndex (df_key f) = None" using IH that by blast
    then show ?thesis using kk 2(3) by (metis nth_list_update_eq nth_list_update_neq option.distinct(1))
  qed
  then have none: "map_of (map (\<lambda>f. (df_key f, df_value f)) entries) (df_key field) = None"
    by (fastforce simp: map_of_eq_None_iff)
  have "out ! i = (case map_of (map (\<lambda>f. (df_key f, df_value f)) (field # entries)) (kKeys ! i) of
          None \<Rightarrow> slots ! i | Some v \<Rightarrow> Some v)" if i: "i < 19" for i
  proof (cases "kKeys ! i = df_key field")
    case True
    then have "i = ?k" using kk i distinct_kKeys by (metis length_kKeys nth_eq_iff_index_eq)
    then show ?thesis using IH none kk 2(3) by simp
  next
    case False
    then have "i \<noteq> ?k" using kk by auto
    then show ?thesis using IH False i by (auto split: option.split)
  qed
  moreover have "df_key field \<in> set kKeys" using kk by (metis length_kKeys nth_mem)
  moreover have "df_key field \<notin> df_key ` set entries" using fresh by fastforce
  moreover have "length out = 19" "distinct (map df_key entries)" "ValueFits (df_key field) (df_value field)"
    using IH k kk by simp_all
  moreover have "df_key f \<in> set kKeys \<and> ValueFits (df_key f) (df_value f)" if "f \<in> set entries" for f
    using IH that by blast
  ultimately show ?case using fresh k(2) by simp
qed

section \<open>Reading a line back\<close>

definition hex_value :: "char \<Rightarrow> nat" where
  "hex_value h = (case List.find (\<lambda>i. kHex ! i = h) [0..<16] of Some i \<Rightarrow> i | None \<Rightarrow> 0)"

fun read_string :: "string \<Rightarrow> (string \<times> string) option" where
  "read_string [] = None"
| "read_string (c # s) =
     (if c = CHR 0x22 then Some ([], s)
      else if c = CHR 0x5C then
        (case s of
           [] \<Rightarrow> None
         | d # s1 \<Rightarrow>
             if d = CHR ''u'' then
               (case s1 of
                  _ # _ # h # l # s2 \<Rightarrow>
                    map_option (\<lambda>(v, t). (char_of (16 * hex_value h + hex_value l) # v, t)) (read_string s2)
                | _ \<Rightarrow> None)
             else map_option (\<lambda>(v, t). (d # v, t)) (read_string s1))
      else map_option (\<lambda>(v, t). (c # v, t)) (read_string s))"

definition read_value :: "string \<Rightarrow> string \<Rightarrow> (string \<times> string) option" where
  "read_value key s =
     (if IsNumericKey key then Some (takeWhile is_digit_char s, dropWhile is_digit_char s)
      else (case s of [] \<Rightarrow> None | c # t \<Rightarrow> if c = CHR 0x22 then read_string t else None))"

definition member_prefix :: "bool \<Rightarrow> string \<Rightarrow> string" where
  "member_prefix first key = (if first then [] else '','') @ [CHR 0x22] @ key @ [CHR 0x22, CHR '':'']"

fun read_members :: "bool \<Rightarrow> string list \<Rightarrow> string \<Rightarrow> (string \<times> string) list option" where
  "read_members first [] s = (if s = ''}'' then Some [] else None)"
| "read_members first (key # keys) s =
     (if starts_with (member_prefix first key) s then
        (case read_value key (drop (length (member_prefix first key)) s) of
           None \<Rightarrow> None
         | Some (v, t) \<Rightarrow> map_option (\<lambda>l. (key, v) # l) (read_members False keys t))
      else read_members first keys s)"

definition read_line :: "string \<Rightarrow> (string \<times> string) list option" where
  "read_line s = (case s of [] \<Rightarrow> None | c # t \<Rightarrow> if c = CHR ''{'' then read_members True kKeys t else None)"

lemma hex_value_kHex: "i < 16 \<Longrightarrow> hex_value (kHex ! i) = i"
proof -
  assume "i < 16"
  then have "i \<in> set [0..<16]" by simp
  moreover have "list_all (\<lambda>i. hex_value (kHex ! i) = i) [0..<16]" by code_simp
  ultimately show ?thesis by (simp only: list_all_iff)
qed

lemma read_escape_char: "read_string (escape_char c @ rest) = map_option (\<lambda>(v, t). (c # v, t)) (read_string rest)"
proof -
  have u: "(of_char c :: nat) < 256" by (rule of_char_less_256)
  then have "hex_value (kHex ! (of_char c div 16)) = of_char c div 16" "hex_value (kHex ! (of_char c mod 16)) = of_char c mod 16"
    by (auto intro!: hex_value_kHex simp: div_less_iff_less_mult)
  then show ?thesis
    by (auto simp: escape_char_def Let_def)
qed

lemma read_escaped: "read_string (AppendEscaped [] v @ CHR 0x22 # rest) = Some (v, rest)"
  by (induction v) (simp_all add: AppendEscaped_def read_escape_char)

lemma read_render_value:
  assumes "ValueFits key v" "rest = [] \<or> \<not> is_digit_char (hd rest)"
  shows "read_value key (render_value key v @ rest) = Some (v, rest)"
proof (cases "IsNumericKey key")
  case True
  then have "list_all is_digit_char v"
    using assms(1) by (auto simp: ValueFits_def IsCanonicalInteger_def split: if_splits)
  moreover have "takeWhile is_digit_char rest = []" "dropWhile is_digit_char rest = rest"
    using assms(2) by (cases rest; simp)+
  ultimately show ?thesis
    using True by (simp add: read_value_def render_value_def takeWhile_append2 dropWhile_append2 list_all_iff)
next
  case False
  then show ?thesis by (simp add: read_value_def render_value_def read_escaped)
qed

lemma kKeys_no_quote: "key \<in> set kKeys \<Longrightarrow> CHR 0x22 \<notin> set key"
proof -
  have "list_all (\<lambda>k. CHR 0x22 \<notin> set k) kKeys" by code_simp
  then show "key \<in> set kKeys \<Longrightarrow> CHR 0x22 \<notin> set key" unfolding list_all_iff by blast
qed

lemma takeWhile_quote: "CHR 0x22 \<notin> set k \<Longrightarrow> takeWhile (\<lambda>c. c \<noteq> CHR 0x22) (k @ CHR 0x22 # u) = k"
  by (induction k) auto

lemma member_prefix_other:
  assumes "CHR 0x22 \<notin> set k" "CHR 0x22 \<notin> set k'" "k \<noteq> k'"
  shows "\<not> starts_with (member_prefix first k) (member_prefix first k' @ t)"
proof
  assume "starts_with (member_prefix first k) (member_prefix first k' @ t)"
  then obtain u where "k' @ CHR 0x22 # CHR '':'' # t = k @ CHR 0x22 # CHR '':'' # u"
    by (auto simp: starts_with_iff member_prefix_def split: if_splits)
  then show False using assms takeWhile_quote by metis
qed

lemma render_slots_next:
  assumes "\<forall>(k, slot) \<in> set ks. CHR 0x22 \<notin> set k" "k \<notin> fst ` set ks" "CHR 0x22 \<notin> set k"
  shows "\<not> starts_with (member_prefix first k) (render_slots first ks @ ''}'')"
  using assms
proof (induction ks)
  case Nil
  then show ?case by (simp add: starts_with_def member_prefix_def)
next
  case (Cons e ks)
  obtain k' slot where e: "e = (k', slot)" by (cases e)
  show ?case
  proof (cases slot)
    case None
    then show ?thesis using Cons e by auto
  next
    case (Some v)
    have "render_slots first (e # ks) @ ''}'' = member_prefix first k' @ render_value k' v @ render_slots False ks @ ''}''"
      by (simp add: e Some member_prefix_def)
    then show ?thesis using member_prefix_other [of k k'] Cons.prems e by auto
  qed
qed

lemma render_slots_False_hd: "\<not> is_digit_char (hd (render_slots False ks @ ''}''))"
proof (induction ks)
  case (Cons e ks)
  then show ?case by (cases e; cases "snd e") (auto simp: is_digit_char_def)
qed (simp add: is_digit_char_def)

lemma read_render_slots:
  assumes "\<forall>(k, slot) \<in> set ks. CHR 0x22 \<notin> set k \<and> (\<forall>v. slot = Some v \<longrightarrow> ValueFits k v)" "distinct (map fst ks)"
  shows "read_members first (map fst ks) (render_slots first ks @ ''}'') =
    Some (concat (map (\<lambda>(k, slot). case slot of None \<Rightarrow> [] | Some v \<Rightarrow> [(k, v)]) ks))"
  using assms
proof (induction ks arbitrary: first)
  case Nil
  then show ?case by simp
next
  case (Cons e ks)
  obtain k slot where e: "e = (k, slot)" by (cases e)
  show ?case
  proof (cases slot)
    case None
    have "\<not> starts_with (member_prefix first k) (render_slots first ks @ ''}'')"
      by (rule render_slots_next) (use Cons.prems e in auto)
    then show ?thesis using Cons e None by auto
  next
    case (Some v)
    have fits: "ValueFits k v" using Cons.prems e Some by auto
    have line: "render_slots first (e # ks) @ ''}'' = member_prefix first k @ render_value k v @ render_slots False ks @ ''}''"
      by (simp add: e Some member_prefix_def)
    have "read_value k (render_value k v @ render_slots False ks @ ''}'') = Some (v, render_slots False ks @ ''}'')"
      by (rule read_render_value [OF fits]) (use render_slots_False_hd in blast)
    moreover have "read_members False (map fst ks) (render_slots False ks @ ''}'') =
        Some (concat (map (\<lambda>(k, slot). case slot of None \<Rightarrow> [] | Some v \<Rightarrow> [(k, v)]) ks))"
      by (rule Cons.IH) (use Cons.prems in auto)
    ultimately show ?thesis unfolding line by (simp add: e Some)
  qed
qed

lemma map_of_slots:
  "length ks = length out \<Longrightarrow> distinct ks \<Longrightarrow>
    map_of (concat (map (\<lambda>(k, slot). case slot of None \<Rightarrow> [] | Some v \<Rightarrow> [(k, v)]) (zip ks out))) k =
    (case map_of (zip ks out) k of None \<Rightarrow> None | Some slot \<Rightarrow> slot)"
proof (induction ks out rule: list_induct2)
  case (Cons k' ks slot out)
  then have none: "map_of (zip ks out) k' = None" by simp
  from Cons show ?case by (cases slot; cases "k = k'") (simp_all add: none)
qed simp

lemma slots_of_Format:
  assumes "FormatHtmlCacheDecisionLine entries = Some line"
  obtains out where "length out = 19" "line = ''{'' @ render_slots True (zip kKeys out) @ ''}''"
    "distinct (map df_key entries)" "\<forall>f \<in> set entries. df_key f \<in> set kKeys \<and> ValueFits (df_key f) (df_value f)"
    "\<forall>i < 19. out ! i = map_of (map (\<lambda>f. (df_key f, df_value f)) entries) (kKeys ! i)"
    "\<forall>(k, slot) \<in> set (zip kKeys out). CHR 0x22 \<notin> set k \<and> (\<forall>v. slot = Some v \<longrightarrow> ValueFits k v)"
proof -
  from assms obtain out where fill: "fill_slots entries (replicate 19 None) = Some out"
    and line: "line = ''{'' @ render_slots True (zip kKeys out) @ ''}''"
    by (auto simp: FormatHtmlCacheDecisionLine_def split: option.splits if_splits)
  note f = fill_slots_Some [OF fill, simplified]
  have out: "out ! i = map_of (map (\<lambda>f. (df_key f, df_value f)) entries) (kKeys ! i)" if "i < 19" for i
    using f that by (auto split: option.split)
  have "CHR 0x22 \<notin> set k \<and> (\<forall>v. slot = Some v \<longrightarrow> ValueFits k v)" if "(k, slot) \<in> set (zip kKeys out)" for k slot
  proof -
    from that obtain i where i: "i < 19" "k = kKeys ! i" "slot = out ! i" by (auto simp: in_set_zip)
    have "ValueFits k v" if "slot = Some v" for v
    proof -
      have "(k, v) \<in> set (map (\<lambda>f. (df_key f, df_value f)) entries)"
        using out [OF i(1)] i that map_of_SomeD by metis
      then show ?thesis using f by auto
    qed
    moreover have "k \<in> set kKeys" using that by (rule set_zip_leftD)
    ultimately show ?thesis using kKeys_no_quote by blast
  qed
  with that [OF _ line] f out show ?thesis by blast
qed

lemma escape_char_ascii:
  assumes "(of_char c :: nat) > 0x1F" "(of_char c :: nat) \<noteq> 0x7F" "x \<in> set (escape_char c)"
  shows "0x20 \<le> (of_char x :: nat) \<and> (of_char x :: nat) < 0x7F"
proof -
  have hex: "0x20 \<le> (of_char (kHex ! i) :: nat) \<and> (of_char (kHex ! i) :: nat) < 0x7F" if "i < 16" for i
  proof -
    have "list_all (\<lambda>c. 0x20 \<le> (of_char c :: nat) \<and> (of_char c :: nat) < 0x7F) kHex" by code_simp
    moreover have "length kHex = 16" by (simp add: kHex_def)
    then have "kHex ! i \<in> set kHex" using that by (metis nth_mem)
    ultimately show ?thesis unfolding list_all_iff by blast
  qed
  have "(of_char c :: nat) < 256" by (rule of_char_less_256)
  then have "(of_char c :: nat) div 16 < 16" "(of_char c :: nat) mod 16 < 16" by (simp_all add: div_less_iff_less_mult)
  note h = hex [OF this(1)] hex [OF this(2)]
  show ?thesis
    using assms h by (auto simp: escape_char_def Let_def split: if_splits)
qed

lemma digit_ascii: "is_digit_char c \<Longrightarrow> 0x20 \<le> (of_char c :: nat) \<and> (of_char c :: nat) < 0x7F"
  by (auto simp: is_digit_char_def less_eq_char_def)

lemma render_value_ascii:
  assumes "ValueFits k v" "x \<in> set (render_value k v)"
  shows "0x20 \<le> (of_char x :: nat) \<and> (of_char x :: nat) < 0x7F"
proof (cases "IsNumericKey k")
  case True
  then have "list_all is_digit_char v"
    using assms(1) by (auto simp: ValueFits_def IsCanonicalInteger_def split: if_splits)
  with True assms(2) show ?thesis using digit_ascii by (auto simp: render_value_def list_all_iff)
next
  case False
  from assms(1) have "\<not> HasForbiddenByte v" by (simp add: ValueFits_def split: if_splits)
  then have "(of_char c :: nat) > 0x1F \<and> (of_char c :: nat) \<noteq> 0x7F" if "c \<in> set v" for c
    using that by (auto simp: HasForbiddenByte_def list_ex_iff)
  with False assms(2) escape_char_ascii show ?thesis
    by (auto simp: render_value_def AppendEscaped_def)
qed

lemma kKeys_ascii: "k \<in> set kKeys \<Longrightarrow> x \<in> set k \<Longrightarrow> 0x20 \<le> (of_char x :: nat) \<and> (of_char x :: nat) < 0x7F"
proof -
  have "list_all (list_all (\<lambda>x. 0x20 \<le> (of_char x :: nat) \<and> (of_char x :: nat) < 0x7F)) kKeys" by code_simp
  then show "k \<in> set kKeys \<Longrightarrow> x \<in> set k \<Longrightarrow> 0x20 \<le> (of_char x :: nat) \<and> (of_char x :: nat) < 0x7F"
    unfolding list_all_iff by blast
qed

lemma render_slots_ascii:
  assumes "\<forall>(k, slot) \<in> set ks. k \<in> set kKeys \<and> (\<forall>v. slot = Some v \<longrightarrow> ValueFits k v)" "x \<in> set (render_slots first ks)"
  shows "0x20 \<le> (of_char x :: nat) \<and> (of_char x :: nat) < 0x7F"
  using assms
proof (induction ks arbitrary: first)
  case (Cons e ks)
  obtain k slot where e: "e = (k, slot)" by (cases e)
  have k: "k \<in> set kKeys" using Cons.prems e by simp
  show ?case
  proof (cases slot)
    case None
    then show ?thesis using Cons.IH [of first] Cons.prems e by simp
  next
    case (Some v)
    then have "ValueFits k v" using Cons.prems e by simp
    then show ?thesis
      using Cons.prems Cons.IH [of False] render_value_ascii [of k v x] kKeys_ascii [OF k, of x]
      by (auto simp: e Some split: if_splits)
  qed
qed simp

section \<open>Properties\<close>

text \<open>
  C31: a decision line is one line of printable ASCII whatever bytes the values hold, and reading it back gives
  exactly the supplied value of every key; the supplied keys are then distinct and known.
\<close>

theorem FormatHtmlCacheDecisionLine_roundtrip:
  assumes "FormatHtmlCacheDecisionLine entries = Some line"
  shows "list_all (\<lambda>c. 0x20 \<le> (of_char c :: nat) \<and> (of_char c :: nat) < 0x7F) line \<and>
    map_option map_of (read_line line) = Some (map_of (map (\<lambda>f. (df_key f, df_value f)) entries)) \<and>
    distinct (map df_key entries) \<and> (\<forall>f \<in> set entries. df_key f \<in> set kKeys)"
proof -
  obtain out where len: "length out = 19" and line: "line = ''{'' @ render_slots True (zip kKeys out) @ ''}''"
    and dist: "distinct (map df_key entries)" and fits: "\<forall>f \<in> set entries. df_key f \<in> set kKeys \<and> ValueFits (df_key f) (df_value f)"
    and out: "\<forall>i < 19. out ! i = map_of (map (\<lambda>f. (df_key f, df_value f)) entries) (kKeys ! i)"
    and slots: "\<forall>(k, slot) \<in> set (zip kKeys out). CHR 0x22 \<notin> set k \<and> (\<forall>v. slot = Some v \<longrightarrow> ValueFits k v)"
    by (rule slots_of_Format [OF assms])
  have "list_all (\<lambda>c. 0x20 \<le> (of_char c :: nat) \<and> (of_char c :: nat) < 0x7F) line"
    using render_slots_ascii [of "zip kKeys out" _ True] slots set_zip_leftD
    by (fastforce simp: line list_all_iff)
  moreover have keys: "map fst (zip kKeys out) = kKeys" using len by simp
  have "read_line line = Some (concat (map (\<lambda>(k, slot). case slot of None \<Rightarrow> [] | Some v \<Rightarrow> [(k, v)]) (zip kKeys out)))"
    using read_render_slots [OF slots, of True] distinct_kKeys by (simp only: keys) (simp add: read_line_def line)
  moreover have "map_of (concat (map (\<lambda>(k, slot). case slot of None \<Rightarrow> [] | Some v \<Rightarrow> [(k, v)]) (zip kKeys out))) k =
      map_of (map (\<lambda>f. (df_key f, df_value f)) entries) k" for k
  proof (cases "k \<in> set kKeys")
    case True
    then obtain i where i: "i < 19" "k = kKeys ! i" by (auto simp: in_set_conv_nth)
    then have "map_of (zip kKeys out) k = Some (out ! i)"
      using len distinct_kKeys by (simp add: map_of_zip_nth)
    then show ?thesis using i out len distinct_kKeys by (simp add: map_of_slots)
  next
    case False
    then have "map_of (zip kKeys out) k = None" "map_of (map (\<lambda>f. (df_key f, df_value f)) entries) k = None"
      using len fits by (auto simp: map_of_eq_None_iff dest: set_zip_leftD)
    note none = this
    show ?thesis using len distinct_kKeys by (simp add: map_of_slots none)
  qed
  ultimately show ?thesis using dist fits by (simp add: fun_eq_iff)
qed

definition sample_decision :: "HtmlCacheDecisionField list" where
  "sample_decision = [\<lparr>df_key = ''action'', df_value = ''refuse''\<rparr>, \<lparr>df_key = ''status'', df_value = ''200''\<rparr>]"

theorem FormatHtmlCacheDecisionLine_roundtrip_witness:
  "\<exists>line. FormatHtmlCacheDecisionLine sample_decision = Some line \<and>
    map_option map_of (read_line line) = Some [''action'' \<mapsto> ''refuse'', ''status'' \<mapsto> ''200'']"
proof -
  have "FormatHtmlCacheDecisionLine sample_decision =
      Some (''{'' @ [CHR 0x22] @ ''action'' @ [CHR 0x22] @ '':'' @ [CHR 0x22] @ ''refuse'' @ [CHR 0x22] @ '','' @
            [CHR 0x22] @ ''status'' @ [CHR 0x22] @ '':200}'')"
    by code_simp
  from FormatHtmlCacheDecisionLine_roundtrip [OF this] this show ?thesis
    by (simp add: sample_decision_def fun_upd_twist)
qed

section \<open>Verdicts in the log\<close>

lemma IsBareReason_store: "IsBareReason (HtmlStoreReasonName r)"
  by (cases r) (simp_all add: IsBareReason_def all_store_reasons_def)

lemma store_name_plain: "list_all (\<lambda>c. IsHttpTokenChar c \<and> c \<noteq> CHR '':'') (HtmlStoreReasonName r)"
  by (cases r; simp add: HtmlStoreReasonName_def; code_simp)

lemma token_not_forbidden: "IsHttpTokenChar c \<Longrightarrow> 0x1F < (of_char c :: nat) \<and> (of_char c :: nat) \<noteq> 0x7F"
  by (auto simp: IsHttpTokenChar_def less_eq_char_def)

definition detail_ok :: "HtmlStoreVerdict \<Rightarrow> bool" where
  "detail_ok v \<longleftrightarrow> (sv_reason v = kHeaders \<or> sv_reason v = kVary) \<longrightarrow>
     sv_detail v = [] \<or> (length (sv_detail v) \<le> 128 \<and> list_all IsHttpTokenChar (sv_detail v))"

lemma detail_ok_if: "detail_ok (if b then x else y) = (if b then detail_ok x else detail_ok y)"
  by simp

lemma detail_ok_option: "detail_ok (case x of None \<Rightarrow> a | Some y \<Rightarrow> f y) = (case x of None \<Rightarrow> detail_ok a | Some y \<Rightarrow> detail_ok (f y))"
  by (cases x) simp_all

lemma SidecarDetail_token: "length (SidecarDetail c) \<le> 128 \<and> list_all IsHttpTokenChar (SidecarDetail c)"
proof -
  have lits: "list_all IsHttpTokenChar ''sidecar-too-large''" "list_all IsHttpTokenChar ''vary''" by code_simp+
  show ?thesis
    unfolding SidecarDetail_def using lits SanitizeDetail_token by (auto split: list.split option.split)
qed

lemma detail_ok_Refuse [simp]:
  "detail_ok (Refuse v r [])" "detail_ok (Refuse v kVary (SanitizeDetail s))" "detail_ok (Refuse v kHeaders (SidecarDetail c))"
  "detail_ok (Refuse v kPersonalisationSignal s)" "detail_ok (Refuse v kIncomplete s)" "detail_ok (Refuse v kNoStore s)"
  using SanitizeDetail_token SidecarDetail_token by (simp_all add: detail_ok_def)

lemma detail_ok_action [simp]:
  "detail_ok (v\<lparr>sv_action := a, sv_reason := kNoTransform\<rparr>)" "detail_ok (v\<lparr>sv_action := a, sv_reason := kNone_store\<rparr>)"
  by (simp_all add: detail_ok_def)

lemma ApplyStoreRules_detail: "detail_ok (ApplyStoreRules request response policy)"
proof -
  have "detail_ok (store_rules_body response policy s v)" for s v
    unfolding store_rules_body_def Let_def detail_ok_if detail_ok_option by (simp split: option.split)
  then have "detail_ok (sharing_rules_body request response policy v)" for v
    unfolding sharing_rules_body_def Let_def detail_ok_if detail_ok_option by (simp split: option.split)
  then show ?thesis
    unfolding ApplyStoreRules_def Let_def detail_ok_if by simp
qed

lemma ClassifyHtmlForStore_detail: "detail_ok (ClassifyHtmlForStore request response policy)"
  using ApplyStoreRules_detail [of request response policy]
  by (simp add: ClassifyHtmlForStore_def Let_def detail_ok_def)

lemma reason_fits: "detail_ok v \<Longrightarrow> ValueFits ''reason'' (store_reason_code v)"
proof -
  assume ok: "detail_ok v"
  let ?n = "HtmlStoreReasonName (sv_reason v)"
  have plain: "list_all (\<lambda>c. IsHttpTokenChar c \<and> c \<noteq> CHR '':'') ?n" by (rule store_name_plain)
  have colon: "CHR '':'' \<notin> set ?n" using plain by (auto simp: list_all_iff)
  have nonempty: "?n \<noteq> []" by (cases "sv_reason v") (simp_all add: HtmlStoreReasonName_def)
  have bytes: "\<not> HasForbiddenByte (store_reason_code v)"
    using ok plain token_not_forbidden
    by (fastforce simp: HasForbiddenByte_def store_reason_code_def detail_ok_def list_ex_iff list_all_iff)
  have "IsReason (store_reason_code v)"
  proof (cases "(sv_reason v = kHeaders \<or> sv_reason v = kVary) \<and> sv_detail v \<noteq> []")
    case True
    then have name: "?n = ''headers'' \<or> ?n = ''vary''" by (auto simp: HtmlStoreReasonName_def)
    have "store_reason_code v = ?n @ CHR '':'' # sv_detail v" using True by (simp add: store_reason_code_def)
    then show ?thesis
      using sv_find_first [OF colon, of "sv_detail v"] name ok True
      by (auto simp: IsReason_def Let_def IsHttpToken_def detail_ok_def kMaxHtmlStoreDetailBytes_def)
  next
    case False
    then have code: "store_reason_code v = ?n" unfolding store_reason_code_def if_not_P [OF False] by simp
    have none: "sv_find (CHR '':'') ?n = None" using colon by simp
    show ?thesis unfolding IsReason_def code none using IsBareReason_store by simp
  qed
  then show ?thesis
    using bytes nonempty by (simp add: ValueFits_def IsNumericKey_def store_reason_code_def)
qed

text \<open>
  C32: every store verdict can be logged: whatever the origin sent, the action and reason of the verdict fit the
  grammar of the decision line, header names and Vary tokens in the reason included.
\<close>

theorem store_verdict_is_loggable:
  "let v = ClassifyHtmlForStore request response policy
   in HtmlCacheDecisionValueFits ''reason'' (store_reason_code v) \<and>
      HtmlCacheDecisionValueFits ''action'' (HtmlStoreActionName (sv_action v)) \<and>
      HtmlCacheDecisionValueFits ''mode'' (HtmlCacheModeName (sp_mode policy))"
proof -
  have keys: "KeyIndex ''reason'' \<noteq> 19" "KeyIndex ''action'' \<noteq> 19" "KeyIndex ''mode'' \<noteq> 19"
    by (simp_all add: KeyIndex_in kKeys_def)
  have "list_all (\<lambda>a. ValueFits ''action'' (HtmlStoreActionName a)) all_store_actions"
    "list_all (\<lambda>m. ValueFits ''mode'' (HtmlCacheModeName m)) all_modes" by code_simp+
  moreover have "a \<in> set all_store_actions" for a by (cases a) (simp_all add: all_store_actions_def)
  moreover have "m \<in> set all_modes" for m by (cases m) (simp_all add: all_modes_def)
  ultimately have "ValueFits ''action'' (HtmlStoreActionName a)" "ValueFits ''mode'' (HtmlCacheModeName m)" for a m
    unfolding list_all_iff by blast+
  then show ?thesis
    using reason_fits [OF ClassifyHtmlForStore_detail] keys by (simp add: HtmlCacheDecisionValueFits_def Let_def)
qed

section \<open>The dedup key\<close>

lemma join_sep_inj:
  assumes "x \<notin> set a" "x \<notin> set b" "a @ x # u = b @ x # v"
  shows "a = b \<and> u = v"
  using assms
proof (induction a arbitrary: b)
  case Nil
  then show ?case by (cases b) auto
next
  case (Cons c a)
  then show ?case by (cases b) auto
qed

lemma dedup_join_inj:
  assumes "length us = length vs" "\<forall>u \<in> set us \<union> set vs. CHR 0x1F \<notin> set u"
  shows "dedup_join True us = dedup_join True vs \<longleftrightarrow> us = vs"
  using assms
proof (induction us vs rule: list_induct2)
  case (Cons u us v vs)
  have False_eq: "dedup_join False ws = (if ws = [] then [] else CHR 0x1F # dedup_join True ws)" for ws
    by (cases ws) simp_all
  show ?case
  proof (cases "us = []")
    case True
    then show ?thesis using Cons.hyps by simp
  next
    case False
    then have vs: "vs \<noteq> []" using Cons.hyps by auto
    have "dedup_join True (u # us) = dedup_join True (v # vs) \<longleftrightarrow>
        u @ CHR 0x1F # dedup_join True us = v @ CHR 0x1F # dedup_join True vs"
      by (simp add: False_eq False vs)
    also have "\<dots> \<longleftrightarrow> u = v \<and> dedup_join True us = dedup_join True vs"
      using join_sep_inj [of "CHR 0x1F" u v "dedup_join True us" "dedup_join True vs"] Cons.prems by auto
    also have "\<dots> \<longleftrightarrow> u # us = v # vs" using Cons.IH Cons.prems by simp
    finally show ?thesis .
  qed
qed simp

lemma dedup_value_sep:
  assumes "\<forall>f \<in> set entries. ValueFits (df_key f) (df_value f)"
  shows "CHR 0x1F \<notin> set (dedup_value entries k)"
proof (cases "List.find (\<lambda>f. df_key f = k) entries")
  case None
  then show ?thesis by (simp add: dedup_value_def)
next
  case (Some f)
  then have "f \<in> set entries" by (auto simp: find_Some_iff)
  then have "\<not> HasForbiddenByte (df_value f)" using assms by (auto simp: ValueFits_def split: if_splits)
  then show ?thesis using Some by (auto simp: dedup_value_def HasForbiddenByte_def list_ex_iff)
qed

text \<open>
  for decisions that can be logged the dedup key identifies the seven fields it is made of: two decisions
  have the same key exactly when each of these fields is absent in both or has the same value in both.
\<close>

theorem DedupKey_identifies:
  assumes "FormatHtmlCacheDecisionLine d = Some l" "FormatHtmlCacheDecisionLine d' = Some l'"
  shows "HtmlCacheDecisionDedupKey d = HtmlCacheDecisionDedupKey d' \<longleftrightarrow>
    (\<forall>k \<in> set kDedupKeys. map_of (map (\<lambda>f. (df_key f, df_value f)) d) k = map_of (map (\<lambda>f. (df_key f, df_value f)) d') k)"
proof -
  have fits: "\<forall>f \<in> set d. ValueFits (df_key f) (df_value f)" "\<forall>f \<in> set d'. ValueFits (df_key f) (df_value f)"
    using slots_of_Format [OF assms(1)] slots_of_Format [OF assms(2)] by metis+
  have lookup: "dedup_value e k = (case map_of (map (\<lambda>f. (df_key f, df_value f)) e) k of None \<Rightarrow> [] | Some v \<Rightarrow> v)" for e k
    by (induction e) (simp_all add: dedup_value_def)
  have same: "dedup_value d k = dedup_value d' k \<longleftrightarrow>
      map_of (map (\<lambda>f. (df_key f, df_value f)) d) k = map_of (map (\<lambda>f. (df_key f, df_value f)) d') k" for k
  proof -
    have "v \<noteq> []" if "\<forall>f \<in> set e. ValueFits (df_key f) (df_value f)"
      "map_of (map (\<lambda>f. (df_key f, df_value f)) e) k = Some v" for e v
      using map_of_SomeD [OF that(2)] that(1) by (auto simp: ValueFits_def)
    then show ?thesis using fits by (auto simp: lookup split: option.splits)
  qed
  have "HtmlCacheDecisionDedupKey d = HtmlCacheDecisionDedupKey d' \<longleftrightarrow>
      map (dedup_value d) kDedupKeys = map (dedup_value d') kDedupKeys"
    unfolding HtmlCacheDecisionDedupKey_def
    by (rule dedup_join_inj) (use dedup_value_sep [OF fits(1)] dedup_value_sep [OF fits(2)] in auto)
  then show ?thesis by (simp add: same)
qed

theorem DedupKey_identifies_witness:
  "HtmlCacheDecisionDedupKey sample_decision = HtmlCacheDecisionDedupKey (rev sample_decision)"
proof -
  have a: "FormatHtmlCacheDecisionLine sample_decision =
      Some (''{'' @ [CHR 0x22] @ ''action'' @ [CHR 0x22] @ '':'' @ [CHR 0x22] @ ''refuse'' @ [CHR 0x22] @ '','' @
            [CHR 0x22] @ ''status'' @ [CHR 0x22] @ '':200}'')"
    "FormatHtmlCacheDecisionLine (rev sample_decision) =
      Some (''{'' @ [CHR 0x22] @ ''action'' @ [CHR 0x22] @ '':'' @ [CHR 0x22] @ ''refuse'' @ [CHR 0x22] @ '','' @
            [CHR 0x22] @ ''status'' @ [CHR 0x22] @ '':200}'')"
    by code_simp+
  from DedupKey_identifies [OF a] show ?thesis by (simp add: sample_decision_def kDedupKeys_def)
qed

end
