(* ===== verification/State_Machine.thy ===== *)
theory State_Machine
  imports PS_Prelude
begin

text \<open>
  The interfaces of the stateful components.  A component is a state with operations that each run under
  the component's mutex, so every interleaving of its threads is a sequence of whole operations: a run of a
  step relation.  \<open>invariant_machine\<close> carries an invariant to all reachable states; \<open>simulation\<close> carries the
  runs of a component to runs of the abstract machine it implements.
\<close>

locale invariant_machine =
  fixes initial :: "'s \<Rightarrow> bool" and step :: "'s \<Rightarrow> 's \<Rightarrow> bool" and inv :: "'s \<Rightarrow> bool"
  assumes initial_inv: "initial s \<Longrightarrow> inv s"
    and step_inv: "inv s \<Longrightarrow> step s t \<Longrightarrow> inv t"
begin

lemma run_inv: "step\<^sup>*\<^sup>* s t \<Longrightarrow> inv s \<Longrightarrow> inv t"
  by (induction rule: rtranclp_induct) (auto intro: step_inv)

lemma reachable_inv: "initial s \<Longrightarrow> step\<^sup>*\<^sup>* s t \<Longrightarrow> inv t"
  using run_inv initial_inv by blast

end

locale simulation = invariant_machine initial step inv
  for initial :: "'s \<Rightarrow> bool" and step :: "'s \<Rightarrow> 's \<Rightarrow> bool" and inv :: "'s \<Rightarrow> bool" +
  fixes astep :: "'a \<Rightarrow> 'a \<Rightarrow> bool" and abstr :: "'s \<Rightarrow> 'a"
  assumes step_sim: "inv s \<Longrightarrow> step s t \<Longrightarrow> astep (abstr s) (abstr t)"
begin

lemma run_sim: "step\<^sup>*\<^sup>* s t \<Longrightarrow> inv s \<Longrightarrow> astep\<^sup>*\<^sup>* (abstr s) (abstr t)"
proof (induction rule: rtranclp_induct)
  case (step t u)
  then have "astep (abstr t) (abstr u)" using step_sim run_inv by blast
  with step show ?case by (meson rtranclp.rtrancl_into_rtrancl)
qed simp

lemma reachable_sim: "initial s \<Longrightarrow> step\<^sup>*\<^sup>* s t \<Longrightarrow> astep\<^sup>*\<^sup>* (abstr s) (abstr t)"
  using run_sim initial_inv by blast

end

end
