(* ===== verification/Url_Registry.thy ===== *)
theory Url_Registry
  imports State_Machine Url_Normalizer
begin

text \<open>
  The worker's registry of cached URLs: \<open>src/worker/url_registry.cc\<close>.  A bounded LRU made of a linked list
  of keys, newest first, and a hash map from keys to entries; each map entry holds the iterator of its list
  node, so that a node is moved or erased without a search.

  A list node has an identity here, and an iterator is the identity of the node it points to: the map entries
  hold iterators that other operations must keep valid, which is part of the invariant.  An
  \<open>std::unordered_map\<close> is a map and an \<open>std::unordered_set\<close> a set; the order in which \<open>ClearAll\<close> walks the map
  is not specified, so the walk is an argument.
\<close>

section \<open>The registry\<close>

record Entry =
  en_url :: string
  en_hostname :: string
  en_scheme :: string
  en_site :: string
  en_alternate_count :: u32

type_synonym node = "nat \<times> string"

record MapEntry =
  me_entry :: Entry
  me_order_it :: nat

record UrlRegistry =
  ur_max_entries :: nat
  ur_order :: "node list"
  ur_next_node :: nat
  ur_entries :: "string \<rightharpoonup> MapEntry"
  ur_known_hostnames :: "string set"
  ur_known_sites :: "string set"
  ur_known_sites_changed :: bool
  ur_known_sites_overflow :: u64

definition kMaxKnownSites :: nat where "kMaxKnownSites = 65536"

definition UrlRegistry_new :: "nat \<Rightarrow> UrlRegistry" where
  "UrlRegistry_new max_entries =
     \<lparr>ur_max_entries = max max_entries 1, ur_order = [], ur_next_node = 0, ur_entries = Map.empty,
      ur_known_hostnames = {}, ur_known_sites = {}, ur_known_sites_changed = False, ur_known_sites_overflow = 0\<rparr>"

definition MakeKey :: "string \<Rightarrow> string \<Rightarrow> string \<Rightarrow> string \<Rightarrow> string" where
  "MakeKey url hostname scheme site =
     url @ [CHR 0x00] @ hostname @ [CHR 0x00] @ scheme @ (if site \<noteq> [] then [CHR 0x00] @ site else [])"

text \<open>Moving the node of an iterator to the front, and erasing it.\<close>

definition splice_front :: "nat \<Rightarrow> node list \<Rightarrow> node list" where
  "splice_front it order = filter (\<lambda>n. fst n = it) order @ filter (\<lambda>n. fst n \<noteq> it) order"

definition erase_node :: "nat \<Rightarrow> node list \<Rightarrow> node list" where
  "erase_node it order = filter (\<lambda>n. fst n \<noteq> it) order"

text \<open>
  The eviction loop.  Its guard reads the back of the list, so an empty list ends it; the constructor makes the
  capacity at least 1, and then the size test alone ends the loop first.
\<close>

function evict :: "nat \<Rightarrow> node list \<Rightarrow> (string \<rightharpoonup> MapEntry) \<Rightarrow> node list \<times> (string \<rightharpoonup> MapEntry)" where
  "evict max_entries order entries =
     (if order = [] \<or> length order < max_entries then (order, entries)
      else evict max_entries (butlast order) (entries(snd (last order) := None)))"
  by pat_completeness auto
termination
  by (relation "measure (\<lambda>(m, order, entries). length order)") auto

declare evict.simps [simp del]

definition remember_site :: "string \<Rightarrow> UrlRegistry \<Rightarrow> UrlRegistry" where
  "remember_site site r =
     (if site \<noteq> [] \<and> site \<notin> ur_known_sites r then
        if card (ur_known_sites r) < kMaxKnownSites
        then r\<lparr>ur_known_sites := insert site (ur_known_sites r), ur_known_sites_changed := True\<rparr>
        else r\<lparr>ur_known_sites_overflow := ur_known_sites_overflow r + 1\<rparr>
      else r)"

definition UrlRegistry_Record :: "string \<Rightarrow> string \<Rightarrow> string \<Rightarrow> string \<Rightarrow> UrlRegistry \<Rightarrow> UrlRegistry" where
  "UrlRegistry_Record url hostname scheme site r0 =
     (let key = MakeKey url hostname scheme site; r = remember_site site r0
      in case ur_entries r key of
           Some it \<Rightarrow> r\<lparr>ur_order := splice_front (me_order_it it) (ur_order r)\<rparr>
         | None \<Rightarrow>
             (let (order, entries) = evict (ur_max_entries r) (ur_order r) (ur_entries r);
                  node = ur_next_node r
              in r\<lparr>ur_order := (node, key) # order, ur_next_node := node + 1,
                   ur_entries := entries(key \<mapsto> \<lparr>me_entry = \<lparr>en_url = url, en_hostname = hostname, en_scheme = scheme,
                                                      en_site = site, en_alternate_count = 0\<rparr>, me_order_it = node\<rparr>),
                   ur_known_hostnames := insert (NormalizeHostname hostname) (ur_known_hostnames r)\<rparr>))"

definition UrlRegistry_Remove :: "string \<Rightarrow> string \<Rightarrow> string \<Rightarrow> string \<Rightarrow> UrlRegistry \<Rightarrow> UrlRegistry" where
  "UrlRegistry_Remove url hostname scheme site r =
     (let key = MakeKey url hostname scheme site
      in case ur_entries r key of
           None \<Rightarrow> r
         | Some it \<Rightarrow> r\<lparr>ur_order := erase_node (me_order_it it) (ur_order r), ur_entries := (ur_entries r)(key := None)\<rparr>)"

definition UrlRegistry_SetAlternateCount ::
    "string \<Rightarrow> string \<Rightarrow> string \<Rightarrow> u32 \<Rightarrow> string \<Rightarrow> UrlRegistry \<Rightarrow> UrlRegistry" where
  "UrlRegistry_SetAlternateCount url hostname scheme cnt site r =
     (let key = MakeKey url hostname scheme site
      in case ur_entries r key of
           None \<Rightarrow> r
         | Some it \<Rightarrow>
             r\<lparr>ur_entries := (ur_entries r)(key \<mapsto> it\<lparr>me_entry := (me_entry it)\<lparr>en_alternate_count := cnt\<rparr>\<rparr>)\<rparr>)"

type_synonym map_walk = "(string \<rightharpoonup> MapEntry) \<Rightarrow> (string \<times> MapEntry) list"

definition UrlRegistry_ClearAll :: "map_walk \<Rightarrow> UrlRegistry \<Rightarrow> Entry list \<times> UrlRegistry" where
  "UrlRegistry_ClearAll walk r =
     (map (\<lambda>(key, map_entry). me_entry map_entry) (walk (ur_entries r)),
      r\<lparr>ur_entries := Map.empty, ur_order := []\<rparr>)"

definition UrlRegistry_size :: "UrlRegistry \<Rightarrow> nat" where
  "UrlRegistry_size r = card (dom (ur_entries r))"

definition UrlRegistry_HasHostname :: "string \<Rightarrow> UrlRegistry \<Rightarrow> bool" where
  "UrlRegistry_HasHostname hostname r \<longleftrightarrow> hostname \<in> ur_known_hostnames r"

definition UrlRegistry_HasSite :: "string \<Rightarrow> UrlRegistry \<Rightarrow> bool" where
  "UrlRegistry_HasSite site r \<longleftrightarrow> site \<in> ur_known_sites r"

definition UrlRegistry_KnownSites :: "UrlRegistry \<Rightarrow> string list" where
  "UrlRegistry_KnownSites r = sorted_list_of_set (ur_known_sites r)"

definition UrlRegistry_ClearKnownSites :: "UrlRegistry \<Rightarrow> UrlRegistry" where
  "UrlRegistry_ClearKnownSites r = r\<lparr>ur_known_sites := {}, ur_known_sites_changed := True\<rparr>"

fun UrlRegistry_LoadKnownSites :: "string list \<Rightarrow> UrlRegistry \<Rightarrow> UrlRegistry" where
  "UrlRegistry_LoadKnownSites [] r = r"
| "UrlRegistry_LoadKnownSites (site # sites) r =
     (if card (ur_known_sites r) \<ge> kMaxKnownSites then r
      else UrlRegistry_LoadKnownSites sites (r\<lparr>ur_known_sites := insert site (ur_known_sites r)\<rparr>))"

definition UrlRegistry_TakeKnownSitesIfChanged :: "UrlRegistry \<Rightarrow> string list option \<times> UrlRegistry" where
  "UrlRegistry_TakeKnownSitesIfChanged r =
     (if \<not> ur_known_sites_changed r then (None, r)
      else (Some (sorted_list_of_set (ur_known_sites r)), r\<lparr>ur_known_sites_changed := False\<rparr>))"

section \<open>Listing\<close>

record Page =
  pg_entries :: "Entry list"
  pg_next_offset :: nat
  pg_has_more :: bool
  pg_total :: nat

definition found_entries :: "UrlRegistry \<Rightarrow> node list \<Rightarrow> Entry list" where
  "found_entries r nodes = List.map_filter (\<lambda>n. map_option me_entry (ur_entries r (snd n))) nodes"

definition list_unfiltered :: "nat \<Rightarrow> nat \<Rightarrow> UrlRegistry \<Rightarrow> Page" where
  "list_unfiltered offset limit r =
     (let size = length (ur_order r)
      in if offset \<ge> size then \<lparr>pg_entries = [], pg_next_offset = size, pg_has_more = False, pg_total = size\<rparr>
         else (let to_read = min limit (size - offset)
               in \<lparr>pg_entries = found_entries r (take to_read (drop offset (ur_order r))),
                   pg_next_offset = offset + to_read, pg_has_more = (offset + to_read < size), pg_total = size\<rparr>))"

definition matches :: "string \<Rightarrow> string \<Rightarrow> Entry \<Rightarrow> bool" where
  "matches hostname site e \<longleftrightarrow>
     \<not> (hostname \<noteq> [] \<and> en_hostname e \<noteq> hostname) \<and> \<not> (site \<noteq> [] \<and> en_site e \<noteq> site)"

fun filtered_loop :: "nat \<Rightarrow> nat \<Rightarrow> Entry list \<Rightarrow> nat \<Rightarrow> Entry list \<Rightarrow> nat \<times> Entry list" where
  "filtered_loop offset limit [] matched out = (matched, out)"
| "filtered_loop offset limit (e # es) matched out =
     filtered_loop offset limit es (matched + 1)
       (if matched \<ge> offset \<and> length out < limit then out @ [e] else out)"

definition UrlRegistry_List :: "nat \<Rightarrow> nat \<Rightarrow> string \<Rightarrow> string \<Rightarrow> UrlRegistry \<Rightarrow> Page" where
  "UrlRegistry_List offset limit hostname site r =
     (if hostname = [] \<and> site = [] then list_unfiltered offset limit r
      else (let (matched, out) = filtered_loop offset limit (filter (matches hostname site) (found_entries r (ur_order r))) 0 []
            in \<lparr>pg_entries = out, pg_next_offset = offset + length out,
                pg_has_more = (offset + length out < matched), pg_total = matched\<rparr>))"

section \<open>Runs\<close>

text \<open>Every operation that changes the registry, each atomic under the mutex.\<close>

inductive registry_step :: "UrlRegistry \<Rightarrow> UrlRegistry \<Rightarrow> bool" where
  step_Record: "registry_step r (UrlRegistry_Record url hostname scheme site r)"
| step_Remove: "registry_step r (UrlRegistry_Remove url hostname scheme site r)"
| step_SetAlternateCount: "registry_step r (UrlRegistry_SetAlternateCount url hostname scheme cnt site r)"
| step_ClearAll: "registry_step r (snd (UrlRegistry_ClearAll walk r))"
| step_ClearKnownSites: "registry_step r (UrlRegistry_ClearKnownSites r)"
| step_LoadKnownSites: "registry_step r (UrlRegistry_LoadKnownSites sites r)"
| step_TakeKnownSites: "registry_step r (snd (UrlRegistry_TakeKnownSitesIfChanged r))"


section \<open>The invariant\<close>

definition entry_key :: "Entry \<Rightarrow> string" where
  "entry_key e = MakeKey (en_url e) (en_hostname e) (en_scheme e) (en_site e)"

text \<open>
  The list and the map hold the same keys, each key once; every iterator points to the node of its own key; an
  entry is stored under the key made of its fields; both bounds hold.
\<close>

definition registry_ok :: "UrlRegistry \<Rightarrow> bool" where
  "registry_ok r \<longleftrightarrow>
     1 \<le> ur_max_entries r \<and> length (ur_order r) \<le> ur_max_entries r \<and>
     distinct (map fst (ur_order r)) \<and> distinct (map snd (ur_order r)) \<and>
     dom (ur_entries r) = snd ` set (ur_order r) \<and>
     (\<forall>i k. (i, k) \<in> set (ur_order r) \<longrightarrow> i < ur_next_node r \<and>
        (\<exists>me. ur_entries r k = Some me \<and> me_order_it me = i \<and> entry_key (me_entry me) = k)) \<and>
     finite (ur_known_sites r) \<and> card (ur_known_sites r) \<le> kMaxKnownSites"

lemma registry_okD:
  assumes "registry_ok r"
  shows "1 \<le> ur_max_entries r" "length (ur_order r) \<le> ur_max_entries r"
    "distinct (map fst (ur_order r))" "distinct (map snd (ur_order r))"
    "dom (ur_entries r) = snd ` set (ur_order r)"
    "\<And>i k. (i, k) \<in> set (ur_order r) \<Longrightarrow> i < ur_next_node r"
    "\<And>i k. (i, k) \<in> set (ur_order r) \<Longrightarrow> \<exists>me. ur_entries r k = Some me \<and> me_order_it me = i \<and> entry_key (me_entry me) = k"
    "finite (ur_known_sites r)" "card (ur_known_sites r) \<le> kMaxKnownSites"
  using assms unfolding registry_ok_def by simp_all

lemma entry_node:
  assumes "registry_ok r" "ur_entries r k = Some me"
  shows "(me_order_it me, k) \<in> set (ur_order r)" "entry_key (me_entry me) = k"
proof -
  have "k \<in> snd ` set (ur_order r)" using assms registry_okD(5) by blast
  then obtain i where "(i, k) \<in> set (ur_order r)" by auto
  with registry_okD(7) [OF assms(1) this] assms(2)
  show "(me_order_it me, k) \<in> set (ur_order r)" "entry_key (me_entry me) = k" by auto
qed

text \<open>With valid iterators, selecting nodes by identity is selecting them by key.\<close>

lemma same_node:
  assumes "distinct (map fst order)" "distinct (map snd order)" "(i, k) \<in> set order" "n \<in> set order"
  shows "fst n = i \<longleftrightarrow> snd n = k"
proof -
  have inj: "inj_on fst (set order)" "inj_on snd (set order)" using assms(1,2) by (auto simp: distinct_map)
  show ?thesis
    using inj_onD [OF inj(1), of n "(i, k)"] inj_onD [OF inj(2), of n "(i, k)"] assms(3,4) by (cases n) auto
qed

lemma nodes_by_key:
  assumes "registry_ok r" "ur_entries r k = Some me"
  shows "erase_node (me_order_it me) (ur_order r) = filter (\<lambda>n. snd n \<noteq> k) (ur_order r)"
    "splice_front (me_order_it me) (ur_order r) =
       filter (\<lambda>n. snd n = k) (ur_order r) @ filter (\<lambda>n. snd n \<noteq> k) (ur_order r)"
proof -
  have same: "fst n = me_order_it me \<longleftrightarrow> snd n = k" if "n \<in> set (ur_order r)" for n
    using same_node [OF registry_okD(3,4) [OF assms(1)] entry_node(1) [OF assms] that] .
  show "erase_node (me_order_it me) (ur_order r) = filter (\<lambda>n. snd n \<noteq> k) (ur_order r)"
    unfolding erase_node_def by (rule filter_cong) (simp_all add: same)
  show "splice_front (me_order_it me) (ur_order r) =
      filter (\<lambda>n. snd n = k) (ur_order r) @ filter (\<lambda>n. snd n \<noteq> k) (ur_order r)"
    unfolding splice_front_def by (intro arg_cong2 [of _ _ _ _ append] filter_cong) (simp_all add: same)
qed

lemma evict_once:
  assumes "1 \<le> m" "length order \<le> m"
  shows "evict m order entries =
    (if length order < m then (order, entries) else (butlast order, entries(snd (last order) := None)))"
proof (cases "length order < m")
  case True
  then show ?thesis by (simp add: evict.simps)
next
  case False
  then have "order \<noteq> []" using assms by auto
  moreover have "length (butlast order) < m" using assms False by auto
  ultimately show ?thesis using False by (simp add: evict.simps [of m order] evict.simps [of m "butlast order"])
qed

section \<open>The abstract least-recently-used list\<close>

type_synonym lru = "nat \<times> (string \<times> Entry) list"

definition registry_abs :: "UrlRegistry \<Rightarrow> lru" where
  "registry_abs r = (ur_max_entries r, map (\<lambda>n. (snd n, me_entry (the (ur_entries r (snd n))))) (ur_order r))"

definition lru_touch :: "Entry \<Rightarrow> lru \<Rightarrow> lru" where
  "lru_touch e s =
     (let (cap, l) = s; k = entry_key e
      in (cap, if k \<in> fst ` set l then filter (\<lambda>x. fst x = k) l @ filter (\<lambda>x. fst x \<noteq> k) l
               else (k, e) # take (cap - 1) l))"

definition lru_remove :: "string \<Rightarrow> lru \<Rightarrow> lru" where
  "lru_remove k s = (fst s, filter (\<lambda>x. fst x \<noteq> k) (snd s))"

definition lru_update :: "string \<Rightarrow> (Entry \<Rightarrow> Entry) \<Rightarrow> lru \<Rightarrow> lru" where
  "lru_update k f s = (fst s, map (\<lambda>x. if fst x = k then (fst x, f (snd x)) else x) (snd s))"

inductive lru_step :: "lru \<Rightarrow> lru \<Rightarrow> bool" where
  lru_touched: "lru_step s (lru_touch e s)"
| lru_removed: "lru_step s (lru_remove k s)"
| lru_updated: "lru_step s (lru_update k f s)"
| lru_cleared: "lru_step s (fst s, [])"
| lru_same: "lru_step s s"

section \<open>Every operation keeps the invariant and implements the abstract one\<close>

lemma evict_ok:
  assumes "registry_ok r"
  defines "kept \<equiv> take (ur_max_entries r - 1) (ur_order r)"
  shows "evict (ur_max_entries r) (ur_order r) (ur_entries r) = (kept, ur_entries r |` (snd ` set kept))"
proof -
  note ok = registry_okD [OF assms(1)]
  show ?thesis
  proof (cases "length (ur_order r) < ur_max_entries r")
    case True
    then have "kept = ur_order r" by (simp add: kept_def)
    moreover have "ur_entries r |` (snd ` set (ur_order r)) = ur_entries r"
      unfolding ok(5) [symmetric] by (auto simp: restrict_map_def fun_eq_iff dom_def)
    ultimately show ?thesis using True evict_once [OF ok(1,2)] by simp
  next
    case False
    then have len: "length (ur_order r) = ur_max_entries r" using ok(2) by simp
    then have ne: "ur_order r \<noteq> []" using ok(1) by auto
    then have split: "ur_order r = kept @ [last (ur_order r)]"
      unfolding kept_def by (metis append_butlast_last_id butlast_conv_take len)
    have "snd (last (ur_order r)) \<notin> snd ` set kept"
      using ok(4) by (subst (asm) split) auto
    moreover have "dom (ur_entries r) = insert (snd (last (ur_order r))) (snd ` set kept)"
    proof -
      have "dom (ur_entries r) = snd ` set (kept @ [last (ur_order r)])" using ok(5) split by metis
      then show ?thesis by auto
    qed
    ultimately have "(ur_entries r)(snd (last (ur_order r)) := None) = ur_entries r |` (snd ` set kept)"
      by (auto simp: restrict_map_def fun_eq_iff dom_def)
    moreover have "butlast (ur_order r) = kept" by (metis split butlast_snoc)
    ultimately show ?thesis using False evict_once [OF ok(1,2)] by simp
  qed
qed

lemma remember_site_frame [simp]:
  "ur_order (remember_site site r) = ur_order r" "ur_entries (remember_site site r) = ur_entries r"
  "ur_max_entries (remember_site site r) = ur_max_entries r" "ur_next_node (remember_site site r) = ur_next_node r"
  by (simp_all add: remember_site_def)

lemma remember_site_ok: "registry_ok r \<Longrightarrow> registry_ok (remember_site site r)"
  by (auto simp: registry_ok_def remember_site_def)

lemma abs_frame:
  "ur_order r = ur_order r' \<Longrightarrow> ur_entries r = ur_entries r' \<Longrightarrow> ur_max_entries r = ur_max_entries r' \<Longrightarrow>
    registry_abs r = registry_abs r'"
  by (simp add: registry_abs_def)

lemma abs_keys: "fst ` set (snd (registry_abs r)) = snd ` set (ur_order r)"
  by (force simp: registry_abs_def)

lemma Record_new:
  assumes ok0: "registry_ok r0" and none: "ur_entries r0 (MakeKey url hostname scheme site) = None"
  shows "registry_ok (UrlRegistry_Record url hostname scheme site r0) \<and>
    registry_abs (UrlRegistry_Record url hostname scheme site r0) =
      lru_touch \<lparr>en_url = url, en_hostname = hostname, en_scheme = scheme, en_site = site, en_alternate_count = 0\<rparr> (registry_abs r0)"
proof -
  define r where "r = remember_site site r0"
  define key where "key = MakeKey url hostname scheme site"
  define e where "e = \<lparr>en_url = url, en_hostname = hostname, en_scheme = scheme, en_site = site, en_alternate_count = 0\<rparr>"
  define kept where "kept = take (ur_max_entries r - 1) (ur_order r)"
  have ok: "registry_ok r" unfolding r_def using ok0 by (rule remember_site_ok)
  note okD = registry_okD [OF ok]
  have key: "entry_key e = key" by (simp add: entry_key_def e_def key_def)
  have "key \<notin> dom (ur_entries r)" using none by (simp add: r_def key_def domIff)
  then have fresh: "key \<notin> snd ` set (ur_order r)" using okD(5) by simp
  have rec: "UrlRegistry_Record url hostname scheme site r0 =
    r\<lparr>ur_order := (ur_next_node r, key) # kept, ur_next_node := ur_next_node r + 1,
      ur_entries := (ur_entries r |` (snd ` set kept))(key \<mapsto> \<lparr>me_entry = e, me_order_it = ur_next_node r\<rparr>),
      ur_known_hostnames := insert (NormalizeHostname hostname) (ur_known_hostnames r)\<rparr>"
  proof -
    have "ur_entries r key = None" using none by (simp add: r_def key_def)
    then show ?thesis
      unfolding UrlRegistry_Record_def Let_def r_def [symmetric] key_def [symmetric]
      by (simp add: evict_ok [OF ok] kept_def e_def)
  qed
  have sub: "set kept \<subseteq> set (ur_order r)" unfolding kept_def by (rule set_take_subset)
  have kept_fresh: "key \<notin> snd ` set kept" using fresh sub by blast
  have "ur_next_node r \<notin> fst ` set kept"
  proof
    assume "ur_next_node r \<in> fst ` set kept"
    then obtain k where "(ur_next_node r, k) \<in> set (ur_order r)" using sub by auto
    from okD(6) [OF this] show False by simp
  qed
  have dist: "distinct (map fst kept)" "distinct (map snd kept)"
    using okD(3,4) by (simp_all add: kept_def flip: take_map)
  have dom: "dom (ur_entries r |` (snd ` set kept)) = snd ` set kept"
    using sub okD(5) by auto
  let ?entries = "(ur_entries r |` (snd ` set kept))(key \<mapsto> \<lparr>me_entry = e, me_order_it = ur_next_node r\<rparr>)"
  have node: "i < ur_next_node r + 1 \<and> (\<exists>me. ?entries k = Some me \<and> me_order_it me = i \<and> entry_key (me_entry me) = k)"
    if "(i, k) \<in> set ((ur_next_node r, key) # kept)" for i k
  proof (cases "(i, k) \<in> set kept")
    case True
    then have "(i, k) \<in> set (ur_order r)" "k \<in> snd ` set kept" "k \<noteq> key"
      using sub kept_fresh by force+
    then show ?thesis using okD(6,7) [of i k] by (auto simp: restrict_map_def)
  next
    case False
    then show ?thesis using that key by simp
  qed
  have "length kept + 1 \<le> ur_max_entries r" using okD(1) by (simp add: kept_def)
  moreover have "dom ?entries = snd ` set ((ur_next_node r, key) # kept)" using dom by simp
  ultimately have "registry_ok (UrlRegistry_Record url hostname scheme site r0)"
    using okD(1,8,9) kept_fresh \<open>ur_next_node r \<notin> fst ` set kept\<close> dist node
    unfolding rec registry_ok_def by (simp del: set_simps fun_upd_apply dom_fun_upd dom_restrict)
  moreover have "registry_abs (UrlRegistry_Record url hostname scheme site r0) = lru_touch e (registry_abs r)"
  proof -
    have "map (\<lambda>n. (snd n, me_entry (the (((ur_entries r |` (snd ` set kept))(key \<mapsto> me)) (snd n))))) kept =
        map (\<lambda>n. (snd n, me_entry (the (ur_entries r (snd n))))) kept" for me
      using kept_fresh by (auto simp: restrict_map_def)
    moreover have "key \<notin> fst ` set (snd (registry_abs r))" using fresh abs_keys by simp
    ultimately show ?thesis
      by (simp add: rec lru_touch_def registry_abs_def key Let_def kept_def take_map)
  qed
  moreover have "registry_abs r = registry_abs r0" unfolding r_def by (rule abs_frame) simp_all
  ultimately show ?thesis by (simp add: e_def)
qed

lemma abs_map_entries:
  "registry_abs r = (m, l) \<Longrightarrow> m = ur_max_entries r \<and> l = map (\<lambda>n. (snd n, me_entry (the (ur_entries r (snd n))))) (ur_order r)"
  by (simp add: registry_abs_def)

lemma registry_ok_reorder:
  assumes "registry_ok r" and perm: "mset order = mset (ur_order r)"
  shows "registry_ok (r\<lparr>ur_order := order\<rparr>)"
proof -
  have "length order = length (ur_order r)" "set order = set (ur_order r)"
    using perm by (metis size_mset, metis set_mset_mset)
  moreover have "distinct (map fst order) = distinct (map fst (ur_order r))" "distinct (map snd order) = distinct (map snd (ur_order r))"
    using perm by (metis mset_map mset_eq_imp_distinct_iff)+
  ultimately show ?thesis using assms(1) by (simp add: registry_ok_def)
qed

lemma Record_present:
  assumes ok0: "registry_ok r0" and some: "ur_entries r0 (MakeKey url hostname scheme site) = Some me"
  shows "registry_ok (UrlRegistry_Record url hostname scheme site r0) \<and>
    registry_abs (UrlRegistry_Record url hostname scheme site r0) =
      lru_touch \<lparr>en_url = url, en_hostname = hostname, en_scheme = scheme, en_site = site, en_alternate_count = 0\<rparr> (registry_abs r0)"
proof -
  define r where "r = remember_site site r0"
  define key where "key = MakeKey url hostname scheme site"
  have ok: "registry_ok r" unfolding r_def using ok0 by (rule remember_site_ok)
  note okD = registry_okD [OF ok]
  have me: "ur_entries r key = Some me" using some by (simp add: r_def key_def)
  let ?order = "filter (\<lambda>n. snd n = key) (ur_order r) @ filter (\<lambda>n. snd n \<noteq> key) (ur_order r)"
  have rec: "UrlRegistry_Record url hostname scheme site r0 = r\<lparr>ur_order := ?order\<rparr>"
    using me nodes_by_key(2) [OF ok me]
    unfolding UrlRegistry_Record_def Let_def r_def [symmetric] key_def [symmetric] by simp
  have "mset ?order = mset (ur_order r)" by (simp add: multiset_partition [symmetric])
  then have "registry_ok (UrlRegistry_Record url hostname scheme site r0)"
    unfolding rec by (rule registry_ok_reorder [OF ok])
  moreover have "key \<in> fst ` set (snd (registry_abs r))"
    using me okD(5) by (auto simp: abs_keys)
  then have "registry_abs (UrlRegistry_Record url hostname scheme site r0) =
      lru_touch \<lparr>en_url = url, en_hostname = hostname, en_scheme = scheme, en_site = site, en_alternate_count = 0\<rparr> (registry_abs r)"
    by (simp add: rec registry_abs_def lru_touch_def Let_def entry_key_def filter_map comp_def flip: key_def)
  moreover have "registry_abs r = registry_abs r0" unfolding r_def by (rule abs_frame) simp_all
  ultimately show ?thesis by simp
qed

lemma Record_refines:
  assumes "registry_ok r"
  shows "registry_ok (UrlRegistry_Record url hostname scheme site r)"
    "registry_abs (UrlRegistry_Record url hostname scheme site r) =
      lru_touch \<lparr>en_url = url, en_hostname = hostname, en_scheme = scheme, en_site = site, en_alternate_count = 0\<rparr> (registry_abs r)"
  using Record_new [OF assms] Record_present [OF assms]
  by (cases "ur_entries r (MakeKey url hostname scheme site)"; blast)+

lemma Remove_refines:
  assumes ok: "registry_ok r"
  shows "registry_ok (UrlRegistry_Remove url hostname scheme site r)"
    "registry_abs (UrlRegistry_Remove url hostname scheme site r) =
      lru_remove (MakeKey url hostname scheme site) (registry_abs r)"
proof -
  define key where "key = MakeKey url hostname scheme site"
  note okD = registry_okD [OF ok]
  have "registry_ok (UrlRegistry_Remove url hostname scheme site r) \<and>
    registry_abs (UrlRegistry_Remove url hostname scheme site r) = lru_remove key (registry_abs r)"
  proof (cases "ur_entries r key")
    case None
    then have "UrlRegistry_Remove url hostname scheme site r = r" by (simp add: UrlRegistry_Remove_def key_def)
    moreover have "key \<notin> snd ` set (ur_order r)" using None okD(5) by (metis domIff)
    then have "lru_remove key (registry_abs r) = registry_abs r"
      by (auto simp: lru_remove_def registry_abs_def filter_id_conv)
    ultimately show ?thesis using ok by simp
  next
    case (Some me)
    let ?order = "filter (\<lambda>n. snd n \<noteq> key) (ur_order r)"
    have rem: "UrlRegistry_Remove url hostname scheme site r = r\<lparr>ur_order := ?order, ur_entries := (ur_entries r)(key := None)\<rparr>"
      using Some nodes_by_key(1) [OF ok Some] by (simp add: UrlRegistry_Remove_def flip: key_def)
    have "length ?order \<le> ur_max_entries r" using okD(2) le_trans length_filter_le by blast
    moreover have "distinct (map fst ?order)" "distinct (map snd ?order)" using okD(3,4) by (simp_all add: distinct_map_filter)
    moreover have "dom ((ur_entries r)(key := None)) = snd ` set ?order" using okD(5) by auto
    ultimately have "registry_ok (UrlRegistry_Remove url hostname scheme site r)"
      unfolding rem registry_ok_def using okD(1,6,7,8,9) by (simp; blast)
    moreover have "registry_abs (UrlRegistry_Remove url hostname scheme site r) = lru_remove key (registry_abs r)"
      by (auto simp: rem registry_abs_def lru_remove_def filter_map comp_def)
    ultimately show ?thesis ..
  qed
  then show "registry_ok (UrlRegistry_Remove url hostname scheme site r)"
    "registry_abs (UrlRegistry_Remove url hostname scheme site r) = lru_remove (MakeKey url hostname scheme site) (registry_abs r)"
    by (simp_all add: key_def)
qed

lemma SetAlternateCount_refines:
  assumes ok: "registry_ok r"
  shows "registry_ok (UrlRegistry_SetAlternateCount url hostname scheme cnt site r)"
    "registry_abs (UrlRegistry_SetAlternateCount url hostname scheme cnt site r) =
      lru_update (MakeKey url hostname scheme site) (\<lambda>e. e\<lparr>en_alternate_count := cnt\<rparr>) (registry_abs r)"
proof -
  define key where "key = MakeKey url hostname scheme site"
  note okD = registry_okD [OF ok]
  have "registry_ok (UrlRegistry_SetAlternateCount url hostname scheme cnt site r) \<and>
    registry_abs (UrlRegistry_SetAlternateCount url hostname scheme cnt site r) =
      lru_update key (\<lambda>e. e\<lparr>en_alternate_count := cnt\<rparr>) (registry_abs r)"
  proof (cases "ur_entries r key")
    case None
    then have "UrlRegistry_SetAlternateCount url hostname scheme cnt site r = r"
      by (simp add: UrlRegistry_SetAlternateCount_def key_def)
    moreover have "key \<notin> snd ` set (ur_order r)" using None okD(5) by (metis domIff)
    then have "lru_update key (\<lambda>e. e\<lparr>en_alternate_count := cnt\<rparr>) (registry_abs r) = registry_abs r"
      by (auto simp: lru_update_def registry_abs_def)
    ultimately show ?thesis using ok by simp
  next
    case (Some me)
    have upd: "UrlRegistry_SetAlternateCount url hostname scheme cnt site r =
        r\<lparr>ur_entries := (ur_entries r)(key \<mapsto> me\<lparr>me_entry := (me_entry me)\<lparr>en_alternate_count := cnt\<rparr>\<rparr>)\<rparr>"
      using Some by (simp add: UrlRegistry_SetAlternateCount_def flip: key_def)
    have "key \<in> snd ` set (ur_order r)" using Some okD(5) by (metis domI)
    then have "dom ((ur_entries r)(key \<mapsto> me\<lparr>me_entry := (me_entry me)\<lparr>en_alternate_count := cnt\<rparr>\<rparr>)) = snd ` set (ur_order r)"
      using okD(5) by auto
    moreover have "\<exists>me'. ((ur_entries r)(key \<mapsto> me\<lparr>me_entry := (me_entry me)\<lparr>en_alternate_count := cnt\<rparr>\<rparr>)) k = Some me' \<and>
        me_order_it me' = i \<and> entry_key (me_entry me') = k" if "(i, k) \<in> set (ur_order r)" for i k
      using okD(7) [OF that] Some by (cases "k = key") (auto simp: entry_key_def)
    ultimately have "registry_ok (UrlRegistry_SetAlternateCount url hostname scheme cnt site r)"
      unfolding upd registry_ok_def using okD(1,2,3,4,6,8,9) by simp
    moreover have "registry_abs (UrlRegistry_SetAlternateCount url hostname scheme cnt site r) =
        lru_update key (\<lambda>e. e\<lparr>en_alternate_count := cnt\<rparr>) (registry_abs r)"
      using Some by (auto simp: upd registry_abs_def lru_update_def)
    ultimately show ?thesis ..
  qed
  then show "registry_ok (UrlRegistry_SetAlternateCount url hostname scheme cnt site r)"
    "registry_abs (UrlRegistry_SetAlternateCount url hostname scheme cnt site r) =
      lru_update (MakeKey url hostname scheme site) (\<lambda>e. e\<lparr>en_alternate_count := cnt\<rparr>) (registry_abs r)"
    by (simp_all add: key_def)
qed

lemma LoadKnownSites_frame:
  "ur_order (UrlRegistry_LoadKnownSites sites r) = ur_order r" "ur_entries (UrlRegistry_LoadKnownSites sites r) = ur_entries r"
  "ur_max_entries (UrlRegistry_LoadKnownSites sites r) = ur_max_entries r"
  "ur_next_node (UrlRegistry_LoadKnownSites sites r) = ur_next_node r"
  by (induction sites r rule: UrlRegistry_LoadKnownSites.induct) simp_all

lemma LoadKnownSites_ok: "registry_ok r \<Longrightarrow> registry_ok (UrlRegistry_LoadKnownSites sites r)"
proof (induction sites r rule: UrlRegistry_LoadKnownSites.induct)
  case (2 site sites r)
  have "registry_ok (r\<lparr>ur_known_sites := insert site (ur_known_sites r)\<rparr>)" if "card (ur_known_sites r) < kMaxKnownSites"
    using that 2(2) by (auto simp: registry_ok_def card_insert_if)
  with 2 show ?case by (simp add: not_le)
qed simp

lemma sites_only_refine:
  "registry_ok r \<Longrightarrow> registry_ok (UrlRegistry_ClearKnownSites r)"
  "registry_ok r \<Longrightarrow> registry_ok (snd (UrlRegistry_TakeKnownSitesIfChanged r))"
  "registry_abs (UrlRegistry_ClearKnownSites r) = registry_abs r"
  "registry_abs (snd (UrlRegistry_TakeKnownSitesIfChanged r)) = registry_abs r"
  "registry_abs (UrlRegistry_LoadKnownSites sites r) = registry_abs r"
  by (simp_all add: registry_ok_def registry_abs_def UrlRegistry_ClearKnownSites_def
      UrlRegistry_TakeKnownSitesIfChanged_def LoadKnownSites_frame)

lemma ClearAll_refines:
  "registry_ok r \<Longrightarrow> registry_ok (snd (UrlRegistry_ClearAll walk r))"
  "registry_abs (snd (UrlRegistry_ClearAll walk r)) = (fst (registry_abs r), [])"
  by (simp_all add: registry_ok_def registry_abs_def UrlRegistry_ClearAll_def)

lemmas registry_refines =
  Record_refines Remove_refines SetAlternateCount_refines ClearAll_refines sites_only_refine LoadKnownSites_ok

interpretation registry: simulation "\<lambda>r. \<exists>n. r = UrlRegistry_new n" registry_step registry_ok lru_step registry_abs
proof
  show "registry_ok s" if "\<exists>n. s = UrlRegistry_new n" for s
    using that by (auto simp: registry_ok_def UrlRegistry_new_def)
  show "registry_ok t" if "registry_ok s" "registry_step s t" for s t
    using that(2,1) by cases (auto intro: registry_refines)
  show "lru_step (registry_abs s) (registry_abs t)" if "registry_ok s" "registry_step s t" for s t
    using that(2,1) by cases (simp_all add: registry_refines lru_step.intros)
qed

section \<open>Listing page by page\<close>

text \<open>The entries in recency order, and the ones a listing selects.\<close>

definition registry_entries :: "UrlRegistry \<Rightarrow> Entry list" where
  "registry_entries r = map snd (snd (registry_abs r))"

lemma found_entries_ok: "registry_ok r \<Longrightarrow> set nodes \<subseteq> set (ur_order r) \<Longrightarrow>
    found_entries r nodes = map (\<lambda>n. me_entry (the (ur_entries r (snd n)))) nodes"
proof (induction nodes)
  case (Cons n nodes)
  obtain i k where n: "n = (i, k)" by (cases n)
  have "\<exists>me. ur_entries r k = Some me" using registry_okD(7) [OF Cons.prems(1), of i k] Cons.prems(2) n by auto
  with Cons n show ?case by (auto simp: found_entries_def List.map_filter_simps)
qed (simp add: found_entries_def List.map_filter_simps)

lemma filtered_loop_eq:
  "filtered_loop offset limit es matched out =
    (matched + length es, out @ take (limit - length out) (drop (offset - matched) es))"
proof (induction offset limit es matched out rule: filtered_loop.induct)
  case (2 offset limit e es matched out)
  show ?case
  proof (cases "matched \<ge> offset \<and> length out < limit")
    case True
    then have "limit - length out = Suc (limit - length (out @ [e]))" "offset - matched = 0" "offset - (matched + 1) = 0" by auto
    then show ?thesis using 2 True by simp
  next
    case False
    then show ?thesis
    proof (cases "matched \<ge> offset")
      case True
      then show ?thesis using 2 False by auto
    next
      case False
      then have "offset - matched = Suc (offset - (matched + 1))" by simp
      then show ?thesis using 2 False by simp
    qed
  qed
qed simp

lemma List_page:
  fixes hostname site :: string
  assumes ok: "registry_ok r"
  defines "all \<equiv> filter (matches hostname site) (registry_entries r)"
  shows "pg_entries (UrlRegistry_List offset limit hostname site r) = take limit (drop offset all)"
    "pg_total (UrlRegistry_List offset limit hostname site r) = length all"
    "pg_has_more (UrlRegistry_List offset limit hostname site r) \<longleftrightarrow> offset + limit < length all"
    "offset \<le> length all \<Longrightarrow>
      pg_next_offset (UrlRegistry_List offset limit hostname site r) = min (offset + limit) (length all)"
proof -
  have order: "found_entries r (ur_order r) = registry_entries r"
    by (simp add: found_entries_ok [OF ok] registry_entries_def registry_abs_def comp_def)
  have plain: "pg_entries (list_unfiltered offset limit r) = take limit (drop offset (registry_entries r)) \<and>
      pg_total (list_unfiltered offset limit r) = length (registry_entries r) \<and>
      (pg_has_more (list_unfiltered offset limit r) \<longleftrightarrow> offset + limit < length (registry_entries r)) \<and>
      (offset \<le> length (registry_entries r) \<longrightarrow> pg_next_offset (list_unfiltered offset limit r) = min (offset + limit) (length (registry_entries r)))"
  proof -
    let ?part = "take (min limit (length (ur_order r) - offset)) (drop offset (ur_order r))"
    have part: "?part = take limit (drop offset (ur_order r))" by (simp add: min_def)
    have "set ?part \<subseteq> set (ur_order r)" by (meson set_take_subset set_drop_subset subset_trans)
    then have "found_entries r ?part = take limit (drop offset (registry_entries r))"
      unfolding part by (simp add: found_entries_ok [OF ok] registry_entries_def registry_abs_def comp_def take_map drop_map)
    moreover have "length (registry_entries r) = length (ur_order r)" by (simp add: registry_entries_def registry_abs_def)
    ultimately show ?thesis by (auto simp: list_unfiltered_def Let_def)
  qed
  have unfiltered: "all = registry_entries r" if "hostname = []" "site = []"
    using that by (simp add: all_def matches_def)
  show "pg_entries (UrlRegistry_List offset limit hostname site r) = take limit (drop offset all)"
    "pg_total (UrlRegistry_List offset limit hostname site r) = length all"
    "pg_has_more (UrlRegistry_List offset limit hostname site r) \<longleftrightarrow> offset + limit < length all"
    "offset \<le> length all \<Longrightarrow>
      pg_next_offset (UrlRegistry_List offset limit hostname site r) = min (offset + limit) (length all)"
    using plain unfiltered
    by (cases "hostname = [] \<and> site = []";
        auto simp: UrlRegistry_List_def filtered_loop_eq order simp flip: all_def)+
qed

text \<open>A client that follows \<open>next_offset\<close> while there is more, with at most as many requests as the fuel.\<close>

fun collect_pages :: "nat \<Rightarrow> nat \<Rightarrow> nat \<Rightarrow> string \<Rightarrow> string \<Rightarrow> UrlRegistry \<Rightarrow> Entry list option" where
  "collect_pages 0 offset limit hostname site r = None"
| "collect_pages (Suc fuel) offset limit hostname site r =
     (let page = UrlRegistry_List offset limit hostname site r
      in if pg_has_more page
         then map_option (append (pg_entries page)) (collect_pages fuel (pg_next_offset page) limit hostname site r)
         else Some (pg_entries page))"

lemma collect_pages_from:
  fixes hostname site :: string
  assumes ok: "registry_ok r" and "0 < limit"
  defines "all \<equiv> filter (matches hostname site) (registry_entries r)"
  shows "offset \<le> length all \<Longrightarrow> length all - offset < fuel \<Longrightarrow>
    collect_pages fuel offset limit hostname site r = Some (drop offset all)"
proof (induction fuel arbitrary: offset)
  case (Suc fuel)
  note page = List_page [where hostname = hostname and site = site and offset = offset and limit = limit, OF ok, folded all_def]
  show ?case
  proof (cases "offset + limit < length all")
    case True
    then have "collect_pages fuel (offset + limit) limit hostname site r = Some (drop (offset + limit) all)"
      using Suc assms(2) by (intro Suc.IH) auto
    moreover have "take limit (drop offset all) @ drop (offset + limit) all = drop offset all"
      by (metis add.commute append_take_drop_id drop_drop)
    ultimately show ?thesis using True page Suc.prems by (simp add: Let_def)
  next
    case False
    then have "take limit (drop offset all) = drop offset all" by simp
    then show ?thesis using False page by (simp add: Let_def)
  qed
qed simp

declare collect_pages.simps [simp del]

section \<open>Properties\<close>

text \<open>
  C4: on every reachable registry the pointer structure behaves as one bounded list of entries ordered by
  recency: Record moves a known key to the front or puts a new one there and drops what exceeds the capacity
  from the back, Remove and SetAlternateCount touch their key only, and ClearAll empties the list.
\<close>

theorem registry_refines_lru:
  assumes "registry_step\<^sup>*\<^sup>* (UrlRegistry_new n) r"
  shows "registry_abs (UrlRegistry_Record url hostname scheme site r) =
      lru_touch \<lparr>en_url = url, en_hostname = hostname, en_scheme = scheme, en_site = site, en_alternate_count = 0\<rparr> (registry_abs r) \<and>
    registry_abs (UrlRegistry_Remove url hostname scheme site r) =
      lru_remove (MakeKey url hostname scheme site) (registry_abs r) \<and>
    registry_abs (UrlRegistry_SetAlternateCount url hostname scheme cnt site r) =
      lru_update (MakeKey url hostname scheme site) (\<lambda>e. e\<lparr>en_alternate_count := cnt\<rparr>) (registry_abs r) \<and>
    snd (registry_abs (snd (UrlRegistry_ClearAll walk r))) = [] \<and>
    lru_step\<^sup>*\<^sup>* (max n 1, []) (registry_abs r)"
proof -
  have "registry_ok r" using registry.reachable_inv assms by blast
  moreover have "lru_step\<^sup>*\<^sup>* (registry_abs (UrlRegistry_new n)) (registry_abs r)" using registry.reachable_sim assms by blast
  moreover have "registry_abs (UrlRegistry_new n) = (max n 1, [])" by (simp add: registry_abs_def UrlRegistry_new_def)
  ultimately show ?thesis by (simp add: registry_refines)
qed

definition sample_registry :: UrlRegistry where
  "sample_registry = UrlRegistry_Record ''/b'' ''h'' ''http'' [] (UrlRegistry_Record ''/a'' ''h'' ''http'' [] (UrlRegistry_new 2))"

lemma sample_registry_run: "registry_step\<^sup>*\<^sup>* (UrlRegistry_new 2) sample_registry"
  unfolding sample_registry_def
  by (rule rtranclp.rtrancl_into_rtrancl [OF r_into_rtranclp [of registry_step, OF registry_step.step_Record] registry_step.step_Record])

lemma sample_registry_abs: "registry_abs sample_registry =
    (2, [(MakeKey ''/b'' ''h'' ''http'' [], \<lparr>en_url = ''/b'', en_hostname = ''h'', en_scheme = ''http'', en_site = [], en_alternate_count = 0\<rparr>),
         (MakeKey ''/a'' ''h'' ''http'' [], \<lparr>en_url = ''/a'', en_hostname = ''h'', en_scheme = ''http'', en_site = [], en_alternate_count = 0\<rparr>)])"
proof -
  have "registry_ok (UrlRegistry_new 2)" using registry.initial_inv by blast
  then show ?thesis
    by (simp add: sample_registry_def Record_refines)
       (simp add: registry_abs_def UrlRegistry_new_def lru_touch_def entry_key_def MakeKey_def)
qed

theorem registry_refines_lru_witness:
  "map (\<lambda>x. en_url (snd x)) (snd (registry_abs (UrlRegistry_Record ''/c'' ''h'' ''http'' [] sample_registry))) = [''/c'', ''/b'']"
proof -
  show ?thesis
    using sample_registry_abs registry_refines_lru [OF sample_registry_run, of "''/c''" "''h''" "''http''" "[]"]
    by (simp add: lru_touch_def entry_key_def MakeKey_def)
qed

text \<open>
  on every reachable registry the list and the map hold the same distinct keys, never more than the
  capacity, each iterator points to the node of its key, each entry is stored under the key made of its own
  fields, and at most 65536 sites are remembered.
\<close>

theorem registry_invariant:
  assumes "registry_step\<^sup>*\<^sup>* (UrlRegistry_new n) r"
  shows "UrlRegistry_size r = length (ur_order r) \<and> UrlRegistry_size r \<le> max n 1 \<and>
    distinct (map snd (ur_order r)) \<and> card (ur_known_sites r) \<le> 65536 \<and>
    (\<forall>key me. ur_entries r key = Some me \<longrightarrow> (me_order_it me, key) \<in> set (ur_order r) \<and>
       key = MakeKey (en_url (me_entry me)) (en_hostname (me_entry me)) (en_scheme (me_entry me)) (en_site (me_entry me)))"
proof -
  have ok: "registry_ok r" using registry.reachable_inv assms by blast
  note okD = registry_okD [OF ok]
  have "ur_max_entries t = ur_max_entries s" if "registry_step s t" for s t
    using that by cases (auto simp: UrlRegistry_Record_def UrlRegistry_Remove_def UrlRegistry_SetAlternateCount_def
        UrlRegistry_ClearAll_def UrlRegistry_ClearKnownSites_def UrlRegistry_TakeKnownSitesIfChanged_def
        LoadKnownSites_frame Let_def split: option.split prod.split)
  with assms have "ur_max_entries r = ur_max_entries (UrlRegistry_new n)"
    by (induction rule: rtranclp_induct) simp_all
  then have cap: "ur_max_entries r = max n 1" by (simp add: UrlRegistry_new_def)
  have "UrlRegistry_size r = length (ur_order r)"
    unfolding UrlRegistry_size_def okD(5) using distinct_card [OF okD(4)] by simp
  then show ?thesis
    using okD(2,4,9) cap entry_node [OF ok] by (simp add: kMaxKnownSites_def entry_key_def)
qed

theorem registry_invariant_witness: "UrlRegistry_size sample_registry = length (ur_order sample_registry)"
  using registry_invariant [OF sample_registry_run] by blast

text \<open>
  C35: a client that lists with a positive limit and follows the next offset ends, and has then seen each
  entry that matches the filters exactly once, in recency order.
\<close>

theorem listing_complete:
  assumes "registry_step\<^sup>*\<^sup>* (UrlRegistry_new n) r" "0 < limit"
  shows "let all = filter (\<lambda>e. (if hostname = [] then True else en_hostname e = hostname) \<and>
                              (if site = [] then True else en_site e = site)) (map snd (snd (registry_abs r)))
    in collect_pages (length all + 1) 0 limit hostname site r = Some all"
proof -
  have "registry_ok r" using registry.reachable_inv assms(1) by blast
  moreover have "matches hostname site = (\<lambda>e. (if hostname = [] then True else en_hostname e = hostname) \<and>
      (if site = [] then True else en_site e = site))" by (auto simp: matches_def fun_eq_iff)
  ultimately show ?thesis
    unfolding Let_def
    using collect_pages_from [where r = r and limit = limit and offset = 0 and hostname = hostname and site = site] assms(2)
    by (simp add: registry_entries_def)
qed

theorem listing_complete_witness:
  "map_option (map en_url) (collect_pages 3 0 1 [] [] sample_registry) = Some [''/b'', ''/a'']"
proof -
  show ?thesis
    using listing_complete [OF sample_registry_run, where limit = 1 and hostname = "[]" and site = "[]"] sample_registry_abs
    by (simp add: Let_def comp_def eval_nat_numeral)
qed

end
