(* ===== verification/Analysis_Queue.thy ===== *)
theory Analysis_Queue
  imports State_Machine "HOL-Library.Product_Lexorder"
begin

text \<open>
  The queue of pages waiting for browser analysis: \<open>src/browser/analysis_queue.cc\<close>.  A bounded deque kept in
  priority order, with the set of template hashes it holds.  \<open>Enqueue\<close> reads the back of the deque when it is
  full; on a queue of capacity 0 that is the back of an empty deque, undefined in C++ and \<^const>\<open>None\<close> here.
\<close>

section \<open>The queue\<close>

record Item =
  it_url :: string
  it_hostname :: string
  it_scheme :: string
  it_mask :: u32
  it_template_hash :: u64
  it_is_warmup :: bool
  it_frequency :: u32
  it_retry_count :: int
  it_original_html :: string
  it_has_origin_html_hash :: bool
  it_origin_html_hash :: string
  it_force_agent_render :: bool
  it_site :: string
  it_host_vouched :: bool
  it_from_module :: bool

record AnalysisQueue =
  aq_queue :: "Item list"
  aq_pending_templates :: "u64 set"
  aq_shutdown :: bool
  aq_max_size :: nat
  aq_drops :: u64

definition AnalysisQueue_new :: "nat \<Rightarrow> AnalysisQueue" where
  "AnalysisQueue_new max_size =
     \<lparr>aq_queue = [], aq_pending_templates = {}, aq_shutdown = False, aq_max_size = max_size, aq_drops = 0\<rparr>"

definition higher :: "Item \<Rightarrow> Item \<Rightarrow> bool" where
  "higher a b \<longleftrightarrow>
     (it_is_warmup a \<and> \<not> it_is_warmup b) \<or>
     (it_is_warmup a = it_is_warmup b \<and> it_frequency a > it_frequency b)"

definition insert_item :: "Item \<Rightarrow> AnalysisQueue \<Rightarrow> AnalysisQueue" where
  "insert_item item aq =
     aq\<lparr>aq_pending_templates := insert (it_template_hash item) (aq_pending_templates aq),
        aq_queue := takeWhile (\<lambda>it. higher it item) (aq_queue aq) @ item # dropWhile (\<lambda>it. higher it item) (aq_queue aq)\<rparr>"

definition evict_tail :: "AnalysisQueue \<Rightarrow> AnalysisQueue" where
  "evict_tail aq =
     aq\<lparr>aq_pending_templates := aq_pending_templates aq - {it_template_hash (last (aq_queue aq))},
        aq_queue := butlast (aq_queue aq), aq_drops := aq_drops aq + 1\<rparr>"

definition AnalysisQueue_Enqueue :: "Item \<Rightarrow> AnalysisQueue \<Rightarrow> (bool \<times> AnalysisQueue) option" where
  "AnalysisQueue_Enqueue item aq =
     (if aq_shutdown aq then Some (False, aq)
      else if it_template_hash item \<in> aq_pending_templates aq then Some (False, aq)
      else if length (aq_queue aq) \<ge> aq_max_size aq then
        (if aq_queue aq = [] then None
         else if \<not> higher item (last (aq_queue aq)) then Some (False, aq\<lparr>aq_drops := aq_drops aq + 1\<rparr>)
         else Some (True, insert_item item (evict_tail aq)))
      else Some (True, insert_item item aq))"

definition AnalysisQueue_Dequeue :: "AnalysisQueue \<Rightarrow> Item option \<times> AnalysisQueue" where
  "AnalysisQueue_Dequeue aq =
     (case aq_queue aq of
        [] \<Rightarrow> (None, aq)
      | item # rest \<Rightarrow>
          (Some item, aq\<lparr>aq_queue := rest, aq_pending_templates := aq_pending_templates aq - {it_template_hash item}\<rparr>))"

definition AnalysisQueue_Shutdown :: "AnalysisQueue \<Rightarrow> AnalysisQueue" where
  "AnalysisQueue_Shutdown aq = aq\<lparr>aq_shutdown := True\<rparr>"

inductive aq_step :: "AnalysisQueue \<Rightarrow> AnalysisQueue \<Rightarrow> bool" where
  aq_Enqueue: "AnalysisQueue_Enqueue item aq = Some (accepted, aq') \<Longrightarrow> aq_step aq aq'"
| aq_Dequeue: "AnalysisQueue_Dequeue aq = (res, aq') \<Longrightarrow> aq_step aq aq'"
| aq_Shutdown: "aq_step aq (AnalysisQueue_Shutdown aq)"

section \<open>Priority\<close>

text \<open>The two tests of the code are one comparison of ranks.\<close>

definition rank :: "Item \<Rightarrow> bool \<times> u32" where
  "rank it = (it_is_warmup it, it_frequency it)"

lemma higher_rank: "higher a b \<longleftrightarrow> rank b < rank a"
  by (auto simp: higher_def rank_def less_prod_def less_le)

definition queue_ok :: "AnalysisQueue \<Rightarrow> bool" where
  "queue_ok aq \<longleftrightarrow>
     1 \<le> aq_max_size aq \<and> length (aq_queue aq) \<le> aq_max_size aq \<and>
     sorted_wrt (\<lambda>a b. rank b \<le> rank a) (aq_queue aq) \<and>
     distinct (map it_template_hash (aq_queue aq)) \<and>
     aq_pending_templates aq = it_template_hash ` set (aq_queue aq)"

lemma insert_sorted:
  assumes "sorted_wrt (\<lambda>a b. rank b \<le> rank a) q"
  shows "sorted_wrt (\<lambda>a b. rank b \<le> rank a) (takeWhile (\<lambda>it. higher it item) q @ item # dropWhile (\<lambda>it. higher it item) q)"
  using assms
proof (induction q)
  case (Cons x q)
  show ?case
  proof (cases "higher x item")
    case True
    have "rank y \<le> rank x" if "y \<in> set (takeWhile (\<lambda>it. higher it item) q @ item # dropWhile (\<lambda>it. higher it item) q)" for y
      using that Cons.prems True by (auto simp: higher_rank dest: set_takeWhileD set_dropWhileD)
    then show ?thesis using Cons True by simp
  next
    case False
    then have "rank y \<le> rank item" if "y \<in> set (x # q)" for y
      using that Cons.prems by (fastforce simp: higher_rank)
    then show ?thesis using Cons.prems False by auto
  qed
qed simp

lemma insert_item_ok:
  assumes "queue_ok aq" "length (aq_queue aq) < aq_max_size aq" "it_template_hash item \<notin> aq_pending_templates aq"
  shows "queue_ok (insert_item item aq)" "mset (aq_queue (insert_item item aq)) = add_mset item (mset (aq_queue aq))"
proof -
  let ?q = "aq_queue aq" and ?q' = "aq_queue (insert_item item aq)"
  have "mset ?q = mset (takeWhile (\<lambda>it. higher it item) ?q) + mset (dropWhile (\<lambda>it. higher it item) ?q)"
    by (metis mset_append takeWhile_dropWhile_id)
  then have m: "mset ?q' = add_mset item (mset ?q)" by (simp add: insert_item_def)
  then show "mset (aq_queue (insert_item item aq)) = add_mset item (mset (aq_queue aq))" .
  have "mset (map it_template_hash ?q') = mset (map it_template_hash (item # ?q))" using m by simp
  then have "distinct (map it_template_hash ?q') = distinct (map it_template_hash (item # ?q))"
    by (rule mset_eq_imp_distinct_iff)
  moreover have "length ?q' = Suc (length ?q)" using m by (metis size_add_mset size_mset)
  moreover have "set ?q' = insert item (set ?q)" using m by (metis set_mset_add_mset_insert set_mset_mset)
  moreover have "sorted_wrt (\<lambda>a b. rank b \<le> rank a) ?q'"
    using insert_sorted assms(1) by (simp add: insert_item_def queue_ok_def)
  moreover have "aq_pending_templates (insert_item item aq) = insert (it_template_hash item) (aq_pending_templates aq)"
    "aq_max_size (insert_item item aq) = aq_max_size aq" by (simp_all add: insert_item_def)
  ultimately show "queue_ok (insert_item item aq)"
    using assms unfolding queue_ok_def by simp
qed

lemma evict_tail_ok:
  assumes "queue_ok aq" "aq_queue aq \<noteq> []"
  shows "queue_ok (evict_tail aq)" "length (aq_queue (evict_tail aq)) < aq_max_size (evict_tail aq)"
    "mset (aq_queue (evict_tail aq)) = mset (aq_queue aq) - {#last (aq_queue aq)#}"
    "aq_pending_templates (evict_tail aq) = aq_pending_templates aq - {it_template_hash (last (aq_queue aq))}"
    "\<forall>it \<in> set (aq_queue aq). rank (last (aq_queue aq)) \<le> rank it"
proof -
  obtain q t where q: "aq_queue aq = q @ [t]" using assms(2) by (metis append_butlast_last_id)
  from assms(1) show "queue_ok (evict_tail aq)"
    by (auto simp: queue_ok_def evict_tail_def q sorted_wrt_append)
  show "length (aq_queue (evict_tail aq)) < aq_max_size (evict_tail aq)"
    "mset (aq_queue (evict_tail aq)) = mset (aq_queue aq) - {#last (aq_queue aq)#}"
    "aq_pending_templates (evict_tail aq) = aq_pending_templates aq - {it_template_hash (last (aq_queue aq))}"
    "\<forall>it \<in> set (aq_queue aq). rank (last (aq_queue aq)) \<le> rank it"
    using assms(1) by (auto simp: queue_ok_def evict_tail_def q sorted_wrt_append)
qed

section \<open>The bounded priority queue\<close>

text \<open>
  What the queue promises, over the bag of waiting items: an item is added while there is room, or replaces a
  lowest item of strictly lower rank; what is taken has the highest rank.
\<close>

inductive pq_step :: "nat \<Rightarrow> Item multiset \<Rightarrow> Item multiset \<Rightarrow> bool" where
  pq_add: "size M < cap \<Longrightarrow> pq_step cap M (add_mset x M)"
| pq_replace: "y \<in># M \<Longrightarrow> \<forall>z \<in># M. rank y \<le> rank z \<Longrightarrow> rank y < rank x \<Longrightarrow> pq_step cap M (add_mset x (M - {#y#}))"
| pq_take: "x \<in># M \<Longrightarrow> \<forall>z \<in># M. rank z \<le> rank x \<Longrightarrow> pq_step cap M (M - {#x#})"
| pq_same: "pq_step cap M M"

lemma Enqueue_branches:
  "aq_shutdown aq \<or> it_template_hash item \<in> aq_pending_templates aq \<Longrightarrow> AnalysisQueue_Enqueue item aq = Some (False, aq)"
  "\<not> (aq_shutdown aq \<or> it_template_hash item \<in> aq_pending_templates aq) \<Longrightarrow> aq_max_size aq \<le> length (aq_queue aq) \<Longrightarrow>
    aq_queue aq \<noteq> [] \<Longrightarrow> \<not> higher item (last (aq_queue aq)) \<Longrightarrow>
    AnalysisQueue_Enqueue item aq = Some (False, aq\<lparr>aq_drops := aq_drops aq + 1\<rparr>)"
  "\<not> (aq_shutdown aq \<or> it_template_hash item \<in> aq_pending_templates aq) \<Longrightarrow> aq_max_size aq \<le> length (aq_queue aq) \<Longrightarrow>
    aq_queue aq \<noteq> [] \<Longrightarrow> higher item (last (aq_queue aq)) \<Longrightarrow>
    AnalysisQueue_Enqueue item aq = Some (True, insert_item item (evict_tail aq))"
  "\<not> (aq_shutdown aq \<or> it_template_hash item \<in> aq_pending_templates aq) \<Longrightarrow> length (aq_queue aq) < aq_max_size aq \<Longrightarrow>
    AnalysisQueue_Enqueue item aq = Some (True, insert_item item aq)"
  by (cases "aq_shutdown aq"; simp add: AnalysisQueue_Enqueue_def)+

lemma Enqueue_sim:
  assumes ok: "queue_ok aq" and enq: "AnalysisQueue_Enqueue item aq = Some (accepted, aq')"
  shows "queue_ok aq' \<and> aq_max_size aq' = aq_max_size aq \<and>
    pq_step (aq_max_size aq) (mset (aq_queue aq)) (mset (aq_queue aq'))"
proof (cases "aq_shutdown aq \<or> it_template_hash item \<in> aq_pending_templates aq")
  case True
  then show ?thesis using ok enq Enqueue_branches(1) by (simp add: pq_same)
next
  case False
  note avail = this
  show ?thesis
  proof (cases "length (aq_queue aq) < aq_max_size aq")
    case True
    have aq': "aq' = insert_item item aq" using enq Enqueue_branches(4) [OF avail True] by simp
    note i = insert_item_ok [OF ok True, of item]
    have "pq_step (aq_max_size aq) (mset (aq_queue aq)) (add_mset item (mset (aq_queue aq)))"
      using True by (intro pq_add) simp
    moreover have "aq_max_size aq' = aq_max_size aq" by (simp add: aq' insert_item_def)
    ultimately show ?thesis using i avail aq' by simp
  next
    case False
    then have full: "aq_max_size aq \<le> length (aq_queue aq)" by simp
    with ok have ne: "aq_queue aq \<noteq> []" by (auto simp: queue_ok_def)
    show ?thesis
    proof (cases "higher item (last (aq_queue aq))")
      case True
      have aq': "aq' = insert_item item (evict_tail aq)" using enq Enqueue_branches(3) [OF avail full ne True] by simp
      note t = evict_tail_ok [OF ok ne]
      have hash: "it_template_hash item \<notin> aq_pending_templates (evict_tail aq)" using avail t(4) by simp
      note i = insert_item_ok [OF t(1,2) hash]
      have "pq_step (aq_max_size aq) (mset (aq_queue aq)) (add_mset item (mset (aq_queue aq) - {#last (aq_queue aq)#}))"
        using t(5) ne True by (intro pq_replace) (auto simp: higher_rank)
      moreover have "aq_max_size aq' = aq_max_size aq" by (simp add: aq' insert_item_def evict_tail_def)
      ultimately show ?thesis using i t(3) aq' by simp
    next
      case False
      have "aq' = aq\<lparr>aq_drops := aq_drops aq + 1\<rparr>" using enq Enqueue_branches(2) [OF avail full ne False] by simp
      then show ?thesis using ok by (simp add: queue_ok_def pq_same)
    qed
  qed
qed

lemma Dequeue_sim:
  assumes ok: "queue_ok aq" and deq: "AnalysisQueue_Dequeue aq = (res, aq')"
  shows "queue_ok aq' \<and> aq_max_size aq' = aq_max_size aq \<and>
    pq_step (aq_max_size aq) (mset (aq_queue aq)) (mset (aq_queue aq'))"
proof (cases "aq_queue aq")
  case Nil
  then show ?thesis using ok deq by (simp add: AnalysisQueue_Dequeue_def pq_same)
next
  case (Cons x q)
  then have aq': "aq' = aq\<lparr>aq_queue := q, aq_pending_templates := aq_pending_templates aq - {it_template_hash x}\<rparr>"
    using deq by (simp add: AnalysisQueue_Dequeue_def)
  have "pq_step (aq_max_size aq) (mset (x # q)) (mset (x # q) - {#x#})"
    using ok Cons by (intro pq_take) (auto simp: queue_ok_def)
  then show ?thesis using ok Cons aq' by (auto simp: queue_ok_def)
qed

interpretation analysis: simulation "\<lambda>aq. \<exists>n \<ge> 1. aq = AnalysisQueue_new n" aq_step queue_ok
    "\<lambda>a b. fst a = fst b \<and> pq_step (fst a) (snd a) (snd b)" "\<lambda>aq. (aq_max_size aq, mset (aq_queue aq))"
proof
  show "queue_ok s" if "\<exists>n \<ge> 1. s = AnalysisQueue_new n" for s
    using that by (auto simp: queue_ok_def AnalysisQueue_new_def)
  have step: "queue_ok t \<and> aq_max_size t = aq_max_size s \<and> pq_step (aq_max_size s) (mset (aq_queue s)) (mset (aq_queue t))"
    if "queue_ok s" "aq_step s t" for s t
    using that(2,1)
  proof cases
    case aq_Shutdown
    then show ?thesis using that(1) by (simp add: queue_ok_def AnalysisQueue_Shutdown_def pq_same)
  qed (use Enqueue_sim Dequeue_sim that(1) in blast)+
  show "queue_ok t" if "queue_ok s" "aq_step s t" for s t using step that by blast
  show "fst (aq_max_size s, mset (aq_queue s)) = fst (aq_max_size t, mset (aq_queue t)) \<and>
      pq_step (fst (aq_max_size s, mset (aq_queue s))) (snd (aq_max_size s, mset (aq_queue s))) (snd (aq_max_size t, mset (aq_queue t)))"
    if "queue_ok s" "aq_step s t" for s t using step that by simp
qed

lemma reachable_cap:
  assumes "aq_step\<^sup>*\<^sup>* (AnalysisQueue_new n) aq" "1 \<le> n"
  shows "aq_max_size aq = n"
proof -
  have "(\<lambda>a b. fst a = fst b \<and> pq_step (fst a) (snd a) (snd b))\<^sup>*\<^sup>* (n, {#}) (aq_max_size aq, mset (aq_queue aq))"
    using analysis.reachable_sim [OF _ assms(1)] assms(2) by (auto simp: AnalysisQueue_new_def)
  then have "fst (aq_max_size aq, mset (aq_queue aq)) = fst (n, {#} :: Item multiset)"
    by (induction rule: rtranclp_induct) simp_all
  then show ?thesis by simp
qed

section \<open>Properties\<close>

text \<open>
  C33: on every queue reached from a capacity of at least 1, Enqueue is defined, refuses exactly after shutdown,
  for a template already waiting, or when the queue is full of items of at least the same rank, and otherwise
  adds the item, replacing one of lowest rank when full; the queue never exceeds its capacity and never holds
  two items of one template.  A full queue thus loses the item at its tail, and a new item that ranks no higher than
  all the waiting ones is refused, whereas the comment of the class and the manual speak of dropping the head.
\<close>

theorem Enqueue_contract:
  assumes "aq_step\<^sup>*\<^sup>* (AnalysisQueue_new n) aq" "1 \<le> n"
  shows "length (aq_queue aq) \<le> n \<and> distinct (map it_template_hash (aq_queue aq)) \<and>
    (case AnalysisQueue_Enqueue item aq of None \<Rightarrow> False | Some (accepted, aq') \<Rightarrow>
      accepted = (\<not> aq_shutdown aq \<and> it_template_hash item \<notin> it_template_hash ` set (aq_queue aq) \<and>
        (length (aq_queue aq) < n \<or> (\<exists>y \<in> set (aq_queue aq). rank y < rank item))) \<and>
      (if \<not> accepted then aq_queue aq' = aq_queue aq
       else if length (aq_queue aq) < n then mset (aq_queue aq') = add_mset item (mset (aq_queue aq))
       else \<exists>y \<in> set (aq_queue aq). (\<forall>z \<in> set (aq_queue aq). rank y \<le> rank z) \<and>
              mset (aq_queue aq') = add_mset item (mset (aq_queue aq) - {#y#})))"
proof -
  have ok: "queue_ok aq" using analysis.reachable_inv assms by blast
  have n: "aq_max_size aq = n" using reachable_cap assms by blast
  have pend: "aq_pending_templates aq = it_template_hash ` set (aq_queue aq)" using ok by (simp add: queue_ok_def)
  have bound: "length (aq_queue aq) \<le> n \<and> distinct (map it_template_hash (aq_queue aq))" using ok n by (simp add: queue_ok_def)
  show ?thesis
  proof (cases "aq_shutdown aq \<or> it_template_hash item \<in> aq_pending_templates aq")
    case True
    then show ?thesis using bound pend by (simp add: Enqueue_branches(1) [OF True]; blast)
  next
    case False
    note avail = this
    show ?thesis
    proof (cases "length (aq_queue aq) < n")
      case True
      then have "length (aq_queue aq) < aq_max_size aq" using n by simp
      then show ?thesis
        using avail bound pend True insert_item_ok(2) [OF ok, of item] by (simp add: Enqueue_branches(4) [OF avail])
    next
      case False
      then have full: "aq_max_size aq \<le> length (aq_queue aq)" and ne: "aq_queue aq \<noteq> []" using assms(2) n by auto
      note t = evict_tail_ok [OF ok ne]
      have low: "(\<exists>y \<in> set (aq_queue aq). rank y < rank item) \<longleftrightarrow> higher item (last (aq_queue aq))"
        using t(5) ne by (auto simp: higher_rank intro: le_less_trans)
      have ins: "mset (aq_queue (insert_item item (evict_tail aq))) = add_mset item (mset (aq_queue aq) - {#last (aq_queue aq)#})"
        using insert_item_ok(2) [OF t(1,2), of item] avail t(3,4) by simp
      show ?thesis
      proof (cases "higher item (last (aq_queue aq))")
        case True
        then show ?thesis
          using False avail bound pend low ins t(5) last_in_set [OF ne]
          by (simp add: Enqueue_branches(3) [OF avail full ne True]; blast)
      next
        case low_rank: False
        then show ?thesis
          using False bound low by (simp add: Enqueue_branches(2) [OF avail full ne low_rank])
      qed
    qed
  qed
qed

definition sample_item :: "u64 \<Rightarrow> u32 \<Rightarrow> Item" where
  "sample_item h f = \<lparr>it_url = ''/'', it_hostname = ''h'', it_scheme = ''https'', it_mask = 0, it_template_hash = h,
     it_is_warmup = False, it_frequency = f, it_retry_count = 0, it_original_html = [], it_has_origin_html_hash = False,
     it_origin_html_hash = [], it_force_agent_render = False, it_site = [], it_host_vouched = False, it_from_module = False\<rparr>"

definition sample_queue :: AnalysisQueue where
  "sample_queue = insert_item (sample_item 1 5) (AnalysisQueue_new 1)"

lemma sample_queue_run: "aq_step\<^sup>*\<^sup>* (AnalysisQueue_new 1) sample_queue"
proof -
  have "AnalysisQueue_Enqueue (sample_item 1 5) (AnalysisQueue_new 1) = Some (True, sample_queue)"
    by (simp add: AnalysisQueue_Enqueue_def AnalysisQueue_new_def sample_queue_def)
  then have "aq_step (AnalysisQueue_new 1) sample_queue" by (rule aq_Enqueue)
  then show ?thesis by (rule r_into_rtranclp)
qed

theorem Enqueue_contract_witness:
  "\<exists>aq'. AnalysisQueue_Enqueue (sample_item 2 9) sample_queue = Some (True, aq') \<and>
    mset (aq_queue aq') = {#sample_item 2 9#}"
proof -
  have "aq_queue sample_queue = [sample_item 1 5]" "\<not> aq_shutdown sample_queue"
    by (simp_all add: sample_queue_def insert_item_def AnalysisQueue_new_def)
  moreover have "rank (sample_item 1 5) < rank (sample_item 2 9)" "it_template_hash (sample_item 2 9) \<noteq> it_template_hash (sample_item 1 5)"
    by (simp_all add: rank_def sample_item_def)
  ultimately show ?thesis
    using Enqueue_contract [OF sample_queue_run, of "sample_item 2 9"] by (auto split: option.splits prod.splits if_splits)
qed

text \<open>The whole queue, taken item by item.\<close>

fun drain :: "nat \<Rightarrow> AnalysisQueue \<Rightarrow> Item list" where
  "drain 0 aq = []"
| "drain (Suc n) aq =
     (case AnalysisQueue_Dequeue aq of (None, aq') \<Rightarrow> [] | (Some item, aq') \<Rightarrow> item # drain n aq')"

lemma drain_eq: "drain n aq = take n (aq_queue aq)"
  by (induction n arbitrary: aq) (auto simp: AnalysisQueue_Dequeue_def split: list.split)

text \<open>
  C34: every waiting item is taken: without further arrivals, as many dequeues as there are items return all of
  them, each once, warmups before the others and by falling frequency within each kind, and then the queue
  answers that it is empty; the answer is empty only then.
\<close>

theorem drain_complete:
  assumes "aq_step\<^sup>*\<^sup>* (AnalysisQueue_new n) aq" "1 \<le> n"
  shows "let out = drain (length (aq_queue aq)) aq
    in mset out = mset (aq_queue aq) \<and>
       sorted_wrt (\<lambda>a b. (it_is_warmup a \<and> \<not> it_is_warmup b) \<or>
                         (it_is_warmup a = it_is_warmup b \<and> it_frequency b \<le> it_frequency a)) out \<and>
       drain (length (aq_queue aq) + k) aq = out \<and>
       (fst (AnalysisQueue_Dequeue aq) = None \<longleftrightarrow> aq_queue aq = [])"
proof -
  have ok: "queue_ok aq" using analysis.reachable_inv assms by blast
  have "(\<lambda>a b. rank b \<le> rank a) = (\<lambda>a b. (it_is_warmup a \<and> \<not> it_is_warmup b) \<or>
      (it_is_warmup a = it_is_warmup b \<and> it_frequency b \<le> it_frequency a))"
    by (auto simp: fun_eq_iff rank_def less_eq_prod_def less_le)
  then show ?thesis
    using ok by (simp add: drain_eq queue_ok_def Let_def AnalysisQueue_Dequeue_def split: list.split)
qed

theorem drain_complete_witness: "drain 1 sample_queue = [sample_item 1 5]"
  using drain_complete [OF sample_queue_run, of 0]
  by (simp add: sample_queue_def insert_item_def AnalysisQueue_new_def Let_def)

end
