(* ===== verification/Template_Detector.thy ===== *)
theory Template_Detector
  imports State_Machine
begin

text \<open>
  Page templates: \<open>src/browser/template_detector.cc\<close>.  A page's template is the FNV-1a hash of its tag tree; the
  detector remembers which templates were analysed in a map with first-in first-out eviction.  Of a scan
  result only what the hash reads is here: the depth and tag of the elements, the elements left out with their
  positions, the number of stylesheets and the inline CSS.  The code hashes the stylesheet count as it lies in
  memory; the model is that of a little-endian host.
\<close>

section \<open>The structure hash\<close>

definition kFnvOffsetBasis :: u64 where "kFnvOffsetBasis = 14695981039346656037"

definition kFnvPrime :: u64 where "kFnvPrime = 1099511628211"

definition FnvHashByte :: "u64 \<Rightarrow> u8 \<Rightarrow> u64" where
  "FnvHashByte hash byte = (hash XOR ucast byte) * kFnvPrime"

definition FnvHash :: "u64 \<Rightarrow> string \<Rightarrow> u64" where
  "FnvHash hash data = fold (\<lambda>c h. (h XOR of_char c) * kFnvPrime) data hash"

record InertElement =
  in_position :: nat
  in_depth :: int
  in_tag_name :: string

record HtmlScanResult =
  hs_elements :: "(int \<times> string) list"
  hs_inert_elements :: "InertElement list"
  hs_num_stylesheets :: nat
  hs_inline_css :: string

definition hash_element :: "int \<Rightarrow> string \<Rightarrow> u64 \<Rightarrow> u64" where
  "hash_element elem_depth tag_name hash =
     (let depth = (word_of_int (if elem_depth > 255 then 255 else elem_depth) :: u8);
          hash = FnvHashByte hash depth;
          hash = FnvHash hash tag_name
      in FnvHashByte hash 0xFF)"

text \<open>The inner loop: the inert elements whose position is reached, and the ones that remain.\<close>

fun hash_inert :: "nat \<Rightarrow> InertElement list \<Rightarrow> u64 \<Rightarrow> InertElement list \<times> u64" where
  "hash_inert i [] hash = ([], hash)"
| "hash_inert i (e # inert) hash =
     (if in_position e \<le> i then hash_inert i inert (hash_element (in_depth e) (in_tag_name e) hash)
      else (e # inert, hash))"

fun hash_merged :: "nat \<Rightarrow> (int \<times> string) list \<Rightarrow> InertElement list \<Rightarrow> u64 \<Rightarrow> u64" where
  "hash_merged i [] inert hash = snd (hash_inert i inert hash)"
| "hash_merged i (e # elements) inert hash =
     (let (inert, hash) = hash_inert i inert hash
      in hash_merged (Suc i) elements inert (hash_element (fst e) (snd e) hash))"

definition HashStructure :: "HtmlScanResult \<Rightarrow> u64" where
  "HashStructure scan_result =
     (let hash = hash_merged 0 (hs_elements scan_result) (hs_inert_elements scan_result) kFnvOffsetBasis;
          hash = FnvHash hash (le_bytes 4 (hs_num_stylesheets scan_result mod 2 ^ 32))
      in FnvHashByte hash (if hs_inline_css scan_result = [] then 0 else 1))"

section \<open>The profiles\<close>

definition kMaxTemplates :: nat where "kMaxTemplates = 1000"

record TemplateDetector =
  td_profiles :: "u64 \<rightharpoonup> string"
  td_insertion_order :: "u64 list"

definition TemplateDetector_new :: TemplateDetector where
  "TemplateDetector_new = \<lparr>td_profiles = Map.empty, td_insertion_order = []\<rparr>"

definition HasProfile :: "u64 \<Rightarrow> TemplateDetector \<Rightarrow> bool" where
  "HasProfile template_hash d \<longleftrightarrow> td_profiles d template_hash \<noteq> None"

definition evict_oldest :: "TemplateDetector \<Rightarrow> TemplateDetector" where
  "evict_oldest d =
     (if card (dom (td_profiles d)) \<ge> kMaxTemplates
      then d\<lparr>td_insertion_order := tl (td_insertion_order d),
             td_profiles := (td_profiles d)(hd (td_insertion_order d) := None)\<rparr>
      else d)"

definition RecordProfile :: "u64 \<Rightarrow> string \<Rightarrow> TemplateDetector \<Rightarrow> TemplateDetector" where
  "RecordProfile template_hash analyzed_url d =
     (if td_profiles d template_hash \<noteq> None
      then d\<lparr>td_profiles := (td_profiles d)(template_hash \<mapsto> analyzed_url)\<rparr>
      else (let d = evict_oldest d
            in d\<lparr>td_profiles := (td_profiles d)(template_hash \<mapsto> analyzed_url),
                 td_insertion_order := td_insertion_order d @ [template_hash]\<rparr>))"

definition RemoveProfile :: "u64 \<Rightarrow> TemplateDetector \<Rightarrow> bool \<times> TemplateDetector" where
  "RemoveProfile template_hash d =
     (if td_profiles d template_hash = None then (False, d)
      else (True, d\<lparr>td_profiles := (td_profiles d)(template_hash := None),
                    td_insertion_order := remove1 template_hash (td_insertion_order d)\<rparr>))"

definition GetAnalyzedUrl :: "u64 \<Rightarrow> TemplateDetector \<Rightarrow> string" where
  "GetAnalyzedUrl template_hash d = (case td_profiles d template_hash of Some url \<Rightarrow> url | None \<Rightarrow> [])"

definition TemplateDetector_size :: "TemplateDetector \<Rightarrow> nat" where
  "TemplateDetector_size d = card (dom (td_profiles d))"

inductive td_step :: "TemplateDetector \<Rightarrow> TemplateDetector \<Rightarrow> bool" where
  td_Record: "td_step d (RecordProfile h url d)"
| td_Remove: "td_step d (snd (RemoveProfile h d))"

section \<open>The hash is that of the document order\<close>

text \<open>
  What the scanner does with the elements of a page in document order: a flag says whether the element is left
  out, and such an element records how many of the collected ones precede it.
\<close>

type_synonym document = "(bool \<times> int \<times> string) list"

definition collected :: "document \<Rightarrow> (int \<times> string) list" where
  "collected xs = map snd (filter (\<lambda>x. \<not> fst x) xs)"

fun left_out :: "nat \<Rightarrow> document \<Rightarrow> InertElement list" where
  "left_out i [] = []"
| "left_out i ((inert, depth, tag) # xs) =
     (if inert then \<lparr>in_position = i, in_depth = depth, in_tag_name = tag\<rparr> # left_out i xs else left_out (Suc i) xs)"

definition hash_document :: "document \<Rightarrow> u64 \<Rightarrow> u64" where
  "hash_document xs hash = fold (\<lambda>x. hash_element (fst (snd x)) (snd (snd x))) xs hash"

lemma left_out_position: "e \<in> set (left_out i xs) \<Longrightarrow> i \<le> in_position e"
  by (induction i xs rule: left_out.induct) (auto split: if_splits dest: Suc_leD)

lemma hash_inert_later: "\<forall>e \<in> set inert. i < in_position e \<Longrightarrow> hash_inert i inert hash = (inert, hash)"
  by (cases inert) auto

lemma hash_merged_document:
  "hash_merged i (collected xs) (left_out i xs) hash = hash_document xs hash"
proof (induction i xs arbitrary: hash rule: left_out.induct)
  case (1 i)
  then show ?case by (simp add: collected_def hash_document_def)
next
  case (2 i inert depth tag xs)
  show ?case
  proof (cases inert)
    case True
    have "hash_merged i es (\<lparr>in_position = i, in_depth = depth, in_tag_name = tag\<rparr> # out) h =
        hash_merged i es out (hash_element depth tag h)" for es out h
      by (cases es) simp_all
    then show ?thesis using True 2(1) by (simp add: collected_def hash_document_def)
  next
    case False
    have "\<forall>e \<in> set (left_out (Suc i) xs). i < in_position e" using left_out_position Suc_le_lessD by blast
    then show ?thesis using False 2(2) by (simp add: collected_def hash_document_def hash_inert_later)
  qed
qed

section \<open>The invariant\<close>

definition detector_ok :: "TemplateDetector \<Rightarrow> bool" where
  "detector_ok d \<longleftrightarrow>
     distinct (td_insertion_order d) \<and> set (td_insertion_order d) = dom (td_profiles d) \<and>
     length (td_insertion_order d) \<le> kMaxTemplates"

lemma detector_size: "detector_ok d \<Longrightarrow> card (dom (td_profiles d)) = length (td_insertion_order d)"
  unfolding detector_ok_def by (metis distinct_card)

text \<open>The abstract detector: the pairs in insertion order.\<close>

definition detector_abs :: "TemplateDetector \<Rightarrow> (u64 \<times> string) list" where
  "detector_abs d = map (\<lambda>h. (h, the (td_profiles d h))) (td_insertion_order d)"

definition fifo_record :: "u64 \<Rightarrow> string \<Rightarrow> (u64 \<times> string) list \<Rightarrow> (u64 \<times> string) list" where
  "fifo_record h url l =
     (if h \<in> fst ` set l then map (\<lambda>x. if fst x = h then (h, url) else x) l
      else (if length l \<ge> 1000 then tl l else l) @ [(h, url)])"

lemma evict_oldest_ok:
  assumes ok: "detector_ok d"
  shows "detector_ok (evict_oldest d) \<and> length (td_insertion_order (evict_oldest d)) < kMaxTemplates \<and>
    td_insertion_order (evict_oldest d) =
      (if length (td_insertion_order d) \<ge> 1000 then tl (td_insertion_order d) else td_insertion_order d) \<and>
    (\<forall>h \<in> set (td_insertion_order (evict_oldest d)). td_profiles (evict_oldest d) h = td_profiles d h)"
proof (cases "length (td_insertion_order d) \<ge> 1000")
  case True
  then obtain x q where q: "td_insertion_order d = x # q" by (cases "td_insertion_order d") auto
  then show ?thesis
    using ok True detector_size [OF ok] by (auto simp: evict_oldest_def detector_ok_def kMaxTemplates_def)
next
  case False
  then show ?thesis using ok detector_size [OF ok] by (simp add: evict_oldest_def kMaxTemplates_def)
qed

lemma RecordProfile_refines:
  assumes ok: "detector_ok d"
  shows "detector_ok (RecordProfile h url d)" "detector_abs (RecordProfile h url d) = fifo_record h url (detector_abs d)"
proof -
  have keys: "fst ` set (detector_abs d) = dom (td_profiles d)" "length (detector_abs d) = length (td_insertion_order d)"
    using ok by (force simp: detector_abs_def detector_ok_def, simp add: detector_abs_def)
  have "detector_ok (RecordProfile h url d) \<and> detector_abs (RecordProfile h url d) = fifo_record h url (detector_abs d)"
  proof (cases "td_profiles d h = None")
    case False
    then have "h \<in> dom (td_profiles d)" by blast
    then show ?thesis
      using ok keys False by (auto simp: RecordProfile_def detector_ok_def fifo_record_def detector_abs_def)
  next
    case True
    note e = evict_oldest_ok [OF ok]
    let ?e = "evict_oldest d"
    have h: "h \<notin> dom (td_profiles d)" using True by blast
    have sub: "set (td_insertion_order ?e) \<subseteq> set (td_insertion_order d)"
      using e by (metis list.set_sel(2) subsetI tl_Nil)
    have h': "h \<notin> set (td_insertion_order ?e)" using h sub ok by (auto simp: detector_ok_def)
    have rec: "RecordProfile h url d =
        ?e\<lparr>td_profiles := (td_profiles ?e)(h \<mapsto> url), td_insertion_order := td_insertion_order ?e @ [h]\<rparr>"
      using True by (simp add: RecordProfile_def Let_def)
    have "detector_ok (RecordProfile h url d)"
      using e h' by (auto simp: rec detector_ok_def)
    moreover have "map (\<lambda>x. (x, the (((td_profiles ?e)(h \<mapsto> url)) x))) (td_insertion_order ?e) =
        map (\<lambda>x. (x, the (td_profiles d x))) (td_insertion_order ?e)"
      using e h' by auto
    then have "detector_abs (RecordProfile h url d) =
        map (\<lambda>x. (x, the (td_profiles d x))) (td_insertion_order ?e) @ [(h, url)]"
      by (simp add: detector_abs_def rec)
    then have "detector_abs (RecordProfile h url d) = fifo_record h url (detector_abs d)"
      using e h keys by (simp add: fifo_record_def) (simp add: detector_abs_def map_tl)
    ultimately show ?thesis ..
  qed
  then show "detector_ok (RecordProfile h url d)" "detector_abs (RecordProfile h url d) = fifo_record h url (detector_abs d)"
    by simp_all
qed

lemma RemoveProfile_refines:
  assumes ok: "detector_ok d"
  shows "detector_ok (snd (RemoveProfile h d))"
    "detector_abs (snd (RemoveProfile h d)) = filter (\<lambda>x. fst x \<noteq> h) (detector_abs d)"
proof -
  have rem: "remove1 h (td_insertion_order d) = filter (\<lambda>x. x \<noteq> h) (td_insertion_order d)"
    using ok by (simp add: detector_ok_def distinct_remove1_removeAll removeAll_filter_not_eq) (metis (full_types))
  show "detector_ok (snd (RemoveProfile h d))"
    using ok le_trans [OF length_filter_le] by (auto simp: RemoveProfile_def rem detector_ok_def)
  show "detector_abs (snd (RemoveProfile h d)) = filter (\<lambda>x. fst x \<noteq> h) (detector_abs d)"
  proof (cases "td_profiles d h = None")
    case True
    then have "h \<notin> set (td_insertion_order d)" using ok by (auto simp: detector_ok_def)
    then have "filter (\<lambda>x. x \<noteq> h) (td_insertion_order d) = td_insertion_order d" by (auto simp: filter_id_conv)
    then show ?thesis using True by (simp add: RemoveProfile_def detector_abs_def filter_map comp_def)
  next
    case False
    then show ?thesis by (auto simp: RemoveProfile_def rem detector_abs_def filter_map comp_def)
  qed
qed

interpretation detector: invariant_machine "\<lambda>d. d = TemplateDetector_new" td_step detector_ok
proof
  show "detector_ok s" if "s = TemplateDetector_new" for s
    using that by (simp add: detector_ok_def TemplateDetector_new_def)
  show "detector_ok t" if "detector_ok s" "td_step s t" for s t
    using that(2,1) by cases (simp_all add: RecordProfile_refines RemoveProfile_refines)
qed

section \<open>Properties\<close>

text \<open>
  leaving elements out of the collected ones does not change the template: for any document, hashing the
  collected elements with the left-out ones merged back at their recorded positions is hashing all elements in
  document order.
\<close>

theorem HashStructure_document_order:
  "HashStructure \<lparr>hs_elements = map snd (filter (\<lambda>x. \<not> fst x) doc), hs_inert_elements = left_out 0 doc,
      hs_num_stylesheets = n, hs_inline_css = css\<rparr> =
   HashStructure \<lparr>hs_elements = map snd doc, hs_inert_elements = [], hs_num_stylesheets = n, hs_inline_css = css\<rparr>"
proof -
  have "hash_merged i es [] h = fold (\<lambda>e. hash_element (fst e) (snd e)) es h" for i es h
    by (induction es arbitrary: i h) simp_all
  then have "hash_merged 0 (map snd doc) [] h = hash_document doc h" for h
    by (simp add: hash_document_def fold_map comp_def)
  then show ?thesis
    using hash_merged_document [of 0 doc] by (simp add: HashStructure_def collected_def)
qed

text \<open>
  C38: from the empty detector, every run keeps at most 1000 profiles, and recording a template behaves as a
  first-in first-out table: a known template keeps its place and takes the new URL, a new one is appended and
  pushes the oldest out when the table is full; what was just recorded is found.
\<close>

theorem detector_is_fifo:
  assumes "td_step\<^sup>*\<^sup>* TemplateDetector_new d"
  shows "TemplateDetector_size d \<le> 1000 \<and>
    detector_abs (RecordProfile h url d) =
      (if HasProfile h d then map (\<lambda>x. if fst x = h then (h, url) else x) (detector_abs d)
       else (if TemplateDetector_size d = 1000 then tl (detector_abs d) else detector_abs d) @ [(h, url)]) \<and>
    detector_abs (snd (RemoveProfile h d)) = filter (\<lambda>x. fst x \<noteq> h) (detector_abs d) \<and>
    GetAnalyzedUrl h (RecordProfile h url d) = url"
proof -
  have ok: "detector_ok d" using detector.reachable_inv assms by blast
  have size: "TemplateDetector_size d = length (detector_abs d)" "length (detector_abs d) \<le> 1000"
    using detector_size [OF ok] ok by (simp_all add: TemplateDetector_size_def detector_abs_def detector_ok_def kMaxTemplates_def)
  have "fst ` set (detector_abs d) = dom (td_profiles d)"
    using ok by (force simp: detector_abs_def detector_ok_def)
  then have "h \<in> fst ` set (detector_abs d) \<longleftrightarrow> HasProfile h d" by (auto simp: HasProfile_def)
  moreover have "GetAnalyzedUrl h (RecordProfile h url d) = url"
    by (simp add: GetAnalyzedUrl_def RecordProfile_def Let_def)
  moreover have "1000 \<le> length (detector_abs d) \<longleftrightarrow> TemplateDetector_size d = 1000" using size by linarith
  ultimately show ?thesis
    unfolding RecordProfile_refines(2) [OF ok] RemoveProfile_refines(2) [OF ok] fifo_record_def
    using size by simp
qed

theorem detector_is_fifo_witness:
  "detector_abs (RecordProfile 2 ''b'' (RecordProfile 1 ''a'' TemplateDetector_new)) = [(1, ''a''), (2, ''b'')]"
proof -
  let ?d = "RecordProfile 1 ''a'' TemplateDetector_new"
  have run: "td_step\<^sup>*\<^sup>* TemplateDetector_new ?d" by (rule r_into_rtranclp) (rule td_Record)
  have "detector_abs ?d = [(1, ''a'')]" "\<not> HasProfile 2 ?d" "TemplateDetector_size ?d = 1"
    by (simp_all add: RecordProfile_def TemplateDetector_new_def evict_oldest_def kMaxTemplates_def detector_abs_def
        HasProfile_def TemplateDetector_size_def)
  then show ?thesis using detector_is_fifo [OF run, of 2 "''b''"] by simp
qed

end
