(* ===== verification/Ssrf_Guard.thy ===== *)
theory Ssrf_Guard
  imports String_Util "HOL-Library.Monad_Syntax"
begin

text \<open>
  The guard against fetching from private addresses: \<open>lib/net/ssrf_guard.cc\<close>.  The address functions of the
  operating system (\<open>inet_aton\<close>, \<open>inet_pton\<close>, \<open>inet_ntop\<close>) are the fields of a record the definitions take: a
  parser returns the bytes of an address in network order, a printer its text.  The POSIX branch of the legacy
  IPv4 parser is modelled.  They read C strings, so a text is cut at its first NUL.  The label accumulator is a
  \<^typ>\<open>nat\<close>: the code stops it far below 64 bits.
\<close>

section \<open>Texts of addresses\<close>

record inet_lib =
  inet_aton :: "string \<Rightarrow> string option"
  inet_pton4 :: "string \<Rightarrow> string option"
  inet_pton6 :: "string \<Rightarrow> string option"
  inet_ntop4 :: "string \<Rightarrow> string option"
  inet_ntop6 :: "string \<Rightarrow> string option"

definition c_str :: "string \<Rightarrow> string" where
  "c_str s = takeWhile (\<lambda>c. c \<noteq> CHR 0x00) s"

definition ToLowerAscii :: "string \<Rightarrow> string" where
  "ToLowerAscii s = AsciiToLower s"

definition SchemeDefaultPort :: "string \<Rightarrow> int" where
  "SchemeDefaultPort scheme = (if scheme = ''http'' then 80 else if scheme = ''https'' then 443 else 0)"

text \<open>All pieces between separators, empty ones included.\<close>

fun split_all :: "char \<Rightarrow> string \<Rightarrow> string list" where
  "split_all d [] = [[]]"
| "split_all d (c # s) =
     (if c = d then [] # split_all d s
      else (case split_all d s of [] \<Rightarrow> [[c]] | p # ps \<Rightarrow> (c # p) # ps))"

definition hex_label_digit :: "char \<Rightarrow> nat option" where
  "hex_label_digit c =
     (if CHR ''0'' \<le> c \<and> c \<le> CHR ''9'' then Some (of_char c - of_char (CHR ''0''))
      else if CHR ''a'' \<le> c \<and> c \<le> CHR ''f'' then Some (of_char c - of_char (CHR ''a'') + 10)
      else if CHR ''A'' \<le> c \<and> c \<le> CHR ''F'' then Some (of_char c - of_char (CHR ''A'') + 10)
      else None)"

fun hex_label :: "nat \<Rightarrow> string \<Rightarrow> nat option" where
  "hex_label v [] = Some v"
| "hex_label v (c # s) =
     (case hex_label_digit c of
        None \<Rightarrow> None
      | Some d \<Rightarrow> (let v = v * 16 + d in if v > 0x7fffffff then Some v else hex_label v s))"

fun dec_label :: "nat \<Rightarrow> string \<Rightarrow> nat option" where
  "dec_label v [] = Some v"
| "dec_label v (c # s) =
     (if \<not> is_digit_char c then None
      else (let v = v * 10 + digit_value c in if v > 0x7fffffff then Some v else dec_label v s))"

definition JsNumberLabel :: "string \<Rightarrow> nat option" where
  "JsNumberLabel s =
     (if s = [] then Some 0
      else if length s > 2 \<and> s ! 0 = CHR ''0'' \<and> (s ! 1 = CHR ''x'' \<or> s ! 1 = CHR ''X'') then hex_label 0 (drop 2 s)
      else dec_label 0 s)"

text \<open>The trailing dotted quad, read from the end: the texts are reversed.\<close>

definition take_dec :: "string \<Rightarrow> string option" where
  "take_dec r = (let n = length (takeWhile is_digit_char (take 3 r)) in if n = 0 then None else Some (drop n r))"

definition take_dot :: "string \<Rightarrow> string option" where
  "take_dot r = (case r of [] \<Rightarrow> None | c # r' \<Rightarrow> if c = CHR ''.'' then Some r' else None)"

definition TrailingDottedQuad :: "string \<Rightarrow> string option" where
  "TrailingDottedQuad s =
     do { r \<leftarrow> take_dec (rev s); r \<leftarrow> take_dot r; r \<leftarrow> take_dec r; r \<leftarrow> take_dot r; r \<leftarrow> take_dec r; r \<leftarrow> take_dot r;
          r \<leftarrow> take_dec r; Some (drop (length r) s) }"

definition canonical_group :: "string \<Rightarrow> bool" where
  "canonical_group g \<longleftrightarrow>
     \<not> (g = [] \<or> length g > 3) \<and> list_all is_digit_char g \<and> \<not> (length g > 1 \<and> hd g = CHR ''0'') \<and>
     fold (\<lambda>c v. v * 10 + digit_value c) g 0 \<le> 255"

fun canonical_loop :: "nat \<Rightarrow> string list \<Rightarrow> bool" where
  "canonical_loop groups [] = (groups = 4)"
| "canonical_loop groups (g # gs) =
     (if \<not> canonical_group g then False
      else if Suc groups > 4 then False else canonical_loop (Suc groups) gs)"

definition IsCanonicalV4 :: "string \<Rightarrow> bool" where
  "IsCanonicalV4 s = canonical_loop 0 (split_all (CHR ''.'') s)"

definition drop_root_dot :: "string \<Rightarrow> string" where
  "drop_root_dot h = (if h \<noteq> [] \<and> last h = CHR ''.'' then butlast h else h)"

definition strip_zone :: "string \<Rightarrow> string" where
  "strip_zone s = before (sv_find (CHR ''%'') s) s"

definition ClassifyHostLiteral :: "inet_lib \<Rightarrow> string \<Rightarrow> bool \<times> string" where
  "ClassifyHostLiteral inet host =
     (let h4 = drop_root_dot host; h6 = strip_zone host;
          legacy = (if h4 = [] then None else (case inet_aton inet (c_str h4) of None \<Rightarrow> None | Some a4 \<Rightarrow> inet_ntop4 inet a4))
      in if IsCanonicalV4 h4 then (True, h4)
         else (case legacy of
                 Some buf \<Rightarrow> (True, buf)
               | None \<Rightarrow> if h6 \<noteq> [] \<and> inet_pton6 inet (c_str h6) \<noteq> None then (True, h6) else (False, host)))"

section \<open>The address rules\<close>

fun v4_labels :: "string list \<Rightarrow> nat list \<Rightarrow> nat list option" where
  "v4_labels [] p = Some p"
| "v4_labels (l # ls) p =
     (if length p \<ge> 4 then None
      else (case JsNumberLabel l of
              None \<Rightarrow> None
            | Some v \<Rightarrow> if v > 255 then None else v4_labels ls (p @ [v])))"

definition v4_blocked :: "nat \<Rightarrow> nat \<Rightarrow> nat \<Rightarrow> bool" where
  "v4_blocked a b c \<longleftrightarrow>
     a = 0 \<or> a = 10 \<or> a = 127 \<or> (a = 169 \<and> b = 254) \<or> (a = 172 \<and> 16 \<le> b \<and> b \<le> 31) \<or> (a = 192 \<and> b = 168) \<or>
     (a = 192 \<and> b = 0 \<and> c = 0) \<or> (a = 100 \<and> 64 \<le> b \<and> b \<le> 127) \<or> (a = 198 \<and> (b = 18 \<or> b = 19)) \<or> a \<ge> 224"

definition IsPrivateV4 :: "string \<Rightarrow> bool" where
  "IsPrivateV4 ip =
     (case v4_labels (split_all (CHR ''.'') ip) [] of
        None \<Rightarrow> True
      | Some p \<Rightarrow> if length p \<noteq> 4 then True else v4_blocked (p ! 0) (p ! 1) (p ! 2))"

definition IsPrivateV6 :: "string \<Rightarrow> bool" where
  "IsPrivateV6 ip =
     (let s = strip_zone (ToLowerAscii ip)
      in if s = ''::1'' \<or> s = ''::'' then True
         else if (case TrailingDottedQuad s of None \<Rightarrow> False | Some q \<Rightarrow> IsPrivateV4 q) then True
         else if starts_with ''::ffff:'' s then True
         else if length s \<ge> 2 \<and> s ! 0 = CHR ''f'' \<and> (s ! 1 = CHR ''c'' \<or> s ! 1 = CHR ''d'') then True
         else if length s \<ge> 3 \<and> s ! 0 = CHR ''f'' \<and> s ! 1 = CHR ''e'' \<and>
                 (s ! 2 = CHR ''8'' \<or> s ! 2 = CHR ''9'' \<or> s ! 2 = CHR ''a'' \<or> s ! 2 = CHR ''b'') then True
         else if starts_with ''ff'' s then True
         else if starts_with ''2001:db8'' s then True
         else False)"

definition IsPrivateIp :: "inet_lib \<Rightarrow> string \<Rightarrow> bool" where
  "IsPrivateIp inet ip =
     (if CHR 0x00 \<in> set ip then True
      else if IsCanonicalV4 ip then IsPrivateV4 ip
      else if inet_pton6 inet (c_str ip) \<noteq> None then IsPrivateV6 ip
      else True)"

definition IsLinkLocalIp :: "inet_lib \<Rightarrow> string \<Rightarrow> bool" where
  "IsLinkLocalIp inet ip =
     (case inet_pton4 inet (c_str ip) of
        Some buf \<Rightarrow> (of_char (buf ! 0) :: nat) = 169 \<and> (of_char (buf ! 1) :: nat) = 254
      | None \<Rightarrow>
          (case inet_pton6 inet (c_str ip) of
             Some buf \<Rightarrow> (of_char (buf ! 0) :: u8) = 0xfe \<and> (of_char (buf ! 1) :: u8) AND 0xc0 = 0x80
           | None \<Rightarrow> False))"

definition IsAllowedScheme :: "string \<Rightarrow> bool" where
  "IsAllowedScheme scheme =
     (let s = ToLowerAscii scheme; s = (if s \<noteq> [] \<and> last s = CHR '':'' then butlast s else s)
      in s = ''http'' \<or> s = ''https'')"

definition IsBlockedHostLiteral :: "string \<Rightarrow> bool" where
  "IsBlockedHostLiteral host =
     (let h = ToLowerAscii host;
          h = (if length h \<ge> 2 \<and> hd h = CHR ''['' \<and> last h = CHR '']'' then sv_substr 1 (length h - 2) h else h);
          h = drop_root_dot h
      in h = ''metadata'' \<or> h = ''metadata.google.internal'')"

section \<open>Parsing a URL\<close>

record UrlAuthority =
  ua_scheme :: string
  ua_host :: string
  ua_host_is_ip_literal :: bool
  ua_port :: int
  ua_had_userinfo :: bool

text \<open>Tabs and line breaks are dropped and a backslash is a slash, as browsers read a special URL.\<close>

definition url_chars :: "string \<Rightarrow> string" where
  "url_chars raw_url =
     map (\<lambda>c. if c = CHR 0x5C then CHR ''/'' else c) (filter (\<lambda>c. c \<notin> {CHR 0x09, CHR 0x0A, CHR 0x0D}) raw_url)"

definition find_first_of :: "string \<Rightarrow> string \<Rightarrow> nat option" where
  "find_first_of chars s =
     (let n = length (takeWhile (\<lambda>c. c \<notin> set chars) s) in if n < length s then Some n else None)"

text \<open>The host and the text of the port of an authority without userinfo.\<close>

definition split_hostport :: "string \<Rightarrow> (string \<times> string option) option" where
  "split_hostport hostport =
     (if hd hostport = CHR ''['' then
        (case sv_find (CHR '']'') hostport of
           None \<Rightarrow> None
         | Some close \<Rightarrow>
             (let host = sv_substr 1 (close - 1) hostport; after = drop (Suc close) hostport
              in if after = [] then Some (host, None)
                 else if hd after \<noteq> CHR '':'' then None else Some (host, Some (tl after))))
      else
        (case sv_find (CHR '':'') hostport of
           None \<Rightarrow> Some (hostport, None)
         | Some colon \<Rightarrow> Some (take colon hostport, Some (drop (Suc colon) hostport))))"

fun port_value :: "nat \<Rightarrow> string \<Rightarrow> nat option" where
  "port_value p [] = Some p"
| "port_value p (c # s) =
     (if \<not> is_digit_char c then None
      else (let p = p * 10 + digit_value c in if p > 65535 then None else port_value p s))"

definition host_char_refused :: "char \<Rightarrow> bool" where
  "host_char_refused c \<longleftrightarrow> (of_char c :: nat) \<le> 0x20 \<or> c = CHR ''%''"

definition check_opt :: "bool \<Rightarrow> unit option" where
  "check_opt b = (if b then Some () else None)"

definition ParseHttpUrl :: "inet_lib \<Rightarrow> string \<Rightarrow> UrlAuthority option" where
  "ParseHttpUrl inet raw_url =
     do { let url = url_chars raw_url;
          sep \<leftarrow> sv_find_str ''://'' url;
          check_opt (sep \<noteq> 0);
          let scheme = ToLowerAscii (take sep url);
          let rest = drop (sep + 3) url;
          let authority = before (find_first_of ''/?#'' rest) rest;
          check_opt (authority \<noteq> []);
          let at_pos = sv_rfind (CHR ''@'') authority;
          let hostport = (case at_pos of None \<Rightarrow> authority | Some i \<Rightarrow> drop (Suc i) authority);
          check_opt (hostport \<noteq> []);
          (host, port_sv) \<leftarrow> split_hostport hostport;
          check_opt (host \<noteq> []);
          let host = ToLowerAscii host;
          port \<leftarrow> (case port_sv of
                    None \<Rightarrow> Some (SchemeDefaultPort scheme)
                  | Some sv \<Rightarrow> if sv = [] then Some (SchemeDefaultPort scheme) else map_option int (port_value 0 sv));
          check_opt (\<not> list_ex host_char_refused host);
          let (is_literal, canonical) = ClassifyHostLiteral inet host;
          Some \<lparr>ua_scheme = scheme, ua_host = (if is_literal then canonical else host), ua_host_is_ip_literal = is_literal,
                ua_port = port, ua_had_userinfo = (at_pos \<noteq> None)\<rparr> }"

section \<open>Deciding\<close>

record ResolveSafeResult =
  rs_host :: string
  rs_safe_addresses :: "string list"

definition ResolveSafe :: "inet_lib \<Rightarrow> string \<Rightarrow> string list \<Rightarrow> ResolveSafeResult option" where
  "ResolveSafe inet raw_url resolved_addresses =
     (case ParseHttpUrl inet raw_url of
        None \<Rightarrow> None
      | Some u \<Rightarrow>
          if \<not> IsAllowedScheme (ua_scheme u) then None
          else if IsBlockedHostLiteral (ua_host u) then None
          else if ua_host_is_ip_literal u then
            (if IsPrivateIp inet (ua_host u) then None
             else Some \<lparr>rs_host = ua_host u, rs_safe_addresses = [ua_host u]\<rparr>)
          else if resolved_addresses = [] then None
          else if list_ex (IsPrivateIp inet) resolved_addresses then None
          else Some \<lparr>rs_host = ua_host u, rs_safe_addresses = resolved_addresses\<rparr>)"

definition IsPublicUrl :: "inet_lib \<Rightarrow> string \<Rightarrow> string list \<Rightarrow> bool" where
  "IsPublicUrl inet raw_url resolved_addresses \<longleftrightarrow> ResolveSafe inet raw_url resolved_addresses \<noteq> None"

section \<open>Dotted quads\<close>

definition digit_char :: "nat \<Rightarrow> char" where
  "digit_char i = char_of (48 + i)"

definition octet_text :: "nat \<Rightarrow> string" where
  "octet_text n =
     (if n < 10 then [digit_char n]
      else if n < 100 then [digit_char (n div 10), digit_char (n mod 10)]
      else [digit_char (n div 100), digit_char (n div 10 mod 10), digit_char (n mod 10)])"

definition dotted :: "nat \<Rightarrow> nat \<Rightarrow> nat \<Rightarrow> nat \<Rightarrow> string" where
  "dotted a b c d = octet_text a @ ''.'' @ octet_text b @ ''.'' @ octet_text c @ ''.'' @ octet_text d"

lemma of_digit_char: "i < 10 \<Longrightarrow> (of_char (digit_char i) :: nat) = 48 + i"
  by (simp add: digit_char_def)

lemma digit_char_facts:
  assumes "i < 10"
  shows "is_digit_char (digit_char i)" "digit_value (digit_char i) = i" "digit_char i \<noteq> CHR ''.''"
    "digit_char i \<noteq> CHR ''x''" "digit_char i \<noteq> CHR ''X''" "digit_char i = CHR ''0'' \<longleftrightarrow> i = 0" "digit_char i \<noteq> CHR 0x00"
proof -
  note v = of_digit_char [OF assms]
  show "is_digit_char (digit_char i)" "digit_value (digit_char i) = i"
    using v assms by (simp_all add: is_digit_char_def less_eq_char_def digit_value_def)
  show "digit_char i \<noteq> CHR ''.''" "digit_char i \<noteq> CHR ''x''" "digit_char i \<noteq> CHR ''X''" "digit_char i \<noteq> CHR 0x00"
    using v assms by auto
  have "digit_char 0 = CHR ''0''" by code_simp
  moreover have "i = 0" if "digit_char i = CHR ''0''" using v that by simp
  ultimately show "digit_char i = CHR ''0'' \<longleftrightarrow> i = 0" by blast
qed

lemma digit_char_ex: "is_digit_char c \<Longrightarrow> \<exists>i < 10. c = digit_char i"
proof -
  assume "is_digit_char c"
  then have "48 \<le> (of_char c :: nat)" "(of_char c :: nat) \<le> 57" by (simp_all add: is_digit_char_def less_eq_char_def)
  then have "of_char c - 48 < (10 :: nat)" "c = digit_char (of_char c - 48)" by (simp_all add: digit_char_def)
  then show ?thesis by blast
qed

lemma dec_digit: "k < 10 \<Longrightarrow> (x * 10 + k) div 10 = x" "k < 10 \<Longrightarrow> (x * 10 + k) mod 10 = k" for x k :: nat
  by simp_all

lemma octet_text_cases:
  assumes "n < 256"
  obtains (one) "n < 10" "octet_text n = [digit_char n]"
    | (two) i j where "n = i * 10 + j" "0 < i" "i < 10" "j < 10" "octet_text n = [digit_char i, digit_char j]"
    | (three) i j k where "n = (i * 10 + j) * 10 + k" "0 < i" "i < 10" "j < 10" "k < 10"
        "octet_text n = [digit_char i, digit_char j, digit_char k]"
proof -
  consider "n < 10" | "10 \<le> n" "n < 100" | "100 \<le> n" by linarith
  then show thesis
  proof cases
    case 1
    then show ?thesis by (intro one) (simp_all add: octet_text_def)
  next
    case 2
    then show ?thesis by (intro two [of "n div 10" "n mod 10"]) (auto simp: octet_text_def)
  next
    case 3
    have "n div 100 * 10 + n div 10 mod 10 = n div 10"
      using div_mult_mod_eq [of "n div 10" 10] by (simp add: div_mult2_eq [symmetric])
    then have "n = (n div 100 * 10 + n div 10 mod 10) * 10 + n mod 10" by (simp only: div_mult_mod_eq)
    then show ?thesis
      using 3 assms by (intro three [of "n div 100" "n div 10 mod 10" "n mod 10"]) (auto simp: octet_text_def)
  qed
qed

lemma octet_text_facts:
  assumes "n < 256"
  shows "canonical_group (octet_text n)" "JsNumberLabel (octet_text n) = Some n" "CHR ''.'' \<notin> set (octet_text n)"
    "CHR 0x00 \<notin> set (octet_text n)"
proof -
  have "canonical_group (octet_text n) \<and> JsNumberLabel (octet_text n) = Some n \<and> CHR ''.'' \<notin> set (octet_text n) \<and>
    CHR 0x00 \<notin> set (octet_text n)"
    using assms
  proof (cases rule: octet_text_cases)
    case one
    note f = digit_char_facts [OF one(1)]
    then show ?thesis using one f(3,7) [symmetric] by (simp add: canonical_group_def JsNumberLabel_def)
  next
    case (two i j)
    note f = digit_char_facts [OF two(3)] digit_char_facts [OF two(4)]
    show ?thesis
      using two assms f f(3,7,10,14) [symmetric] by (simp add: canonical_group_def JsNumberLabel_def Let_def)
  next
    case (three i j k)
    note f = digit_char_facts [OF three(3)] digit_char_facts [OF three(4)] digit_char_facts [OF three(5)]
    show ?thesis
      using three assms f f(3,7,10,14,17,21) [symmetric] by (simp add: canonical_group_def JsNumberLabel_def Let_def)
  qed
  then show "canonical_group (octet_text n)" "JsNumberLabel (octet_text n) = Some n" "CHR ''.'' \<notin> set (octet_text n)"
    "CHR 0x00 \<notin> set (octet_text n)" by blast+
qed

lemma canonical_group_octet: "canonical_group g \<Longrightarrow> \<exists>n < 256. g = octet_text n"
proof -
  assume g: "canonical_group g"
  then have len: "g \<noteq> []" "length g \<le> 3" and dig: "list_all is_digit_char g"
    and nz: "length g > 1 \<Longrightarrow> hd g \<noteq> CHR ''0''" and val: "fold (\<lambda>c v. v * 10 + digit_value c) g 0 \<le> 255"
    by (auto simp: canonical_group_def)
  consider (one) a where "g = [a]" | (two) a b where "g = [a, b]" | (three) a b c where "g = [a, b, c]"
    using len by (cases g; cases "tl g"; cases "tl (tl g)"; cases "tl (tl (tl g))") auto
  then show ?thesis
  proof cases
    case one
    then obtain i where "i < 10" "a = digit_char i" using dig digit_char_ex by auto
    then show ?thesis using one by (intro exI [of _ i]) (simp add: octet_text_def)
  next
    case two
    then obtain i j where ij: "i < 10" "a = digit_char i" "j < 10" "b = digit_char j"
      using dig digit_char_ex by (metis list.pred_inject(2))
    then have "i \<noteq> 0" using nz two digit_char_facts(6) by auto
    then show ?thesis using two ij by (intro exI [of _ "10 * i + j"]) (simp add: octet_text_def)
  next
    case three
    then obtain i j k where ijk: "i < 10" "a = digit_char i" "j < 10" "b = digit_char j" "k < 10" "c = digit_char k"
      using dig digit_char_ex by (metis list.pred_inject(2))
    then have "i \<noteq> 0" using nz three digit_char_facts(6) by auto
    moreover have "(i * 10 + j) * 10 + k \<le> 255" using val three ijk by (simp add: digit_char_facts(2))
    moreover have "((i * 10 + j) * 10 + k) div 10 = i * 10 + j" "((i * 10 + j) * 10 + k) mod 10 = k"
      using ijk(5) dec_digit by blast+
    moreover from this have "((i * 10 + j) * 10 + k) div 100 = i" "((i * 10 + j) * 10 + k) div 10 mod 10 = j"
      using ijk(3) by (simp_all add: div_mult2_eq [of _ 10 10, simplified])
    ultimately show ?thesis using three ijk
      by (intro exI [of _ "(i * 10 + j) * 10 + k"]) (simp add: octet_text_def del: distrib_right_numeral)
  qed
qed

lemma split_all_ne: "split_all d s \<noteq> []"
  by (induction s) (auto split: list.split)

lemma split_all_last: "d \<notin> set s \<Longrightarrow> split_all d s = [s]"
  by (induction s) auto

lemma split_all_append: "d \<notin> set p \<Longrightarrow> split_all d (p @ d # s) = p # split_all d s"
  by (induction p) auto

fun join_pieces :: "char \<Rightarrow> string list \<Rightarrow> string" where
  "join_pieces d [] = []"
| "join_pieces d [p] = p"
| "join_pieces d (p # ps) = p @ d # join_pieces d ps"

lemma join_split: "join_pieces d (split_all d s) = s"
proof (induction s)
  case (Cons c s)
  obtain p ps where "split_all d s = p # ps" using split_all_ne by (cases "split_all d s") auto
  with Cons show ?case by (cases ps) auto
qed simp

lemma split_dotted:
  "a < 256 \<Longrightarrow> b < 256 \<Longrightarrow> c < 256 \<Longrightarrow> d < 256 \<Longrightarrow>
    split_all (CHR ''.'') (dotted a b c d) = [octet_text a, octet_text b, octet_text c, octet_text d]"
  by (simp add: dotted_def octet_text_facts split_all_append split_all_last)

lemma canonical_loop_iff:
  "n \<le> 4 \<Longrightarrow> canonical_loop n gs \<longleftrightarrow> list_all canonical_group gs \<and> n + length gs = 4"
  by (induction n gs rule: canonical_loop.induct) auto

lemma IsCanonicalV4_iff:
  "IsCanonicalV4 s \<longleftrightarrow> (\<exists>a b c d. a < 256 \<and> b < 256 \<and> c < 256 \<and> d < 256 \<and> s = dotted a b c d)"
proof
  assume "IsCanonicalV4 s"
  then have groups: "list_all canonical_group (split_all (CHR ''.'') s)" "length (split_all (CHR ''.'') s) = 4"
    by (simp_all add: IsCanonicalV4_def canonical_loop_iff)
  then obtain g1 g2 g3 g4 where g: "split_all (CHR ''.'') s = [g1, g2, g3, g4]"
    by (auto simp: length_Suc_conv numeral_eq_Suc)
  with groups(1) obtain a b c d where "a < 256" "b < 256" "c < 256" "d < 256"
    "g1 = octet_text a" "g2 = octet_text b" "g3 = octet_text c" "g4 = octet_text d"
    using canonical_group_octet by (metis list.pred_inject(2))
  moreover have "s = g1 @ ''.'' @ g2 @ ''.'' @ g3 @ ''.'' @ g4"
    using join_split [of "CHR ''.''" s] g by simp
  ultimately show "\<exists>a b c d. a < 256 \<and> b < 256 \<and> c < 256 \<and> d < 256 \<and> s = dotted a b c d"
    by (auto simp: dotted_def)
qed (auto simp: IsCanonicalV4_def split_dotted octet_text_facts)

lemma IsPrivateV4_dotted:
  "a < 256 \<Longrightarrow> b < 256 \<Longrightarrow> c < 256 \<Longrightarrow> d < 256 \<Longrightarrow> IsPrivateV4 (dotted a b c d) \<longleftrightarrow> v4_blocked a b c"
  by (simp add: IsPrivateV4_def split_dotted octet_text_facts)

section \<open>Address blocks\<close>

text \<open>The blocked IPv4 networks, as address and prefix length.\<close>

definition blocked_networks :: "((nat \<times> nat \<times> nat \<times> nat) \<times> nat) list" where
  "blocked_networks =
    [((0, 0, 0, 0), 8), ((10, 0, 0, 0), 8), ((127, 0, 0, 0), 8), ((169, 254, 0, 0), 16), ((172, 16, 0, 0), 12),
     ((192, 168, 0, 0), 16), ((192, 0, 0, 0), 24), ((100, 64, 0, 0), 10), ((198, 18, 0, 0), 15), ((224, 0, 0, 0), 3)]"

definition quad :: "nat \<times> nat \<times> nat \<times> nat \<Rightarrow> nat" where
  "quad q = (case q of (a, b, c, d) \<Rightarrow> ((a * 256 + b) * 256 + c) * 256 + d)"

definition in_network :: "nat \<Rightarrow> (nat \<times> nat \<times> nat \<times> nat) \<times> nat \<Rightarrow> bool" where
  "in_network x nw \<longleftrightarrow> x div 2 ^ (32 - snd nw) = quad (fst nw) div 2 ^ (32 - snd nw)"

definition octets :: "u32 \<Rightarrow> nat \<times> nat \<times> nat \<times> nat" where
  "octets w = (unat w div 2 ^ 24, unat w div 2 ^ 16 mod 256, unat w div 2 ^ 8 mod 256, unat w mod 256)"

definition v4_text :: "u32 \<Rightarrow> string" where
  "v4_text w = (case octets w of (a, b, c, d) \<Rightarrow> dotted a b c d)"

lemma octets_less: "octets w = (a, b, c, d) \<Longrightarrow> a < 256 \<and> b < 256 \<and> c < 256 \<and> d < 256"
  using unsigned_less [of w, where 'a = nat] by (auto simp: octets_def less_mult_imp_div_less)

lemma quad_octets: "quad (octets w) = unat w"
proof -
  have "x div 2 ^ 24 * 256 + x div 2 ^ 16 mod 256 = x div 2 ^ 16" "x div 2 ^ 16 * 256 + x div 2 ^ 8 mod 256 = x div 2 ^ 8"
    "x div 2 ^ 8 * 256 + x mod 256 = x" for x :: nat
    using div_mult_mod_eq [of "x div 2 ^ 16" 256] div_mult_mod_eq [of "x div 2 ^ 8" 256] div_mult_mod_eq [of x 256]
    by (simp_all add: div_mult2_eq [symmetric])
  then show ?thesis by (simp only: quad_def octets_def prod.case)
qed

lemma byte_step: "d < 256 \<Longrightarrow> (x * 256 + d) div 256 = x" "d < 256 \<Longrightarrow> (x * 256 + d) mod 256 = d" for x d :: nat
  by simp_all

lemma quad_div:
  assumes "a < 256" "b < 256" "c < 256" "d < 256"
  shows "quad (a, b, c, d) mod 256 = d" "quad (a, b, c, d) div 2 ^ 8 = (a * 256 + b) * 256 + c"
    "quad (a, b, c, d) div 2 ^ 16 = a * 256 + b" "quad (a, b, c, d) div 2 ^ 24 = a"
    "quad (a, b, c, d) div 2 ^ (16 + k) = (a * 256 + b) div 2 ^ k"
proof -
  show "quad (a, b, c, d) mod 256 = d" unfolding quad_def prod.case by (rule byte_step(2) [OF assms(4)])
  show 8: "quad (a, b, c, d) div 2 ^ 8 = (a * 256 + b) * 256 + c"
    unfolding quad_def prod.case using byte_step(1) [OF assms(4)] by simp
  have "quad (a, b, c, d) div 2 ^ 16 = quad (a, b, c, d) div 2 ^ 8 div 256" by (simp add: div_mult2_eq [symmetric])
  then show 16: "quad (a, b, c, d) div 2 ^ 16 = a * 256 + b" unfolding 8 using byte_step(1) [OF assms(3)] by simp
  have "quad (a, b, c, d) div 2 ^ 24 = quad (a, b, c, d) div 2 ^ 16 div 256" by (simp add: div_mult2_eq [symmetric])
  then show "quad (a, b, c, d) div 2 ^ 24 = a" unfolding 16 using byte_step(1) [OF assms(2)] by simp
  show "quad (a, b, c, d) div 2 ^ (16 + k) = (a * 256 + b) div 2 ^ k"
    unfolding 16 [symmetric] power_add by (rule div_mult2_eq)
qed

lemma octets_quad:
  assumes "a < 256" "b < 256" "c < 256" "d < 256"
  shows "octets (of_nat (quad (a, b, c, d))) = (a, b, c, d)"
proof -
  have "quad (a, b, c, d) < 2 ^ 32" using assms by (simp add: quad_def)
  then have "unat (of_nat (quad (a, b, c, d)) :: u32) = quad (a, b, c, d)" by (simp add: unat_of_nat)
  then show ?thesis
    unfolding octets_def by (simp only: quad_div [OF assms] byte_step [OF assms(2)] byte_step [OF assms(3)])
qed

lemma digits_eq: "b < n \<Longrightarrow> a * n + b = k \<longleftrightarrow> a = k div n \<and> b = k mod n" for a b n k :: nat
  by (metis div_mult_mod_eq div_mult_self3 div_less add.right_neutral mod_less mod_mult_self3 gr_implies_not0)

lemma in_network_at: "x div 2 ^ k = y \<Longrightarrow> quad nw div 2 ^ k = z \<Longrightarrow> 32 - len = k \<Longrightarrow> in_network x (nw, len) \<longleftrightarrow> y = z"
  by (simp add: in_network_def)

lemma in_blocked_network:
  assumes "a < 256" "b < 256" "c < 256" "d < 256"
  shows "list_ex (in_network (quad (a, b, c, d))) blocked_networks \<longleftrightarrow> v4_blocked a b c"
proof -
  note q = quad_div [OF assms]
  have "(a * 256 + b) div 2 = a * 128 + b div 2" "(a * 256 + b) div 16 = a * 16 + b div 16" "(a * 256 + b) div 64 = a * 4 + b div 64"
    by presburger+
  then have q17: "quad (a, b, c, d) div 2 ^ 17 = a * 128 + b div 2" and q20: "quad (a, b, c, d) div 2 ^ 20 = a * 16 + b div 16"
    and q22: "quad (a, b, c, d) div 2 ^ 22 = a * 4 + b div 64"
    using q(5) [of 1] q(5) [of 4] q(5) [of 6] by simp_all
  have "quad (a, b, c, d) div 2 ^ 29 = quad (a, b, c, d) div 2 ^ 24 div 32" by (simp add: div_mult2_eq [symmetric])
  then have q29: "quad (a, b, c, d) div 2 ^ 29 = a div 32" by (simp only: q(4))
  have "a * 256 + b = 43518 \<longleftrightarrow> a = 169 \<and> b = 254" "a * 256 + b = 49320 \<longleftrightarrow> a = 192 \<and> b = 168"
    "(a * 256 + b) * 256 + c = 12582912 \<longleftrightarrow> a = 192 \<and> b = 0 \<and> c = 0"
    "a * 16 + b div 16 = 2753 \<longleftrightarrow> a = 172 \<and> 16 \<le> b \<and> b \<le> 31" "a * 4 + b div 64 = 401 \<longleftrightarrow> a = 100 \<and> 64 \<le> b \<and> b \<le> 127"
    "a * 128 + b div 2 = 25353 \<longleftrightarrow> a = 198 \<and> (b = 18 \<or> b = 19)" "a div 32 = 7 \<longleftrightarrow> a \<ge> 224"
  proof -
    have "b div 16 < 16" "b div 64 < 4" "b div 2 < 128" using assms(2) by simp_all
    note e = digits_eq [OF assms(2)] digits_eq [OF assms(3)] digits_eq [OF this(1)] digits_eq [OF this(2)] digits_eq [OF this(3)]
    show "a * 256 + b = 43518 \<longleftrightarrow> a = 169 \<and> b = 254" "a * 256 + b = 49320 \<longleftrightarrow> a = 192 \<and> b = 168"
      by (simp_all add: e(1))
    show "(a * 256 + b) * 256 + c = 12582912 \<longleftrightarrow> a = 192 \<and> b = 0 \<and> c = 0"
      unfolding e(2) by (simp add: e(1))
    show "a * 16 + b div 16 = 2753 \<longleftrightarrow> a = 172 \<and> 16 \<le> b \<and> b \<le> 31" unfolding e(3) by auto
    show "a * 4 + b div 64 = 401 \<longleftrightarrow> a = 100 \<and> 64 \<le> b \<and> b \<le> 127" unfolding e(4) by auto
    show "a * 128 + b div 2 = 25353 \<longleftrightarrow> a = 198 \<and> (b = 18 \<or> b = 19)" unfolding e(5) by auto
    show "a div 32 = 7 \<longleftrightarrow> a \<ge> 224" using assms(1) by auto
  qed
  note eqs = this
  let ?in = "in_network (quad (a, b, c, d))"
  have i1: "?in ((0, 0, 0, 0), 8) \<longleftrightarrow> a = 0" "?in ((10, 0, 0, 0), 8) \<longleftrightarrow> a = 10" "?in ((127, 0, 0, 0), 8) \<longleftrightarrow> a = 127"
    by (rule in_network_at [OF q(4)]; simp add: quad_def)+
  have i2: "?in ((169, 254, 0, 0), 16) \<longleftrightarrow> a * 256 + b = 43518" "?in ((192, 168, 0, 0), 16) \<longleftrightarrow> a * 256 + b = 49320"
    by (rule in_network_at [OF q(3)]; simp add: quad_def)+
  have i3: "?in ((172, 16, 0, 0), 12) \<longleftrightarrow> a * 16 + b div 16 = 2753" by (rule in_network_at [OF q20]; simp add: quad_def)
  have i4: "?in ((192, 0, 0, 0), 24) \<longleftrightarrow> (a * 256 + b) * 256 + c = 12582912" by (rule in_network_at [OF q(2)]; simp add: quad_def)
  have i5: "?in ((100, 64, 0, 0), 10) \<longleftrightarrow> a * 4 + b div 64 = 401" by (rule in_network_at [OF q22]; simp add: quad_def)
  have i6: "?in ((198, 18, 0, 0), 15) \<longleftrightarrow> a * 128 + b div 2 = 25353" by (rule in_network_at [OF q17]; simp add: quad_def)
  have i7: "?in ((224, 0, 0, 0), 3) \<longleftrightarrow> a div 32 = 7" by (rule in_network_at [OF q29]; simp add: quad_def)
  show ?thesis
    unfolding blocked_networks_def list_ex_iff set_simps bex_simps v4_blocked_def i1 i2 i3 i4 i5 i6 i7 eqs
    by (simp only: disj_assoc simp_thms)
qed

lemma v4_text_canonical: "IsCanonicalV4 (v4_text w)"
proof -
  obtain a b c d where o: "octets w = (a, b, c, d)" by (cases "octets w")
  then show ?thesis using octets_less [OF o] unfolding IsCanonicalV4_iff v4_text_def by auto
qed

lemma canonical_v4_text: "IsCanonicalV4 s \<Longrightarrow> \<exists>w. s = v4_text w"
  unfolding IsCanonicalV4_iff v4_text_def by (metis octets_quad case_prod_conv)

lemma v4_text_no_nul: "CHR 0x00 \<notin> set (v4_text w)"
proof -
  obtain a b c d where o: "octets w = (a, b, c, d)" by (cases "octets w")
  then show ?thesis using octets_less [OF o] by (simp add: v4_text_def dotted_def octet_text_facts)
qed

lemma IsPrivateIp_v4: "IsPrivateIp inet (v4_text w) \<longleftrightarrow> list_ex (in_network (unat w)) blocked_networks"
proof -
  obtain a b c d where o: "octets w = (a, b, c, d)" by (cases "octets w")
  note less = octets_less [OF o]
  have "IsPrivateIp inet (v4_text w) \<longleftrightarrow> v4_blocked a b c"
    using less v4_text_no_nul [of w] v4_text_canonical [of w]
    by (simp add: IsPrivateIp_def v4_text_def o IsPrivateV4_dotted)
  also have "\<dots> \<longleftrightarrow> list_ex (in_network (quad (octets w))) blocked_networks"
    using less by (simp only: o in_blocked_network)
  finally show ?thesis by (simp only: quad_octets)
qed

section \<open>Properties\<close>

text \<open>
  C36: the IPv4 rules are the listed networks: the text of a 32-bit address is refused exactly when the address
  lies in one of 0/8, 10/8, 127/8, 169.254/16, 172.16/12, 192.168/16, 192.0.0/24, 100.64/10, 198.18/15 and 224/3,
  whatever the address functions of the system do.
\<close>

theorem IsPrivateIp_v4_networks:
  "IsPrivateIp inet (v4_text w) \<longleftrightarrow>
    (\<exists>((a, b, c, d), len) \<in> set [((0, 0, 0, 0), 8), ((10, 0, 0, 0), 8), ((127, 0, 0, 0), 8), ((169, 254, 0, 0), 16),
        ((172, 16, 0, 0), 12), ((192, 168, 0, 0), 16), ((192, 0, 0, 0), 24), ((100, 64, 0, 0), 10), ((198, 18, 0, 0), 15),
        ((224, 0, 0, 0), 3)].
      unat w div 2 ^ (32 - len) = (((a * 256 + b) * 256 + c) * 256 + d) div 2 ^ (32 - len))"
proof -
  have split: "in_network (unat w) = (\<lambda>((a, b, c, d), len).
      unat w div 2 ^ (32 - len) = (((a * 256 + b) * 256 + c) * 256 + d) div 2 ^ (32 - len))"
    by (simp add: fun_eq_iff in_network_def quad_def)
  show ?thesis unfolding IsPrivateIp_v4 blocked_networks_def split list_ex_iff ..
qed

text \<open>
  C5: what the guard lets through: a result has at least one address, and each of its addresses is the
  canonical text of an IPv4 address outside the blocked networks, or a text without NUL that the system parses
  as IPv6 and that no textual IPv6 rule refuses; for a host name they are exactly the resolved addresses.
\<close>

theorem ResolveSafe_addresses:
  assumes "ResolveSafe inet url resolved = Some r"
  shows "rs_safe_addresses r \<noteq> [] \<and>
    (\<forall>ip \<in> set (rs_safe_addresses r).
       (\<exists>w. ip = v4_text w \<and> \<not> list_ex (in_network (unat w)) blocked_networks) \<or>
       (CHR 0x00 \<notin> set ip \<and> inet_pton6 inet ip \<noteq> None \<and> \<not> IsPrivateV6 ip)) \<and>
    (rs_safe_addresses r = resolved \<or> rs_safe_addresses r = [rs_host r])"
proof -
  have safe: "(\<exists>w. ip = v4_text w \<and> \<not> list_ex (in_network (unat w)) blocked_networks) \<or>
      (CHR 0x00 \<notin> set ip \<and> inet_pton6 inet ip \<noteq> None \<and> \<not> IsPrivateV6 ip)" if "\<not> IsPrivateIp inet ip" for ip
  proof (cases "IsCanonicalV4 ip")
    case True
    then obtain w where "ip = v4_text w" using canonical_v4_text by blast
    then show ?thesis using that IsPrivateIp_v4 by blast
  next
    case False
    have nul: "CHR 0x00 \<notin> set ip" using that by (auto simp: IsPrivateIp_def)
    then have "c_str ip = ip" by (auto simp: c_str_def takeWhile_eq_all_conv)
    then show ?thesis using that False nul by (auto simp: IsPrivateIp_def split: if_splits)
  qed
  from assms obtain u where u: "ParseHttpUrl inet url = Some u"
    and r: "(ua_host_is_ip_literal u \<and> \<not> IsPrivateIp inet (ua_host u) \<and> r = \<lparr>rs_host = ua_host u, rs_safe_addresses = [ua_host u]\<rparr>) \<or>
      (resolved \<noteq> [] \<and> \<not> list_ex (IsPrivateIp inet) resolved \<and> r = \<lparr>rs_host = ua_host u, rs_safe_addresses = resolved\<rparr>)"
    by (auto simp: ResolveSafe_def split: option.splits if_splits)
  from r have "rs_safe_addresses r \<noteq> []" "\<forall>ip \<in> set (rs_safe_addresses r). \<not> IsPrivateIp inet ip"
    "rs_safe_addresses r = resolved \<or> rs_safe_addresses r = [rs_host r]"
    by (auto simp: list_ex_iff)
  with safe show ?thesis by blast
qed

text \<open>The system functions as they answer on the two literals used below.\<close>

definition sample_inet :: inet_lib where
  "sample_inet = \<lparr>inet_aton = (\<lambda>s. None), inet_pton4 = (\<lambda>s. None),
     inet_pton6 = (\<lambda>s. if s = ''0::1'' \<or> s = ''::1'' then Some (replicate 15 (CHR 0x00) @ [CHR 0x01]) else None),
     inet_ntop4 = (\<lambda>b. None), inet_ntop6 = (\<lambda>b. Some ''::1'')\<rparr>"

theorem ResolveSafe_addresses_witness:
  "\<exists>r. ResolveSafe sample_inet ''http://1.2.3.4/'' [] = Some r \<and> rs_safe_addresses r \<noteq> [] \<and> rs_host r = ''1.2.3.4''"
proof -
  have "ResolveSafe sample_inet ''http://1.2.3.4/'' [] = Some \<lparr>rs_host = ''1.2.3.4'', rs_safe_addresses = [''1.2.3.4'']\<rparr>"
  proof -
    have parse: "ParseHttpUrl sample_inet ''http://1.2.3.4/'' =
        Some \<lparr>ua_scheme = ''http'', ua_host = ''1.2.3.4'', ua_host_is_ip_literal = True, ua_port = 80, ua_had_userinfo = False\<rparr>"
      by code_simp
    have "IsAllowedScheme ''http''" "\<not> IsBlockedHostLiteral ''1.2.3.4''" by code_simp+
    moreover have "\<not> IsPrivateIp sample_inet ''1.2.3.4''"
    proof -
      have quad_text: "''1.2.3.4'' = dotted 1 2 3 4" by code_simp
      have "IsCanonicalV4 ''1.2.3.4''" by code_simp
      moreover have "\<not> IsPrivateV4 ''1.2.3.4''" unfolding quad_text by (simp add: IsPrivateV4_dotted v4_blocked_def)
      ultimately show ?thesis by (simp add: IsPrivateIp_def)
    qed
    ultimately show ?thesis by (simp add: ResolveSafe_def parse)
  qed
  from ResolveSafe_addresses [OF this] this show ?thesis by simp
qed

lemma ParseHttpUrl_loopback:
  assumes "inet_aton inet h = None" "inet_pton6 inet h = Some bytes" "h = ''0::1'' \<or> h = ''::1''"
  shows "ParseHttpUrl inet (''http://['' @ h @ '']/'') =
    Some \<lparr>ua_scheme = ''http'', ua_host = h, ua_host_is_ip_literal = True, ua_port = 80, ua_had_userinfo = False\<rparr>"
proof -
  let ?url = "''http://['' @ h @ '']/''"
  have "url_chars ?url = ?url \<and> sv_find_str ''://'' ?url = Some 4 \<and> find_first_of ''/?#'' (drop 7 ?url) = Some (length h + 2) \<and>
    sv_rfind (CHR ''@'') (''['' @ h @ '']'') = None \<and> split_hostport (''['' @ h @ '']'') = Some (h, None) \<and> ToLowerAscii h = h \<and>
    \<not> list_ex host_char_refused h \<and> drop_root_dot h = h \<and> strip_zone h = h \<and> c_str h = h \<and> \<not> IsCanonicalV4 h \<and> h \<noteq> []"
    using assms(3) by (elim disjE; simp only:; code_simp)
  moreover have "ToLowerAscii ''http'' = ''http''" "SchemeDefaultPort ''http'' = 80" by code_simp+
  ultimately show ?thesis
    using assms(1,2) by (simp add: ParseHttpUrl_def ClassifyHostLiteral_def check_opt_def before_def Let_def)
qed

text \<open>
  C37: the IPv6 rules read the text and not the address: when the system parses 0::1, the loopback address, as
  IPv6 and not as IPv4, a URL with that literal as its host is let through, while ::1 is refused.
\<close>

theorem ResolveSafe_admits_respelled_loopback:
  assumes "inet_aton inet ''0::1'' = None" "inet_aton inet ''::1'' = None"
    and "inet_pton6 inet ''0::1'' = Some loopback" "inet_pton6 inet ''::1'' = Some loopback"
  shows "ResolveSafe inet ''http://[0::1]/'' [] = Some \<lparr>rs_host = ''0::1'', rs_safe_addresses = [''0::1'']\<rparr> \<and>
    ResolveSafe inet ''http://[::1]/'' [] = None"
proof -
  have parse: "ParseHttpUrl inet ''http://[0::1]/'' =
      Some \<lparr>ua_scheme = ''http'', ua_host = ''0::1'', ua_host_is_ip_literal = True, ua_port = 80, ua_had_userinfo = False\<rparr>"
    "ParseHttpUrl inet ''http://[::1]/'' =
      Some \<lparr>ua_scheme = ''http'', ua_host = ''::1'', ua_host_is_ip_literal = True, ua_port = 80, ua_had_userinfo = False\<rparr>"
    using ParseHttpUrl_loopback [OF assms(1,3)] ParseHttpUrl_loopback [OF assms(2,4)] by simp_all
  have facts: "IsAllowedScheme ''http''" "\<not> IsBlockedHostLiteral ''0::1''" "\<not> IsPrivateV6 ''0::1''" "IsPrivateV6 ''::1''"
    "c_str ''0::1'' = ''0::1''" "c_str ''::1'' = ''::1''" "\<not> IsCanonicalV4 ''0::1''" "\<not> IsCanonicalV4 ''::1''"
    by code_simp+
  then show ?thesis using assms(3,4) by (simp add: ResolveSafe_def parse IsPrivateIp_def)
qed

theorem ResolveSafe_admits_respelled_loopback_witness:
  "ResolveSafe sample_inet ''http://[0::1]/'' [] = Some \<lparr>rs_host = ''0::1'', rs_safe_addresses = [''0::1'']\<rparr>"
  using ResolveSafe_admits_respelled_loopback [of sample_inet "replicate 15 (CHR 0x00) @ [CHR 0x01]"] by (simp add: sample_inet_def)

end
