(* ===== verification/Fetch_Policy.thy ===== *)
theory Fetch_Policy
  imports Ssrf_Guard
begin

text \<open>
  What a rendered page may fetch: \<open>lib/net/upstream_pin.cc\<close> decides whether a URL names a configured upstream and
  \<open>lib/net/fetch_policy.cc\<close> turns a request of the browser into an action.  Constructors that would clash carry a
  suffix.  \<open>std::tolower\<close> is the fold of the letters A to Z, as in the C locale that a process starts with.
\<close>

section \<open>Pinned upstreams\<close>

record PinnedUpstream =
  pu_scheme :: string
  pu_canon_host :: string
  pu_port :: int
  pu_is_ip_literal :: bool

definition CanonHost :: "inet_lib \<Rightarrow> string \<Rightarrow> bool \<Rightarrow> string" where
  "CanonHost inet host is_ip_literal =
     (let h = drop_root_dot host; h6 = strip_zone h;
          v4 = (case inet_pton4 inet (c_str h) of None \<Rightarrow> None | Some buf \<Rightarrow> inet_ntop4 inet buf);
          v6 = (if h6 = [] then None else (case inet_pton6 inet (c_str h6) of None \<Rightarrow> None | Some buf \<Rightarrow> inet_ntop6 inet buf))
      in if h = [] then h
         else if is_ip_literal then
           (case v4 of Some out \<Rightarrow> out | None \<Rightarrow> (case v6 of Some out \<Rightarrow> out | None \<Rightarrow> h))
         else h)"

definition Canonicalize :: "inet_lib \<Rightarrow> UrlAuthority \<Rightarrow> PinnedUpstream option" where
  "Canonicalize inet a =
     (if ua_had_userinfo a then None
      else if ua_scheme a \<noteq> ''http'' \<and> ua_scheme a \<noteq> ''https'' then None
      else if ua_port a \<le> 0 then None
      else (let canon_host = CanonHost inet (ua_host a) (ua_host_is_ip_literal a)
            in if canon_host = [] then None
               else Some \<lparr>pu_scheme = ua_scheme a, pu_canon_host = canon_host, pu_port = ua_port a,
                          pu_is_ip_literal = ua_host_is_ip_literal a\<rparr>))"

definition ParseUpstream :: "inet_lib \<Rightarrow> string \<Rightarrow> PinnedUpstream option" where
  "ParseUpstream inet config_url =
     (case ParseHttpUrl inet config_url of None \<Rightarrow> None | Some a \<Rightarrow> Canonicalize inet a)"

definition IsPinnedUpstream :: "inet_lib \<Rightarrow> string \<Rightarrow> PinnedUpstream list \<Rightarrow> bool" where
  "IsPinnedUpstream inet subresource_url pinned =
     (case ParseHttpUrl inet subresource_url of
        None \<Rightarrow> False
      | Some a \<Rightarrow>
          (case Canonicalize inet a of
             None \<Rightarrow> False
           | Some c \<Rightarrow>
               list_ex (\<lambda>p. pu_scheme p = pu_scheme c \<and> pu_port p = pu_port c \<and>
                            pu_is_ip_literal p = pu_is_ip_literal c \<and> pu_canon_host p = pu_canon_host c) pinned))"

section \<open>The fetch decision\<close>

datatype ResourceClass =
    kDocument | kScript | kStylesheet | kFont | kXhr | kFetch | kImage_resource | kMedia | kWebSocket
  | kEventSource | kPing | kCspReport | kOther_resource

datatype FetchAction = kProxyUpstream | kFetchAllowlisted | kDenyKeepElement | kDenyBlockedByClient

record FetchPolicy =
  fp_pinned_upstreams :: "PinnedUpstream list"
  fp_allow_hosts :: "string list"

definition LowerNoTrailingDot :: "string \<Rightarrow> string" where
  "LowerNoTrailingDot s = drop_root_dot (AsciiToLower s)"

definition ClassifyResource :: "string \<Rightarrow> ResourceClass" where
  "ClassifyResource t =
     (if t = ''Document'' then kDocument
      else if t = ''Script'' then kScript
      else if t = ''Stylesheet'' then kStylesheet
      else if t = ''Image'' then kImage_resource
      else if t = ''Media'' then kMedia
      else if t = ''Font'' then kFont
      else if t = ''XHR'' then kXhr
      else if t = ''Fetch'' then kFetch
      else if t = ''Prefetch'' then kFetch
      else if t = ''WebSocket'' then kWebSocket
      else if t = ''EventSource'' then kEventSource
      else if t = ''Ping'' then kPing
      else if t = ''CSPViolationReport'' then kCspReport
      else kOther_resource)"

definition IsFetchableClass :: "ResourceClass \<Rightarrow> bool" where
  "IsFetchableClass rc =
     (case rc of kDocument \<Rightarrow> True | kScript \<Rightarrow> True | kStylesheet \<Rightarrow> True | kFont \<Rightarrow> True | kXhr \<Rightarrow> True
      | kFetch \<Rightarrow> True | _ \<Rightarrow> False)"

definition DecideFetch :: "inet_lib \<Rightarrow> string \<Rightarrow> ResourceClass \<Rightarrow> FetchPolicy \<Rightarrow> FetchAction" where
  "DecideFetch inet url rc policy =
     (case ParseHttpUrl inet url of
        None \<Rightarrow> kDenyBlockedByClient
      | Some u \<Rightarrow>
          if \<not> IsAllowedScheme (ua_scheme u) then kDenyBlockedByClient
          else if rc = kImage_resource \<or> rc = kMedia then kDenyKeepElement
          else if \<not> IsFetchableClass rc then kDenyBlockedByClient
          else if IsPinnedUpstream inet url (fp_pinned_upstreams policy) then kProxyUpstream
          else if \<not> ua_had_userinfo u \<and>
                  list_ex (\<lambda>allowed. LowerNoTrailingDot allowed = LowerNoTrailingDot (ua_host u)) (fp_allow_hosts policy)
          then kFetchAllowlisted
          else kDenyBlockedByClient)"

section \<open>Properties\<close>

lemma Canonicalize_iff:
  "Canonicalize inet a = Some p \<longleftrightarrow>
    \<not> ua_had_userinfo a \<and> ua_scheme a \<in> {''http'', ''https''} \<and> 0 < ua_port a \<and>
    CanonHost inet (ua_host a) (ua_host_is_ip_literal a) \<noteq> [] \<and>
    p = \<lparr>pu_scheme = ua_scheme a, pu_canon_host = CanonHost inet (ua_host a) (ua_host_is_ip_literal a),
         pu_port = ua_port a, pu_is_ip_literal = ua_host_is_ip_literal a\<rparr>"
  by (auto simp: Canonicalize_def Let_def)

lemma IsPinnedUpstream_ParseUpstream:
  "IsPinnedUpstream inet url pinned \<longleftrightarrow> (\<exists>p \<in> set pinned. ParseUpstream inet url = Some p)"
proof -
  have eq: "pu_scheme p = pu_scheme c \<and> pu_port p = pu_port c \<and> pu_is_ip_literal p = pu_is_ip_literal c \<and>
      pu_canon_host p = pu_canon_host c \<longleftrightarrow> c = p" for p c :: PinnedUpstream
    by (cases p; cases c) auto
  show ?thesis
    unfolding IsPinnedUpstream_def ParseUpstream_def eq
    by (auto simp: list_ex_iff split: option.splits)
qed

text \<open>
  a URL is pinned exactly when it canonicalises to a configured upstream: it parses, carries no userinfo,
  and its scheme, canonical host, port and literal flag are together those of one entry.
\<close>

theorem IsPinnedUpstream_iff:
  "IsPinnedUpstream inet url pinned \<longleftrightarrow>
    (\<exists>a. ParseHttpUrl inet url = Some a \<and> \<not> ua_had_userinfo a \<and> ua_scheme a \<in> {''http'', ''https''} \<and> 0 < ua_port a \<and>
      CanonHost inet (ua_host a) (ua_host_is_ip_literal a) \<noteq> [] \<and>
      \<lparr>pu_scheme = ua_scheme a, pu_canon_host = CanonHost inet (ua_host a) (ua_host_is_ip_literal a),
       pu_port = ua_port a, pu_is_ip_literal = ua_host_is_ip_literal a\<rparr> \<in> set pinned)"
  unfolding IsPinnedUpstream_ParseUpstream ParseUpstream_def
  by (auto simp: Canonicalize_iff split: option.split)

lemma ParseHttpUrl_scheme: "ParseHttpUrl inet url = Some u \<Longrightarrow> AsciiToLower (ua_scheme u) = ua_scheme u"
  by (auto simp: ParseHttpUrl_def ToLowerAscii_def AsciiToLower_idem Let_def split_beta bind_eq_Some_conv)

lemma IsAllowedScheme_lower:
  assumes "AsciiToLower s = s"
  shows "IsAllowedScheme s \<longleftrightarrow> s \<in> {''http'', ''https'', ''http:'', ''https:''}"
proof -
  have allowed: "IsAllowedScheme s \<longleftrightarrow> (let t = if s \<noteq> [] \<and> last s = CHR '':'' then butlast s else s in t = ''http'' \<or> t = ''https'')"
    by (simp only: IsAllowedScheme_def ToLowerAscii_def assms Let_def)
  show ?thesis
  proof (cases "s \<noteq> [] \<and> last s = CHR '':''")
    case True
    then obtain t where t: "s = t @ '':''" by (metis append_butlast_last_id)
    have "t @ '':'' = ''http:'' \<longleftrightarrow> t = ''http''" "t @ '':'' = ''https:'' \<longleftrightarrow> t = ''https''"
      using append_same_eq [of t "'':''" "''http''"] append_same_eq [of t "'':''" "''https''"] by simp_all
    moreover have "t @ '':'' \<noteq> ''http''" "t @ '':'' \<noteq> ''https''"
      by (auto dest: arg_cong [where f = last])
    ultimately show ?thesis using allowed by (simp add: t Let_def)
  next
    case False
    then have "s \<noteq> ''http:''" "s \<noteq> ''https:''" by auto
    with False show ?thesis unfolding allowed by auto
  qed
qed

text \<open>
  C7: a request leaves the renderer only for a document, script, stylesheet, font or data request to an http or
  https URL that is pinned or, without userinfo, names an allowed host up to case and a trailing dot; images
  and media keep their element and every other request is blocked.
\<close>

theorem DecideFetch_exact:
  "DecideFetch inet url rc policy =
    (if \<not> (\<exists>u. ParseHttpUrl inet url = Some u \<and> ua_scheme u \<in> {''http'', ''https'', ''http:'', ''https:''}) then kDenyBlockedByClient
     else if rc \<in> {kImage_resource, kMedia} then kDenyKeepElement
     else if rc \<in> {kDocument, kScript, kStylesheet, kFont, kXhr, kFetch} \<and>
             (\<exists>p \<in> set (fp_pinned_upstreams policy). ParseUpstream inet url = Some p) then kProxyUpstream
     else if rc \<in> {kDocument, kScript, kStylesheet, kFont, kXhr, kFetch} \<and>
             (\<exists>u. ParseHttpUrl inet url = Some u \<and> \<not> ua_had_userinfo u \<and>
                (\<exists>h \<in> set (fp_allow_hosts policy). LowerNoTrailingDot h = LowerNoTrailingDot (ua_host u))) then kFetchAllowlisted
     else kDenyBlockedByClient)"
proof (cases "ParseHttpUrl inet url")
  case None
  then show ?thesis by (simp add: DecideFetch_def)
next
  case (Some u)
  have cls: "IsFetchableClass rc \<longleftrightarrow> rc \<in> {kDocument, kScript, kStylesheet, kFont, kXhr, kFetch}"
    by (cases rc) (simp_all add: IsFetchableClass_def)
  have scheme: "IsAllowedScheme (ua_scheme u) \<longleftrightarrow> ua_scheme u \<in> {''http'', ''https'', ''http:'', ''https:''}"
    by (rule IsAllowedScheme_lower [OF ParseHttpUrl_scheme [OF Some]])
  show ?thesis
    unfolding DecideFetch_def Some option.case scheme cls IsPinnedUpstream_ParseUpstream list_ex_iff option.inject ex_simps
    by simp
qed

end
