(* ===== verification/Url_Util.thy ===== *)
theory Url_Util
  imports Capability_Mask Ssrf_Guard
begin

text \<open>
  Resolution of relative references: \<open>lib/base/url_util.cc\<close>.  \<open>ResolvePath\<close> edits one string in four passes: it
  collapses \<open>x/../\<close> above a root position, strips \<open>/../\<close> and a final \<open>/..\<close> at the root, and removes \<open>/./\<close>.
  Each loop is a function on the string, with the length as its measure.  The lemmas describe a URL as a list of
  segments, each preceded by a slash.
\<close>

section \<open>The operations\<close>

definition UrlDirectory :: "string \<Rightarrow> string" where
  "UrlDirectory url0 =
     (let url = before (sv_find (CHR ''?'') url0) url0;
          url = before (sv_find (CHR ''#'') url) url
      in case sv_rfind (CHR ''/'') url of None \<Rightarrow> [] | Some last_slash \<Rightarrow> take (last_slash + 1) url)"

text \<open>\<open>s.erase(pos, n)\<close>.\<close>

definition erase_range :: "nat \<Rightarrow> nat \<Rightarrow> string \<Rightarrow> string" where
  "erase_range pos n s = take pos s @ drop (pos + n) s"

definition root_position :: "string \<Rightarrow> nat" where
  "root_position result =
     (case sv_find_str ''://'' result of
        None \<Rightarrow> 0
      | Some scheme_end \<Rightarrow>
          (case sv_find_from (CHR ''/'') (scheme_end + 3) result of None \<Rightarrow> 0 | Some host_slash \<Rightarrow> host_slash))"

text \<open>\<open>rfind('/', dotdot - 1)\<close> looks at the characters before \<open>dotdot\<close>.\<close>

lemma sv_rfind_less: "sv_rfind c s = Some p \<Longrightarrow> p < length s"
  by (auto simp: sv_rfind_def sv_find_Some)

lemma length_erase_range: "pos + n \<le> length s \<Longrightarrow> length (erase_range pos n s) = length s - n"
  by (simp add: erase_range_def)

lemma sv_find_str_bound: "sv_find_str n s = Some i \<Longrightarrow> i + length n \<le> length s"
  by (drule sv_find_str_Some) (auto simp: starts_with_def dest: arg_cong [where f = length])

function collapse_dotdot :: "nat \<Rightarrow> string \<Rightarrow> string" where
  "collapse_dotdot root_pos result =
     (case sv_find_str ''/../'' result of
        None \<Rightarrow> result
      | Some dotdot \<Rightarrow>
          if dotdot = 0 then result
          else
            (case sv_rfind (CHR ''/'') (take dotdot result) of
               None \<Rightarrow> result
             | Some prev_slash \<Rightarrow>
                 if prev_slash < root_pos then result
                 else collapse_dotdot root_pos (erase_range prev_slash (dotdot + 3 - prev_slash) result)))"
  by pat_completeness auto
termination
proof (relation "measure (\<lambda>(r, s). length s)", goal_cases)
  case (2 root_pos result d p)
  from 2(1) have "d + 4 \<le> length result" by (auto dest: sv_find_str_bound)
  moreover from 2(3) have "p < d" by (auto dest: sv_rfind_less)
  ultimately show ?case by (simp add: length_erase_range)
qed simp

function strip_root_dotdot :: "nat \<Rightarrow> string \<Rightarrow> string" where
  "strip_root_dotdot root_pos result =
     (if length result > root_pos + 3 \<and> sv_substr root_pos 4 result = ''/../''
      then strip_root_dotdot root_pos (erase_range (root_pos + 1) 3 result)
      else result)"
  by pat_completeness auto
termination
  by (relation "measure (\<lambda>(r, s). length s)") (auto simp: erase_range_def)

definition strip_trailing_dotdot :: "nat \<Rightarrow> string \<Rightarrow> string" where
  "strip_trailing_dotdot root_pos result =
     (if length result = root_pos + 3 \<and> sv_substr root_pos 3 result = ''/..''
      then erase_range (root_pos + 1) 2 result else result)"

function collapse_dot :: "nat \<Rightarrow> string \<Rightarrow> string" where
  "collapse_dot pos result =
     (case sv_find_str_from ''/./'' pos result of
        None \<Rightarrow> result
      | Some p \<Rightarrow> collapse_dot p (erase_range p 2 result))"
  by pat_completeness auto
termination
proof (relation "measure (\<lambda>(r, s). length s)", goal_cases)
  case (2 pos result p)
  then have "p + 3 \<le> length result"
    by (auto simp: sv_find_str_from_def dest!: sv_find_str_bound)
  then show ?case by (simp add: length_erase_range)
qed simp

declare collapse_dotdot.simps [simp del] strip_root_dotdot.simps [simp del] collapse_dot.simps [simp del]

definition ResolvePath :: "string \<Rightarrow> string \<Rightarrow> string" where
  "ResolvePath base_dir relative =
     (if relative = [] then base_dir
      else if hd relative = CHR ''/'' \<or> sv_find_str ''://'' relative \<noteq> None then relative
      else
        (let result = base_dir @ relative; root_pos = root_position result;
             result = collapse_dotdot root_pos result;
             result = strip_root_dotdot root_pos result;
             result = strip_trailing_dotdot root_pos result
         in collapse_dot 0 result))"

definition UrlHostname :: "string \<Rightarrow> string" where
  "UrlHostname url =
     (case sv_find_str ''://'' url of
        None \<Rightarrow> []
      | Some scheme_end \<Rightarrow>
          (let host_start = scheme_end + 3
           in if host_start \<ge> length url then []
              else
                (let host_end = (case find_first_of ''/?#'' (drop host_start url) of
                                   None \<Rightarrow> length url | Some i \<Rightarrow> host_start + i);
                     host_start = (case sv_find_from (CHR ''@'') host_start url of
                                     Some a \<Rightarrow> if a < host_end then a + 1 else host_start
                                   | None \<Rightarrow> host_start)
                 in sv_substr host_start (host_end - host_start) url)))"

section \<open>URLs as segments\<close>

definition path_of :: "string list \<Rightarrow> string" where
  "path_of segs = concat (map (\<lambda>s. CHR ''/'' # s) segs)"

definition plain_segment :: "string \<Rightarrow> bool" where
  "plain_segment s \<longleftrightarrow> CHR ''/'' \<notin> set s \<and> s \<noteq> ''.'' \<and> s \<noteq> ''..''"

lemma path_of_simps [simp]:
  "path_of [] = []" "path_of (s # ss) = CHR ''/'' # s @ path_of ss" "path_of (xs @ ys) = path_of xs @ path_of ys"
  by (simp_all add: path_of_def)

text \<open>A needle that begins with a slash is not found inside a segment.\<close>

lemma sv_find_str_skip:
  "CHR ''/'' \<notin> set s \<Longrightarrow>
     sv_find_str (CHR ''/'' # n) (s @ t) = map_option (\<lambda>i. length s + i) (sv_find_str (CHR ''/'' # n) t)"
  by (induction s; cases "sv_find_str (CHR ''/'' # n) t") (auto simp: starts_with_def)

lemma segment_cut:
  "CHR ''/'' \<notin> set s \<Longrightarrow> CHR ''/'' \<notin> set d \<Longrightarrow>
     starts_with (d @ ''/'') (s @ CHR ''/'' # t) \<longleftrightarrow> s = d"
proof
  assume "CHR ''/'' \<notin> set s" "CHR ''/'' \<notin> set d" "starts_with (d @ ''/'') (s @ CHR ''/'' # t)"
  then obtain u where "s @ CHR ''/'' # t = d @ CHR ''/'' # u" by (auto simp: starts_with_iff)
  then have "takeWhile (\<lambda>c. c \<noteq> CHR ''/'') (s @ CHR ''/'' # t) = takeWhile (\<lambda>c. c \<noteq> CHR ''/'') (d @ CHR ''/'' # u)"
    by (rule arg_cong)
  with \<open>CHR ''/'' \<notin> set s\<close> \<open>CHR ''/'' \<notin> set d\<close> show "s = d"
    by (auto simp: takeWhile_append split: if_splits)
qed (auto simp: starts_with_iff)

lemma find_segment:
  assumes "list_all (\<lambda>s. CHR ''/'' \<notin> set s \<and> s \<noteq> d) segs" "CHR ''/'' \<notin> set d"
  shows "sv_find_str (CHR ''/'' # d @ ''/'') (path_of segs @ CHR ''/'' # d @ CHR ''/'' # r) = Some (length (path_of segs))"
  using assms(1)
proof (induction segs)
  case Nil
  then show ?case by (simp add: starts_with_def)
next
  case (Cons s ss)
  let ?t = "path_of ss @ CHR ''/'' # d @ CHR ''/'' # r"
  obtain t' where t': "?t = CHR ''/'' # t'" by (cases ss) auto
  have "\<not> starts_with (CHR ''/'' # d @ ''/'') (CHR ''/'' # s @ ?t)"
    using Cons.prems assms(2) segment_cut [of s d t'] by (simp add: t' starts_with_def)
  with Cons show ?case by (simp add: sv_find_str_skip)
qed

lemma find_no_segment:
  assumes "list_all (\<lambda>s. CHR ''/'' \<notin> set s \<and> s \<noteq> d) (butlast segs)" "CHR ''/'' \<notin> set (last segs)" "CHR ''/'' \<notin> set d"
  shows "sv_find_str (CHR ''/'' # d @ ''/'') (path_of segs) = None"
  using assms(1,2)
proof (induction segs)
  case Nil
  then show ?case by simp
next
  case (Cons s ss)
  show ?case
  proof (cases "ss = []")
    case True
    with Cons.prems have s: "CHR ''/'' \<notin> set s" by simp
    then have "\<not> starts_with (d @ ''/'') s" by (auto simp: starts_with_iff)
    then show ?thesis using sv_find_str_skip [OF s, of "d @ ''/''" "[]"] by (simp add: True starts_with_def)
  next
    case False
    then obtain t' where t': "path_of ss = CHR ''/'' # t'" by (cases ss) auto
    have "\<not> starts_with (CHR ''/'' # d @ ''/'') (CHR ''/'' # s @ path_of ss)"
      using Cons.prems assms(3) False segment_cut [of s d t'] by (simp add: t' starts_with_def)
    with Cons.IH Cons.prems False show ?thesis by (simp add: sv_find_str_skip)
  qed
qed


lemma sv_rfind_last: "c \<notin> set x \<Longrightarrow> sv_rfind c (a @ c # x) = Some (length a)"
  using sv_find_append_Cons [of c "rev x" "rev a"] by (simp add: sv_rfind_def)

lemma sv_rfind_notin: "c \<notin> set x \<Longrightarrow> sv_rfind c x = None"
  by (simp add: sv_rfind_def)

lemma find_dotdot:
  assumes "CHR ''/'' \<notin> set q" "list_all plain_segment segs" "rest \<noteq> []"
  shows "sv_find_str ''/../'' (q @ path_of (segs @ ''..'' # rest)) = Some (length (q @ path_of segs))"
proof -
  obtain t where "path_of rest = CHR ''/'' # t" using assms(3) by (cases rest) auto
  then show ?thesis
    using find_segment [of "''..''" segs t] assms
    by (simp add: sv_find_str_skip plain_segment_def list_all_iff)
qed

lemma no_dotdot:
  assumes "CHR ''/'' \<notin> set q" "list_all plain_segment segs"
  shows "sv_find_str ''/../'' (q @ path_of segs) = None"
proof (cases "segs = []")
  case False
  then show ?thesis
    using find_no_segment [of "''..''" segs] assms
    by (auto simp: sv_find_str_skip plain_segment_def list_all_iff dest: in_set_butlastD)
next
  case True
  then show ?thesis using assms sv_find_str_skip [of q _ "[]"] by simp
qed

lemma no_dot:
  assumes "CHR ''/'' \<notin> set q" "list_all plain_segment segs"
  shows "sv_find_str ''/./'' (q @ path_of segs) = None"
proof (cases "segs = []")
  case False
  then show ?thesis
    using find_no_segment [of "''.''" segs] assms
    by (auto simp: sv_find_str_skip plain_segment_def list_all_iff dest: in_set_butlastD)
next
  case True
  then show ?thesis using assms sv_find_str_skip [of q _ "[]"] by simp
qed

lemma erase_middle: "erase_range (length a) (length b) (a @ b @ c) = a @ c"
  by (simp add: erase_range_def)

lemma collapse_at_root:
  "sv_find_str ''/../'' s = Some d \<Longrightarrow> d \<le> root \<Longrightarrow> collapse_dotdot root s = s"
  by (subst collapse_dotdot.simps) (auto split: option.split dest!: sv_rfind_less)

lemma collapse_unfold:
  "sv_find_str ''/../'' s = Some d \<Longrightarrow> d \<noteq> 0 \<Longrightarrow> sv_rfind (CHR ''/'') (take d s) = Some p \<Longrightarrow> root \<le> p \<Longrightarrow>
     collapse_dotdot root s = collapse_dotdot root (erase_range p (d + 3 - p) s)"
  by (subst collapse_dotdot.simps) simp

lemma collapse_step:
  assumes "CHR ''/'' \<notin> set q" "list_all plain_segment (segs @ [x])" "rest \<noteq> []" "root \<le> length (q @ path_of segs)"
  shows "collapse_dotdot root (q @ path_of (segs @ x # ''..'' # rest)) = collapse_dotdot root (q @ path_of (segs @ rest))"
proof -
  let ?s = "q @ path_of (segs @ x # ''..'' # rest)" and ?p = "length (q @ path_of segs)"
  have find: "sv_find_str ''/../'' ?s = Some (?p + 1 + length x)"
    using find_dotdot [OF assms(1-3)] by simp
  have x: "CHR ''/'' \<notin> set x" using assms(2) by (simp add: plain_segment_def)
  have "take (?p + 1 + length x) ?s = (q @ path_of segs) @ CHR ''/'' # x" by simp
  then have rfind: "sv_rfind (CHR ''/'') (take (?p + 1 + length x) ?s) = Some ?p"
    using sv_rfind_last [OF x, of "q @ path_of segs"] by simp
  have erase: "erase_range ?p (?p + 1 + length x + 3 - ?p) ?s = q @ path_of (segs @ rest)"
    using erase_middle [of "q @ path_of segs" "CHR ''/'' # x @ ''/..''" "path_of rest"] by (simp add: eval_nat_numeral)
  show ?thesis
    using collapse_unfold [OF find _ rfind, of root] assms(4) erase by simp
qed

lemma collapse_segments:
  assumes "CHR ''/'' \<notin> set q" "list_all plain_segment (pre @ segs @ names)" "names \<noteq> []"
  shows "collapse_dotdot (length (q @ path_of pre)) (q @ path_of (pre @ segs @ replicate k ''..'' @ names)) =
    q @ path_of (pre @ take (length segs - k) segs @ replicate (k - length segs) ''..'' @ names)"
  using assms(2)
proof (induction k arbitrary: segs)
  case 0
  then show ?case
    using no_dotdot [OF assms(1), of "pre @ segs @ names"] by (subst collapse_dotdot.simps) simp
next
  case (Suc k)
  show ?case
  proof (cases segs rule: rev_cases)
    case Nil
    then show ?thesis
      using collapse_at_root [OF find_dotdot [OF assms(1), of pre "replicate k ''..'' @ names"]] Suc.prems assms(3) by simp
  next
    case (snoc ss x)
    have "collapse_dotdot (length (q @ path_of pre)) (q @ path_of ((pre @ ss) @ x # ''..'' # replicate k ''..'' @ names)) =
      collapse_dotdot (length (q @ path_of pre)) (q @ path_of ((pre @ ss) @ replicate k ''..'' @ names))"
      by (rule collapse_step) (use assms(1,3) Suc.prems snoc in auto)
    with Suc.IH [of ss] Suc.prems snoc show ?thesis by simp
  qed
qed

text \<open>With more steps up than directories the collapse stops at the root, whatever follows.\<close>

lemma collapse_above_root:
  assumes "CHR ''/'' \<notin> set q" "list_all plain_segment (pre @ segs)" "rest \<noteq> []"
  shows "collapse_dotdot (length (q @ path_of pre)) (q @ path_of (pre @ segs @ replicate (length segs + Suc j) ''..'' @ rest)) =
    q @ path_of (pre @ replicate (Suc j) ''..'' @ rest)"
  using assms(2)
proof (induction segs rule: rev_induct)
  case Nil
  then show ?case
    using collapse_at_root [OF find_dotdot [OF assms(1), of pre "replicate j ''..'' @ rest"]] assms(3) by simp
next
  case (snoc x ss)
  have "collapse_dotdot (length (q @ path_of pre)) (q @ path_of ((pre @ ss) @ x # ''..'' # replicate (length ss + Suc j) ''..'' @ rest)) =
    collapse_dotdot (length (q @ path_of pre)) (q @ path_of ((pre @ ss) @ replicate (length ss + Suc j) ''..'' @ rest))"
    by (rule collapse_step) (use assms(1,3) snoc.prems in auto)
  with snoc show ?case by simp
qed

lemma strip_ups:
  assumes "names \<noteq> []"
  shows "strip_root_dotdot (length p) (p @ path_of (replicate k ''..'' @ names)) =
    strip_root_dotdot (length p) (p @ path_of names)"
proof (induction k)
  case (Suc k)
  obtain t where t: "path_of (replicate k ''..'' @ names) = CHR ''/'' # t"
    using assms by (cases k; cases names) auto
  have "strip_root_dotdot (length p) (p @ path_of (replicate (Suc k) ''..'' @ names)) =
    strip_root_dotdot (length p) (p @ path_of (replicate k ''..'' @ names))"
    by (subst strip_root_dotdot.simps) (simp add: sv_substr_def erase_range_def t del: path_of_simps(3))
  with Suc.IH show ?case by simp
qed simp

lemma strip_segments:
  assumes "list_all plain_segment names" "names \<noteq> []"
  shows "strip_root_dotdot (length p) (p @ path_of (replicate k ''..'' @ names)) = p @ path_of names"
proof -
  obtain n ns where n: "names = n # ns" using assms(2) by (cases names) auto
  have "take 4 (path_of names) \<noteq> ''/../''"
  proof
    assume "take 4 (path_of names) = ''/../''"
    then have sw: "starts_with (''..'' @ ''/'') (n @ path_of ns)" by (simp add: n starts_with_def eval_nat_numeral)
    have "CHR ''/'' \<notin> set n" "n \<noteq> ''..''" using assms(1) n by (auto simp: plain_segment_def)
    with sw show False
      using segment_cut [of n "''..''"] by (cases ns) (auto simp: starts_with_iff)
  qed
  then have "strip_root_dotdot (length p) (p @ path_of names) = p @ path_of names"
    by (subst strip_root_dotdot.simps) (simp add: sv_substr_def)
  then show ?thesis unfolding strip_ups [OF assms(2)] .
qed

lemma trailing_segments:
  assumes "list_all plain_segment segs"
  shows "strip_trailing_dotdot (length p) (p @ path_of segs) = p @ path_of segs"
proof -
  have "path_of segs \<noteq> ''/..''"
  proof (cases segs)
    case (Cons x xs)
    with assms show ?thesis by (cases xs) (auto simp: plain_segment_def append_eq_Cons_conv)
  qed simp
  then show ?thesis by (auto simp: strip_trailing_dotdot_def sv_substr_def)
qed

section \<open>The origin of a URL\<close>

text \<open>The text \<open>scheme://host\<close>.\<close>

definition origin_text :: "string \<Rightarrow> string \<Rightarrow> string" where
  "origin_text scheme host = scheme @ ''://'' @ host"

lemma origin_as_path: "origin_text scheme host @ s = (scheme @ '':'') @ path_of ['''', host] @ s"
  by (simp add: origin_text_def)

lemma find_scheme_end: "CHR ''/'' \<notin> set scheme \<Longrightarrow> sv_find_str ''://'' (scheme @ ''://'' @ s) = Some (length scheme)"
proof (induction scheme)
  case (Cons a u)
  then have "\<not> starts_with ''://'' ((a # u) @ ''://'' @ s)"
    by (cases u) (auto simp: starts_with_def)
  with Cons show ?case by simp
qed (simp add: starts_with_def)

lemma root_of_origin:
  assumes "CHR ''/'' \<notin> set scheme" "CHR ''/'' \<notin> set host"
  shows "root_position (origin_text scheme host @ CHR ''/'' # w) = length (origin_text scheme host)"
  using find_scheme_end [OF assms(1), of "host @ CHR ''/'' # w"] sv_find_append_Cons [OF assms(2), of w]
  by (simp add: root_position_def origin_text_def sv_find_from_def)

lemma relative_as_path:
  "names \<noteq> [] \<Longrightarrow> CHR ''/'' # concat (replicate k ''../'') @ tl (path_of names) = path_of (replicate k ''..'' @ names)"
  by (induction k) (cases names, auto)

lemma collapse_dot_none: "sv_find_str ''/./'' s = None \<Longrightarrow> collapse_dot 0 s = s"
  by (subst collapse_dot.simps) (simp add: sv_find_str_from_def)

lemma resolve_segments:
  fixes k :: nat
  assumes "CHR ''/'' \<notin> set scheme" "list_all plain_segment (host # segs @ names)" "names \<noteq> []"
    and "k > 0 \<or> hd names \<noteq> []"
    and rel: "relative = concat (replicate k ''../'') @ tl (path_of names)" "sv_find_str ''://'' relative = None"
  shows "ResolvePath (origin_text scheme host @ path_of segs @ ''/'') relative =
    origin_text scheme host @ path_of (take (length segs - k) segs @ names)"
proof -
  let ?o = "origin_text scheme host" and ?n = "length segs"
  let ?up = "replicate (k - ?n) ''..''" and ?kept = "take (?n - k) segs"
  have q: "CHR ''/'' \<notin> set (scheme @ '':'')" using assms(1) by simp
  have o: "?o = (scheme @ '':'') @ path_of ['''', host]" using origin_as_path [of scheme host "[]"] by simp
  have plain: "list_all plain_segment ((['''', host]) @ segs @ names)" using assms(2) by (simp add: plain_segment_def)
  have kept: "list_all plain_segment (?kept @ names)"
    using assms(2) by (auto simp: list_all_iff dest: in_set_takeD)
  obtain n ns where n: "names = n # ns" using assms(3) by (cases names) auto
  have "relative \<noteq> [] \<and> hd relative \<noteq> CHR ''/''"
    using assms(2,4) by (cases k; cases n) (auto simp: rel(1) n plain_segment_def)
  moreover have joined: "(?o @ path_of segs @ ''/'') @ relative = ?o @ path_of (segs @ replicate k ''..'' @ names)"
    using relative_as_path [OF assms(3), of k] by (simp add: rel(1))
  moreover have "root_position (?o @ path_of (segs @ replicate k ''..'' @ names)) = length ?o"
  proof -
    obtain w where "path_of (segs @ replicate k ''..'' @ names) = CHR ''/'' # w"
      using n by (cases segs; cases k) auto
    then show ?thesis using root_of_origin [of scheme host w] assms(1,2) by (simp add: plain_segment_def)
  qed
  moreover have "collapse_dotdot (length ?o) (?o @ path_of (segs @ replicate k ''..'' @ names)) =
      ?o @ path_of (?kept @ ?up @ names)"
    using collapse_segments [OF q plain assms(3), of k] by (simp add: o)
  moreover have "strip_root_dotdot (length ?o) (?o @ path_of (?kept @ ?up @ names)) = ?o @ path_of (?kept @ names)"
  proof (cases "k \<le> ?n")
    case True
    then show ?thesis using strip_segments [OF kept, of ?o 0] assms(3) by simp
  next
    case False
    then show ?thesis using strip_segments [of names ?o "k - ?n"] kept assms(3) by simp
  qed
  moreover have "collapse_dot 0 (?o @ path_of (?kept @ names)) = ?o @ path_of (?kept @ names)"
    using no_dot [OF q, of "['''', host] @ ?kept @ names"] kept plain
    by (intro collapse_dot_none) (simp add: o)
  ultimately show ?thesis
    using trailing_segments [OF kept, of ?o] rel(2) by (simp add: ResolvePath_def Let_def del: path_of_simps)
qed

text \<open>
  C11: a reference of k steps up followed by plain segments resolves to what the segments say: k directories
  of the base, or all there are, are removed, and the scheme and the host stay.
\<close>

theorem ResolvePath_segments:
  fixes k :: nat
  assumes "CHR ''/'' \<notin> set scheme" "list_all plain_segment (host # segs @ names)" "names \<noteq> []"
    and "k > 0 \<or> hd names \<noteq> []"
    and rel: "relative = concat (replicate k ''../'') @ tl (path_of names)" "sv_find_str ''://'' relative = None"
  shows "ResolvePath (origin_text scheme host @ path_of segs @ ''/'') relative =
    origin_text scheme host @ path_of (take (length segs - k) segs @ names)"
  using assms by (rule resolve_segments)

section \<open>The origin is kept\<close>

lemma starts_with_nth: "starts_with n (drop i s) \<Longrightarrow> j < length n \<Longrightarrow> i + j < length s \<and> s ! (i + j) = n ! j"
proof -
  assume "starts_with n (drop i s)" "j < length n"
  then obtain t where t: "drop i s = n @ t" by (auto simp: starts_with_iff)
  then have "i < length s" using \<open>j < length n\<close> by (cases "i < length s") auto
  moreover have "length s - i = length n + length t" using t by (metis length_append length_drop)
  moreover have "drop i s ! j = n ! j" using t \<open>j < length n\<close> by (simp add: nth_append)
  ultimately show ?thesis using \<open>j < length n\<close> by simp
qed

text \<open>An erase at a slash at or after the root, up to another slash, keeps the text before the root and the slash.\<close>

lemma erase_rooted:
  assumes "s = A @ CHR ''/'' # w" "length A \<le> p" "p < e" "e < length s" "s ! e = CHR ''/''"
  shows "\<exists>w'. erase_range p (e - p) s = A @ CHR ''/'' # w'"
proof -
  have e: "erase_range p (e - p) s = take p s @ CHR ''/'' # drop (Suc e) s"
    using assms(3-5) by (simp add: erase_range_def Cons_nth_drop_Suc [symmetric])
  show ?thesis
  proof (cases "p = length A")
    case True
    then show ?thesis using assms(1) e by simp
  next
    case False
    with assms(2) obtain j where "p = length A + Suc j" by (metis add_Suc_right le_neq_implies_less less_iff_Suc_add)
    then show ?thesis using assms(1) e by simp
  qed
qed

lemma collapse_dotdot_rooted: "\<exists>w. s = A @ CHR ''/'' # w \<Longrightarrow> \<exists>w. collapse_dotdot (length A) s = A @ CHR ''/'' # w"
proof (induction "length A" s rule: collapse_dotdot.induct)
  case (1 s)
  consider "collapse_dotdot (length A) s = s"
    | d p where "sv_find_str ''/../'' s = Some d" "d \<noteq> 0" "sv_rfind (CHR ''/'') (take d s) = Some p" "\<not> p < length A"
    using collapse_dotdot.simps [of "length A" s] by (force split: option.splits if_splits)
  then show ?case
  proof cases
    case 1
    then show ?thesis using \<open>\<exists>w. s = A @ CHR ''/'' # w\<close> by simp
  next
    case (2 d p)
    have "p < d" using sv_rfind_less [OF 2(3)] by simp
    moreover have "d + 3 < length s \<and> s ! (d + 3) = CHR ''/''"
      using starts_with_nth [of "''/../''" d s 3] sv_find_str_Some [OF 2(1)] by simp
    ultimately have "\<exists>w. erase_range p (d + 3 - p) s = A @ CHR ''/'' # w"
      using erase_rooted [of s A _ p "d + 3"] 2(4) \<open>\<exists>w. s = A @ CHR ''/'' # w\<close> by auto
    then show ?thesis
      using "1.hyps" [OF 2] collapse_unfold [OF 2(1-3), of "length A"] 2(4) by simp
  qed
qed

lemma strip_root_rooted: "\<exists>w. s = A @ CHR ''/'' # w \<Longrightarrow> \<exists>w. strip_root_dotdot (length A) s = A @ CHR ''/'' # w"
proof (induction "length A" s rule: strip_root_dotdot.induct)
  case (1 s)
  then obtain w where w: "s = A @ CHR ''/'' # w" by blast
  then have "erase_range (length A + 1) 3 s = A @ CHR ''/'' # drop 3 w" by (simp add: erase_range_def)
  with 1 w show ?case by (subst strip_root_dotdot.simps) auto
qed

lemma strip_trailing_rooted: "\<exists>w. s = A @ CHR ''/'' # w \<Longrightarrow> \<exists>w. strip_trailing_dotdot (length A) s = A @ CHR ''/'' # w"
  by (auto simp: strip_trailing_dotdot_def erase_range_def)

lemma find_dot_some:
  assumes "sv_find_str_from ''/./'' pos s = Some p"
  shows "pos \<le> p" "p + 2 < length s" "s ! p = CHR ''/''" "s ! (p + 1) = CHR ''.''" "s ! (p + 2) = CHR ''/''"
    "starts_with ''/./'' (drop p s)"
proof -
  obtain k where k: "sv_find_str ''/./'' (drop pos s) = Some k" "p = pos + k"
    using assms by (auto simp: sv_find_str_from_def)
  then show sw: "starts_with ''/./'' (drop p s)" using sv_find_str_Some [OF k(1)] by (simp add: add.commute)
  show "pos \<le> p" using k(2) by simp
  show "p + 2 < length s" "s ! p = CHR ''/''" "s ! (p + 1) = CHR ''.''" "s ! (p + 2) = CHR ''/''"
    using starts_with_nth [OF sw, of 0] starts_with_nth [OF sw, of 1] starts_with_nth [OF sw, of 2] by simp_all
qed

lemma collapse_dot_rooted:
  assumes "\<And>i w. i < length A \<Longrightarrow> \<not> starts_with ''/./'' (drop i (A @ CHR ''/'' # w))"
  shows "\<exists>w. s = A @ CHR ''/'' # w \<Longrightarrow> \<exists>w. collapse_dot pos s = A @ CHR ''/'' # w"
proof (induction pos s rule: collapse_dot.induct)
  case (1 pos s)
  then obtain w where w: "s = A @ CHR ''/'' # w" by blast
  show ?case
  proof (cases "sv_find_str_from ''/./'' pos s")
    case None
    with w show ?thesis by (subst collapse_dot.simps) simp
  next
    case (Some p)
    note f = find_dot_some [OF Some]
    have "length A \<le> p" using assms [of p w] f(6) w by (meson not_le)
    then have "\<exists>w. erase_range p 2 s = A @ CHR ''/'' # w"
      using erase_rooted [OF w, of p "p + 2"] f by simp
    with "1.IH" [OF Some] Some show ?thesis by (subst collapse_dot.simps) simp
  qed
qed

text \<open>The scan for \<open>/./\<close> never leaves one behind.\<close>

lemma collapse_dot_clean:
  "\<forall>j < pos. \<not> starts_with ''/./'' (drop j s) \<Longrightarrow> sv_find_str ''/./'' (collapse_dot pos s) = None"
proof (induction pos s rule: collapse_dot.induct)
  case (1 pos s)
  show ?case
  proof (cases "sv_find_str_from ''/./'' pos s")
    case None
    then have later: "sv_find_str ''/./'' (drop pos s) = None" by (simp add: sv_find_str_from_def)
    have "\<not> starts_with ''/./'' (drop j s)" for j
    proof (cases "j < pos")
      case False
      then have "drop j s = drop (j - pos) (drop pos s)" by simp
      then show ?thesis using later unfolding sv_find_str_None starts_with_iff
        by (metis append_take_drop_id)
    qed (use "1.prems" in blast)
    then have "sv_find_str ''/./'' s = None"
      unfolding sv_find_str_None starts_with_iff by (metis append_eq_conv_conj)
    with None show ?thesis by (subst collapse_dot.simps) simp
  next
    case (Some p)
    note f = find_dot_some [OF Some]
    let ?s = "erase_range p 2 s"
    have same: "?s ! i = s ! i" if "i \<le> p" for i
      using that f(2,3,5) by (auto simp: erase_range_def nth_append le_less)
    have "\<not> starts_with ''/./'' (drop j ?s)" if "j < p" for j
    proof
      assume sw: "starts_with ''/./'' (drop j ?s)"
      have at: "?s ! j = CHR ''/''" "?s ! (j + 1) = CHR ''.''" "?s ! (j + 2) = CHR ''/''"
        using starts_with_nth [OF sw, of 0] starts_with_nth [OF sw, of 1] starts_with_nth [OF sw, of 2] by simp_all
      have "j + 1 \<noteq> p" using at(2) same [of p] f(3) by auto
      with that have "j + 2 \<le> p" by simp
      with at same have "s ! j = CHR ''/''" "s ! (j + 1) = CHR ''.''" "s ! (j + 2) = CHR ''/''" by simp_all
      then have "starts_with ''/./'' (drop j s)"
        using \<open>j + 2 \<le> p\<close> f(2) by (simp add: starts_with_def Cons_nth_drop_Suc [symmetric] eval_nat_numeral)
      moreover have "\<not> starts_with ''/./'' (drop j s)"
      proof (cases "j < pos")
        case False
        obtain k where k: "sv_find_str ''/./'' (drop pos s) = Some k" "p = pos + k"
          using Some by (auto simp: sv_find_str_from_def)
        then show ?thesis using sv_find_str_least [OF k(1), of "j - pos"] that False by simp
      qed (use "1.prems" in blast)
      ultimately show False by blast
    qed
    with "1.IH" [OF Some] Some show ?thesis by (subst collapse_dot.simps) simp
  qed
qed


lemma no_dot_in_origin:
  assumes "CHR ''/'' \<notin> set scheme" "CHR ''/'' \<notin> set host" "host \<noteq> ''.''" "i < length (origin_text scheme host)"
  shows "\<not> starts_with ''/./'' (drop i (origin_text scheme host @ CHR ''/'' # w))"
proof
  let ?o = "origin_text scheme host" and ?s = "origin_text scheme host @ CHR ''/'' # w"
  assume sw: "starts_with ''/./'' (drop i ?s)"
  have some: "j \<le> i" if "sv_find_str ''/./'' ?s = Some j" for j
    using sv_find_str_least [OF that, of i] sw by (simp add: not_le [symmetric] del: append_assoc) blast
  obtain t where "drop i ?s = ''/./'' @ t" using sw unfolding starts_with_iff by blast
  then have "?s = take i ?s @ ''/./'' @ t" by (metis append_take_drop_id)
  then have any: "sv_find_str ''/./'' ?s \<noteq> None" unfolding sv_find_str_None by blast
  have "\<not> starts_with ''./'' (host @ CHR ''/'' # w)"
    using segment_cut [of host "''.''" w] assms(2,3) by simp
  then have "sv_find_str ''/./'' (?o @ CHR ''/'' # w) =
      map_option (\<lambda>j. length ?o + j) (sv_find_str ''/./'' (CHR ''/'' # w))"
    using sv_find_str_skip [of "scheme @ '':''" "''./''" "''//'' @ host @ CHR ''/'' # w"]
      sv_find_str_skip [OF assms(2), of "''./''" "CHR ''/'' # w"] assms(1)
    by (cases "sv_find_str ''/./'' (CHR ''/'' # w)") (simp_all add: origin_text_def starts_with_def)
  then show False using some any assms(4) by (cases "sv_find_str ''/./'' (CHR ''/'' # w)") auto
qed

lemma sv_find_append:
  "sv_find c (h @ r) = (if c \<in> set h then sv_find c h else map_option (\<lambda>i. length h + i) (sv_find c r))"
  by (induction h; cases "sv_find c r") (auto simp: sv_find_notin)

lemma hostname_split:
  assumes "CHR ''/'' \<notin> set scheme" "find_first_of ''/?#'' (h @ r) = Some (length h)" "r \<noteq> []"
  shows "UrlHostname (scheme @ ''://'' @ h @ r) = (if CHR ''@'' \<in> set h then after (sv_find (CHR ''@'') h) h else h)"
proof -
  define u where "u = scheme @ ''://'' @ h @ r"
  have find: "sv_find_str ''://'' u = Some (length scheme)"
    unfolding u_def by (rule find_scheme_end [OF assms(1)])
  have cut: "drop (length scheme + 3) u = h @ r" "\<not> length scheme + 3 \<ge> length u"
    using assms(3) by (simp_all add: u_def)
  have sub: "sv_substr (length scheme + 3 + a) n u = take n (drop a (h @ r))" for a n
    using cut(1) by (simp add: sv_substr_def add.commute flip: drop_drop)
  have at: "sv_find (CHR ''@'') h = Some i \<Longrightarrow> i < length h" for i
    by (simp add: sv_find_Some)
  have "UrlHostname u =
      (case (case sv_find (CHR ''@'') (h @ r) of Some a \<Rightarrow> if a < length h then a + 1 else 0 | None \<Rightarrow> 0) of
         a \<Rightarrow> take (length h - a) (drop a (h @ r)))"
    using sub [of 0] sub [of "Suc _"]
    by (cases "sv_find (CHR ''@'') (h @ r)")
       (simp_all add: UrlHostname_def find cut assms(2) Let_def sv_find_from_def add.assoc del: sv_find_None)
  also have "\<dots> = (if CHR ''@'' \<in> set h then after (sv_find (CHR ''@'') h) h else h)"
    using at by (cases "sv_find (CHR ''@'') h") (auto simp: sv_find_append split: option.split)
  finally show ?thesis by (simp add: u_def)
qed

lemma UrlHostname_origin:
  assumes "CHR ''/'' \<notin> set scheme" "CHR ''/'' \<notin> set host"
  shows "UrlHostname (origin_text scheme host @ CHR ''/'' # w) =
    (let h = takeWhile (\<lambda>c. c \<notin> set ''?#'') host in if CHR ''@'' \<in> set h then after (sv_find (CHR ''@'') h) h else h)"
proof -
  let ?url = "origin_text scheme host @ CHR ''/'' # w" and ?P = "\<lambda>c. c \<notin> set ''/?#''"
  let ?h = "takeWhile (\<lambda>c. c \<notin> set ''?#'') host"
  define r where "r = dropWhile ?P (host @ CHR ''/'' # w)"
  have "takeWhile ?P host = ?h" using assms(2) by (induction host) auto
  then have h: "takeWhile ?P (host @ CHR ''/'' # w) = ?h" by (subst takeWhile_tail) simp_all
  then have split: "host @ CHR ''/'' # w = ?h @ r" unfolding r_def by (metis takeWhile_dropWhile_id)
  have "r \<noteq> []" by (simp add: r_def dropWhile_eq_Nil_conv)
  have first: "find_first_of ''/?#'' (?h @ r) = Some (length ?h)"
    unfolding split [symmetric] find_first_of_def h Let_def by (simp add: less_Suc_eq_le trans_le_add1 length_takeWhile_le)
  have url: "?url = scheme @ ''://'' @ ?h @ r" using split by (simp add: origin_text_def)
  show ?thesis
    unfolding url hostname_split [OF assms(1) first \<open>r \<noteq> []\<close>] Let_def by (rule refl)
qed


text \<open>
  C8: a relative reference, whatever dot segments it has, cannot leave the origin of its base: the resolved URL
  begins with the scheme, the host and a slash, names the same host, and has no /./ left.  The host . is the
  exception, since the scan for /./ starts at the first character.
\<close>

theorem ResolvePath_keeps_origin:
  fixes dir :: string
  assumes "CHR ''/'' \<notin> set scheme" "CHR ''/'' \<notin> set host" "host \<noteq> ''.''"
    and "relative \<noteq> []" "hd relative \<noteq> CHR ''/''" "sv_find_str ''://'' relative = None"
  defines "base \<equiv> origin_text scheme host @ CHR ''/'' # dir"
  shows "starts_with (origin_text scheme host @ ''/'') (ResolvePath base relative) \<and>
    UrlHostname (ResolvePath base relative) = UrlHostname base \<and>
    sv_find_str ''/./'' (ResolvePath base relative) = None"
proof -
  let ?o = "origin_text scheme host"
  let ?s = "strip_trailing_dotdot (length ?o) (strip_root_dotdot (length ?o)
    (collapse_dotdot (length ?o) (?o @ CHR ''/'' # dir @ relative)))"
  have resolved: "ResolvePath base relative = collapse_dot 0 ?s"
    using assms(4-6) root_of_origin [OF assms(1,2)] by (simp add: ResolvePath_def base_def Let_def)
  have "\<exists>w. ?s = ?o @ CHR ''/'' # w"
    by (intro strip_trailing_rooted strip_root_rooted collapse_dotdot_rooted) blast
  then have "\<exists>w. collapse_dot 0 ?s = ?o @ CHR ''/'' # w"
    by (rule collapse_dot_rooted [rotated]) (rule no_dot_in_origin [OF assms(1-3)])
  then obtain w where w: "ResolvePath base relative = ?o @ CHR ''/'' # w" unfolding resolved by blast
  then have "starts_with (?o @ ''/'') (ResolvePath base relative)" by (simp add: starts_with_iff)
  moreover have "UrlHostname (ResolvePath base relative) = UrlHostname base"
    unfolding w unfolding base_def UrlHostname_origin [OF assms(1,2)] ..
  moreover have "sv_find_str ''/./'' (ResolvePath base relative) = None"
    unfolding resolved by (rule collapse_dot_clean) simp
  ultimately show ?thesis by blast
qed

lemma dot_below_root:
  fixes i k :: nat
  assumes "CHR ''/'' \<notin> set scheme" "list_all plain_segment (host # names)" "names \<noteq> []"
  defines "org \<equiv> origin_text scheme host" and "below \<equiv> replicate i ''..'' @ names"
  shows "collapse_dot 0 (strip_trailing_dotdot (length org) (strip_root_dotdot (length org)
      (org @ path_of (replicate k ''..'' @ ''.'' # below)))) = org @ path_of below"
proof -
  let ?s = "org @ path_of (''.'' # below)"
  obtain t where t: "path_of below = CHR ''/'' # t" using assms(3) unfolding below_def by (cases i; cases names) auto
  have "strip_root_dotdot (length org) ?s = ?s"
    by (subst strip_root_dotdot.simps) (simp add: sv_substr_def t)
  moreover have "strip_trailing_dotdot (length org) ?s = ?s"
    by (simp add: strip_trailing_dotdot_def sv_substr_def t)
  moreover have find: "sv_find_str_from ''/./'' 0 ?s = Some (length org)"
  proof -
    have "sv_find_str ''/./'' (path_of ['''', host] @ path_of (''.'' # below)) = Some (length (path_of ['''', host]))"
      using find_segment [of "''.''" "['''', host]" t] assms(2) by (simp add: t plain_segment_def)
    then show ?thesis
      using assms(1) sv_find_str_skip [of "scheme @ '':''" "''./''"]
      by (simp add: org_def origin_text_def sv_find_str_from_def)
  qed
  moreover have "sv_find_str ''/./'' (path_of below) = None"
  proof -
    have all: "CHR ''/'' \<notin> set s \<and> s \<noteq> ''.''" if "s \<in> set below" for s
    proof -
      have "s = ''..'' \<or> plain_segment s"
        using that assms(2) unfolding below_def set_append by (auto simp: list_all_iff set_replicate_conv_if split: if_splits)
      then show ?thesis by (auto simp: plain_segment_def)
    qed
    have "list_all (\<lambda>s. CHR ''/'' \<notin> set s \<and> s \<noteq> ''.'') (butlast below)"
      unfolding list_all_iff by (intro ballI all) (erule in_set_butlastD)
    moreover have "CHR ''/'' \<notin> set (last below)" using all assms(3) by (simp add: below_def)
    ultimately show ?thesis using find_no_segment [of "''.''" below] by simp
  qed
  then have "collapse_dot (length org) (org @ path_of below) = org @ path_of below"
    by (subst collapse_dot.simps) (simp add: sv_find_str_from_def)
  moreover have "erase_range (length org) 2 ?s = org @ path_of below" by (simp add: erase_range_def)
  then have "collapse_dot 0 ?s = collapse_dot (length org) (org @ path_of below)"
    using find collapse_dot.simps [of 0 ?s] by (simp only: option.case)
  ultimately show ?thesis
    using strip_ups [of "''.'' # below" org k] by (simp only: list.distinct not_False_eq_True)
qed

text \<open>
  C13: the passes do not reach a fixed point.  /../ is stripped at the root before /./ is removed, so a reference
  with more steps up than the base has directories, then a dot segment, then i further steps up, resolves to a
  path that climbs i steps above the root; the same reference without the dot segment stays at the root.  Both
  hold for every origin, every base directory and every plain rest of the path without a colon.
\<close>

theorem ResolvePath_climbs_above_root:
  fixes i j :: nat
  assumes "CHR ''/'' \<notin> set scheme" "list_all plain_segment (host # segs @ names)" "names \<noteq> []"
    and "CHR '':'' \<notin> set (path_of names)"
  defines "up \<equiv> \<lambda>n. concat (replicate n ''../'')"
    and "base \<equiv> origin_text scheme host @ path_of segs @ ''/''"
  shows "ResolvePath base (up (length segs + Suc j) @ ''./'' @ up i @ tl (path_of names)) =
      origin_text scheme host @ path_of (replicate i ''..'' @ names) \<and>
    ResolvePath base (up (length segs + Suc j) @ up i @ tl (path_of names)) =
      origin_text scheme host @ path_of names"
proof
  let ?org = "origin_text scheme host" and ?k = "length segs + Suc j"
  let ?rest = "''.'' # replicate i ''..'' @ names"
  let ?rel = "up ?k @ ''./'' @ up i @ tl (path_of names)"
  have colon: "CHR '':'' \<notin> set (tl (path_of names))" using assms(4) by (cases "path_of names") auto
  have up: "CHR '':'' \<notin> set (up n)" "up (Suc n) \<noteq> []" "hd (up (n + Suc j) @ r) = CHR ''.''" for n r by (auto simp: up_def)
  have no_scheme: "sv_find_str ''://'' r = None" if "CHR '':'' \<notin> set r" for r
    using that by (induction r) (auto simp: starts_with_def)
  have q: "CHR ''/'' \<notin> set (scheme @ '':'')" using assms(1) by simp
  have org: "?org = (scheme @ '':'') @ path_of ['''', host]" using origin_as_path [of scheme host "[]"] by simp
  have "path_of (replicate n ''..'' @ rest) = concat (replicate n ''/..'') @ path_of rest" for n rest
    by (induction n) auto
  moreover have "concat (replicate n ''/..'') @ ''/'' = CHR ''/'' # up n" for n by (induction n) (auto simp: up_def)
  ultimately have rel: "base @ ?rel = ?org @ path_of (segs @ replicate ?k ''..'' @ ?rest)"
    using relative_as_path [OF assms(3), of i] relative_as_path [of "[''.'']" ?k]
    by (simp add: base_def up_def)
  obtain w where w: "path_of (segs @ replicate ?k ''..'' @ ?rest) = CHR ''/'' # w" by (cases segs) auto
  have root: "root_position (base @ ?rel) = length ?org"
    unfolding rel w using assms(1,2) by (intro root_of_origin) (simp_all add: plain_segment_def)
  have "collapse_dotdot (length ?org) (?org @ path_of (segs @ replicate ?k ''..'' @ ?rest)) =
      ?org @ path_of (replicate (Suc j) ''..'' @ ?rest)"
    using collapse_above_root [OF q, of "['''', host]" segs ?rest j] assms(2) by (simp add: org plain_segment_def)
  then show "ResolvePath base ?rel = ?org @ path_of (replicate i ''..'' @ names)"
    using root rel dot_below_root [where i = i and k = "Suc j"] assms(1-3) no_scheme [of ?rel] up colon
    by (simp add: ResolvePath_def Let_def del: path_of_simps)
  have rel: "up ?k @ up i @ tl (path_of names) = concat (replicate (?k + i) ''../'') @ tl (path_of names)"
    unfolding up_def replicate_add concat_append append_assoc ..
  have "sv_find_str ''://'' (up ?k @ up i @ tl (path_of names)) = None"
    using up(1) colon by (intro no_scheme) simp
  then have "ResolvePath base (up ?k @ up i @ tl (path_of names)) = ?org @ path_of (take (length segs - (?k + i)) segs @ names)"
    unfolding base_def by (intro resolve_segments [OF assms(1-3) _ rel]) simp_all
  then show "ResolvePath base (up ?k @ up i @ tl (path_of names)) = ?org @ path_of names" by simp
qed

text \<open>a base whose host is a single dot loses it, and the first segment of the reference becomes the host.\<close>

theorem ResolvePath_dot_host: "ResolvePath ''http://./'' ''evil.com/x'' = ''http://evil.com/x''"
  by code_simp

lemma UrlDirectory_path:
  assumes "CHR ''?'' \<notin> set dir" "CHR ''#'' \<notin> set dir" "CHR ''?'' \<notin> set file" "CHR ''#'' \<notin> set file"
    "CHR ''/'' \<notin> set file" "suffix = [] \<or> hd suffix = CHR ''?'' \<or> hd suffix = CHR ''#''"
  shows "UrlDirectory (dir @ CHR ''/'' # file @ suffix) = dir @ ''/''"
proof -
  let ?p = "dir @ CHR ''/'' # file"
  have none: "CHR ''?'' \<notin> set ?p" "CHR ''#'' \<notin> set ?p" using assms(1-4) by simp_all
  have "before (sv_find (CHR ''#'') u) u = ?p" if "u = before (sv_find (CHR ''?'') (?p @ suffix)) (?p @ suffix)" for u
  proof (cases suffix)
    case Nil
    then show ?thesis using that before_notin [OF none(1)] before_notin [OF none(2)] by simp
  next
    case (Cons c r)
    consider "c = CHR ''?''" | "c = CHR ''#''" using assms(6) Cons by auto
    then show ?thesis
    proof cases
      case 1
      then show ?thesis using that none Cons before_append_Cons [OF none(1), of r] before_notin [OF none(2)] by simp
    next
      case 2
      have "\<exists>v. u = ?p @ c # v"
        using that none 2 Cons by (cases "sv_find (CHR ''?'') r") (auto simp: sv_find_append sv_find_notin)
      then show ?thesis using before_append_Cons [OF none(2)] 2 by auto
    qed
  qed
  then show ?thesis
    using sv_rfind_last [OF assms(5), of dir] by (simp add: UrlDirectory_def Let_def)
qed

section \<open>Examples\<close>

theorem ResolvePath_segments_witness:
  "ResolvePath (origin_text ''https'' ''h'' @ path_of [''a'', ''b''] @ ''/'') ''../c/d.css'' =
    origin_text ''https'' ''h'' @ path_of (take (length [''a'', ''b''] - 1) [''a'', ''b''] @ [''c'', ''d.css''])"
  by (rule ResolvePath_segments [where k = 1]) (simp_all add: plain_segment_def starts_with_def)

theorem ResolvePath_climbs_above_root_witness:
  "ResolvePath (origin_text ''https'' ''h'' @ path_of [''css''] @ ''/'') ''../.././../etc/passwd'' =
     origin_text ''https'' ''h'' @ ''/../etc/passwd'' \<and>
   ResolvePath (origin_text ''https'' ''h'' @ path_of [''css''] @ ''/'') ''../../../etc/passwd'' =
     origin_text ''https'' ''h'' @ ''/etc/passwd''"
  using ResolvePath_climbs_above_root [of "''https''" "''h''" "[''css'']" "[''etc'', ''passwd'']" 0 1]
  by (simp add: plain_segment_def numeral_eq_Suc)

theorem ResolvePath_keeps_origin_witness:
  "starts_with (origin_text ''https'' ''h'' @ ''/'') (ResolvePath (origin_text ''https'' ''h'' @ CHR ''/'' # ''a/'') ''../../x'') \<and>
   UrlHostname (ResolvePath (origin_text ''https'' ''h'' @ CHR ''/'' # ''a/'') ''../../x'') =
     UrlHostname (origin_text ''https'' ''h'' @ CHR ''/'' # ''a/'') \<and>
   sv_find_str ''/./'' (ResolvePath (origin_text ''https'' ''h'' @ CHR ''/'' # ''a/'') ''../../x'') = None"
  by (rule ResolvePath_keeps_origin) (simp_all add: starts_with_def)

end
