(* ===== verification/Subresource_Gate.thy ===== *)
theory Subresource_Gate
  imports Url_Normalizer Alternate_Metadata State_Machine "HOL-Library.AList"
begin

text \<open>
  The gate on sub-resources: \<open>src/worker/subresource_gate.cc\<close>.  \<open>Check\<close> takes the mutex twice, once to look into
  the memo and once to store an answer, and asks the site in between, so the two critical sections are separate
  steps of the machine and other threads may run between them.  The memo is an association list; its order is
  never observed.  The HEAD function, the clock and the hook of the test suites are arguments, \<open>None\<close> where the
  code tests for an empty function.  The requests a \<open>Check\<close> sends are part of its result.  Clock values are
  integers: milliseconds since boot are far from the 64-bit bound.
\<close>

section \<open>The gate\<close>

datatype SubresourceVerdict = kAdmitted | kRefused | kUnknown_verdict

record SubresourceRead =
  sb_site :: string
  sb_scheme :: string
  sb_host :: string
  sb_url :: string
  sb_page_host :: string
  sb_host_fetch_allowed :: bool
  sb_entry_read :: bool
  sb_entry_flags :: u8
  sb_entry_site :: string

record GateOptions =
  go_admitted_ttl_ms :: int
  go_refused_ttl_ms :: int
  go_max_entries :: nat

record GateEntry =
  ge_verdict :: SubresourceVerdict
  ge_expires_at_ms :: int

record SubresourceGate =
  sg_options :: GateOptions
  sg_memo :: "(string \<times> GateEntry) list"
  sg_heads_sent :: u64
  sg_refusals :: u64

text \<open>A request the gate sent, with the parts its URL was built from and the answer.\<close>

record Ask =
  ak_site :: string
  ak_scheme :: string
  ak_host :: string
  ak_url :: string
  ak_status :: "int option"
  ak_time :: int

definition SubresourceGate_new :: "GateOptions \<Rightarrow> SubresourceGate" where
  "SubresourceGate_new options = \<lparr>sg_options = options, sg_memo = [], sg_heads_sent = 0, sg_refusals = 0\<rparr>"

definition MemoKey :: "string \<Rightarrow> string \<Rightarrow> string \<Rightarrow> string \<Rightarrow> string" where
  "MemoKey site scheme host url = site @ CHR 0x0A # scheme @ CHR 0x0A # host @ CHR 0x0A # url"

definition anonymous_recorded :: "SubresourceRead \<Rightarrow> bool" where
  "anonymous_recorded read \<longleftrightarrow>
     \<not> sb_host_fetch_allowed read \<and> sb_entry_read read \<and>
     sb_entry_flags read AND kFlagAnonymousRecorded \<noteq> 0 \<and> sb_entry_site read = sb_site read"

text \<open>The scheme and the host to ask, for a read whose URL is a path.\<close>

definition read_target :: "SubresourceRead \<Rightarrow> (string \<times> string) option" where
  "read_target read =
     (let url = sb_url read
      in if url = [] \<or> hd url \<noteq> CHR ''/'' \<or> (length url > 1 \<and> url ! 1 = CHR ''/'') then None
         else
           (let host = NormalizeHostname (sb_host read)
            in if host = [] then None
               else
                 (let scheme = (if sb_scheme read = [] then ''https'' else sb_scheme read)
                  in if scheme \<noteq> ''https'' \<and> scheme \<noteq> ''http'' then None else Some (scheme, host))))"

definition memo_lookup :: "string \<Rightarrow> int \<Rightarrow> SubresourceGate \<Rightarrow> SubresourceVerdict option \<times> SubresourceGate" where
  "memo_lookup key now g =
     (case map_of (sg_memo g) key of
        None \<Rightarrow> (None, g)
      | Some e \<Rightarrow>
          if now < ge_expires_at_ms e then (Some (ge_verdict e), g)
          else (None, g\<lparr>sg_memo := AList.delete key (sg_memo g)\<rparr>))"

definition head_verdict :: "int option \<Rightarrow> SubresourceVerdict" where
  "head_verdict status =
     (case status of None \<Rightarrow> kUnknown_verdict | Some code \<Rightarrow> if code = 200 then kAdmitted else kRefused)"

definition verdict_ttl :: "GateOptions \<Rightarrow> SubresourceVerdict \<Rightarrow> int" where
  "verdict_ttl options verdict =
     (if verdict = kAdmitted then go_admitted_ttl_ms options else go_refused_ttl_ms options)"

definition make_room :: "nat \<Rightarrow> int \<Rightarrow> (string \<times> GateEntry) list \<Rightarrow> (string \<times> GateEntry) list" where
  "make_room max_entries now memo =
     (if length memo \<ge> max_entries then
        (let memo = filter (\<lambda>entry. \<not> now \<ge> ge_expires_at_ms (snd entry)) memo
         in if length memo \<ge> max_entries then [] else memo)
      else memo)"

definition memo_store :: "string \<Rightarrow> SubresourceVerdict \<Rightarrow> int \<Rightarrow> SubresourceGate \<Rightarrow> SubresourceGate" where
  "memo_store key verdict now g =
     (let ttl = verdict_ttl (sg_options g) verdict
      in g\<lparr>sg_heads_sent := sg_heads_sent g + 1,
           sg_refusals := (if verdict \<noteq> kAdmitted then sg_refusals g + 1 else sg_refusals g),
           sg_memo := AList.update key \<lparr>ge_verdict = verdict, ge_expires_at_ms = now + ttl\<rparr>
             (make_room (go_max_entries (sg_options g)) now (sg_memo g))\<rparr>)"

definition Check ::
  "(SubresourceRead \<Rightarrow> SubresourceVerdict option) option \<Rightarrow> (string \<Rightarrow> string \<Rightarrow> int option) option \<Rightarrow> int option \<Rightarrow>
   SubresourceRead \<Rightarrow> bool \<Rightarrow> SubresourceGate \<Rightarrow> SubresourceVerdict \<times> SubresourceGate \<times> Ask list" where
  "Check hook head clock read may_fetch g0 =
     (case (case hook of None \<Rightarrow> None | Some f \<Rightarrow> f read) of
        Some forced \<Rightarrow> (forced, g0, [])
      | None \<Rightarrow>
          if anonymous_recorded read then (kAdmitted, g0, [])
          else
            (case read_target read of
               None \<Rightarrow> (kUnknown_verdict, g0, [])
             | Some (scheme, host) \<Rightarrow>
                 (let key = MemoKey (sb_site read) scheme host (sb_url read);
                      now = (case clock of None \<Rightarrow> 0 | Some t \<Rightarrow> t);
                      (hit, g) = memo_lookup key now g0
                  in case hit of
                       Some verdict \<Rightarrow> (verdict, g, [])
                     | None \<Rightarrow>
                         (case head of
                            None \<Rightarrow> (kUnknown_verdict, g, [])
                          | Some head_fn \<Rightarrow>
                              if \<not> may_fetch \<or> \<not> sb_host_fetch_allowed read \<or>
                                 host \<noteq> NormalizeHostname (sb_page_host read)
                              then (kUnknown_verdict, g, [])
                              else
                                (let origin = scheme @ ''://'' @ host; absolute_url = origin @ sb_url read;
                                     status = head_fn origin absolute_url; verdict = head_verdict status
                                 in (verdict, memo_store key verdict now g,
                                     [\<lparr>ak_site = sb_site read, ak_scheme = scheme, ak_host = host,
                                       ak_url = sb_url read, ak_status = status, ak_time = now\<rparr>]))))))"

section \<open>The machine\<close>

definition plain_ask :: "Ask \<Rightarrow> bool" where
  "plain_ask a \<longleftrightarrow> CHR 0x0A \<notin> set (ak_site a) \<and> CHR 0x0A \<notin> set (ak_host a) \<and> ak_scheme a \<in> {''http'', ''https''}"

definition ask_key :: "Ask \<Rightarrow> string" where
  "ask_key a = MemoKey (ak_site a) (ak_scheme a) (ak_host a) (ak_url a)"

text \<open>The two critical sections, in any order and for any keys; the second logs the request it stores.\<close>

inductive gate_step :: "SubresourceGate \<times> Ask list \<Rightarrow> SubresourceGate \<times> Ask list \<Rightarrow> bool" where
  gate_lookup: "gate_step (g, log) (snd (memo_lookup key now g), log)"
| gate_store: "plain_ask a \<Longrightarrow> gate_step (g, log) (memo_store (ask_key a) (head_verdict (ak_status a)) (ak_time a) g, a # log)"

text \<open>
  Calm steps up to a time: what the threads may do in the meantime that does not concern a key.  Lookups are for any
  key; a store is for another key, at a moment when the entries that have not expired do not fill the memo (otherwise
  the store empties it).
\<close>

inductive calm_step :: "int \<Rightarrow> string \<Rightarrow> SubresourceGate \<times> Ask list \<Rightarrow> SubresourceGate \<times> Ask list \<Rightarrow> bool"
  for until :: int and key :: string where
  calm_lookup: "t \<le> until \<Longrightarrow> calm_step until key (g, log) (snd (memo_lookup k t g), log)"
| calm_store: "plain_ask a \<Longrightarrow> ask_key a \<noteq> key \<Longrightarrow> ak_time a \<le> until \<Longrightarrow>
    length (filter (\<lambda>entry. ak_time a < ge_expires_at_ms (snd entry)) (sg_memo g)) < go_max_entries (sg_options g) \<Longrightarrow>
    calm_step until key (g, log) (memo_store (ask_key a) (head_verdict (ak_status a)) (ak_time a) g, a # log)"

definition justified :: "GateOptions \<Rightarrow> Ask list \<Rightarrow> string \<Rightarrow> GateEntry \<Rightarrow> bool" where
  "justified options log key e \<longleftrightarrow>
     (\<exists>a \<in> set log. ask_key a = key \<and> ge_verdict e = head_verdict (ak_status a) \<and>
        ge_expires_at_ms e = ak_time a + verdict_ttl options (ge_verdict e))"

definition gate_ok :: "SubresourceGate \<times> Ask list \<Rightarrow> bool" where
  "gate_ok s \<longleftrightarrow>
     (let g = fst s; log = snd s
      in distinct (map fst (sg_memo g)) \<and> length (sg_memo g) \<le> max 1 (go_max_entries (sg_options g)) \<and>
         list_all plain_ask log \<and> sg_heads_sent g = of_nat (length log) \<and>
         sg_refusals g = of_nat (length (filter (\<lambda>a. ak_status a \<noteq> Some 200) log)) \<and>
         (\<forall>key e. (key, e) \<in> set (sg_memo g) \<longrightarrow> justified (sg_options g) log key e))"

section \<open>Lemmas\<close>

lemma split_at_newline:
  "CHR 0x0A \<notin> set a \<Longrightarrow> CHR 0x0A \<notin> set b \<Longrightarrow> a @ CHR 0x0A # s = b @ CHR 0x0A # t \<longleftrightarrow> a = b \<and> s = t"
proof (induction a arbitrary: b)
  case Nil
  then show ?case by (cases b) auto
next
  case (Cons x a)
  then show ?case by (cases b) auto
qed

lemma MemoKey_inj:
  assumes "plain_ask a" "plain_ask b" "ask_key a = ask_key b"
  shows "ak_site a = ak_site b \<and> ak_scheme a = ak_scheme b \<and> ak_host a = ak_host b \<and> ak_url a = ak_url b"
proof -
  have "CHR 0x0A \<notin> set (ak_scheme a)" "CHR 0x0A \<notin> set (ak_scheme b)"
    using assms(1,2) by (auto simp: plain_ask_def)
  then show ?thesis
    using assms unfolding plain_ask_def ask_key_def MemoKey_def
    by (simp add: split_at_newline)
qed

lemma head_verdict_admitted: "head_verdict status = kAdmitted \<longleftrightarrow> status = Some 200"
  by (auto simp: head_verdict_def split: option.splits)

lemma make_room_subset: "set (make_room n now memo) \<subseteq> set memo"
  by (auto simp: make_room_def Let_def)

lemma make_room_length: "length (make_room n now memo) \<le> n - 1"
  by (auto simp: make_room_def Let_def not_le)

lemma make_room_distinct: "distinct (map fst memo) \<Longrightarrow> distinct (map fst (make_room n now memo))"
  by (auto simp: make_room_def Let_def distinct_map_filter)

lemma length_update: "length (AList.update k v al) \<le> Suc (length al)"
  by (induction al) auto

lemma set_update_subset: "set (AList.update k v al) \<subseteq> insert (k, v) (set al)"
  by (induction al) auto

lemma gate_lookup_ok:
  assumes "gate_ok (g, log)" shows "gate_ok (snd (memo_lookup key now g), log)"
proof (cases "map_of (sg_memo g) key")
  case None
  then show ?thesis using assms by (simp add: memo_lookup_def)
next
  case (Some e)
  have "length (AList.delete key (sg_memo g)) \<le> length (sg_memo g)"
    by (simp add: AList.delete_eq)
  moreover have "set (AList.delete key (sg_memo g)) \<subseteq> set (sg_memo g)"
    by (auto simp: AList.delete_eq)
  ultimately show ?thesis
    using assms Some by (auto simp: memo_lookup_def gate_ok_def Let_def distinct_delete dest: order_trans)
qed

lemma gate_store_ok:
  assumes "gate_ok (g, log)" "plain_ask a"
  shows "gate_ok (memo_store (ask_key a) (head_verdict (ak_status a)) (ak_time a) g, a # log)"
proof -
  let ?n = "go_max_entries (sg_options g)" and ?v = "head_verdict (ak_status a)"
  let ?room = "make_room ?n (ak_time a) (sg_memo g)"
  let ?e = "\<lparr>ge_verdict = ?v, ge_expires_at_ms = ak_time a + verdict_ttl (sg_options g) ?v\<rparr>"
  have new: "justified (sg_options g) (a # log) (ask_key a) ?e" by (auto simp: justified_def)
  have old: "justified (sg_options g) (a # log) k e" if "(k, e) \<in> set ?room" for k e
    using assms(1) make_room_subset [of ?n "ak_time a" "sg_memo g"] that
    by (auto simp: gate_ok_def Let_def justified_def)
  have "justified (sg_options g) (a # log) k e" if "(k, e) \<in> set (AList.update (ask_key a) ?e ?room)" for k e
    using set_update_subset [of "ask_key a" ?e ?room] that new old by auto
  moreover have "length (AList.update (ask_key a) ?e ?room) \<le> max 1 ?n"
    using length_update [of "ask_key a" ?e ?room] make_room_length [of ?n "ak_time a" "sg_memo g"] by linarith
  moreover have "distinct (map fst (AList.update (ask_key a) ?e ?room))"
    using assms(1) make_room_distinct by (simp add: gate_ok_def Let_def distinct_update)
  ultimately show ?thesis
    using assms by (simp add: gate_ok_def memo_store_def Let_def head_verdict_admitted)
qed

interpretation gate: invariant_machine "\<lambda>s. \<exists>options. s = (SubresourceGate_new options, [])" gate_step gate_ok
proof
  show "gate_ok s" if "\<exists>options. s = (SubresourceGate_new options, [])" for s
    using that by (auto simp: gate_ok_def SubresourceGate_new_def)
  show "gate_ok t" if "gate_ok s" "gate_step s t" for s t
    using that(2,1) by cases (auto intro: gate_lookup_ok gate_store_ok)
qed


text \<open>The read a request is sent for, without newlines in the two free parts of the key.\<close>

definition read_ask :: "SubresourceRead \<Rightarrow> string \<times> string \<Rightarrow> int option \<Rightarrow> int \<Rightarrow> Ask" where
  "read_ask read target status now =
     \<lparr>ak_site = sb_site read, ak_scheme = fst target, ak_host = snd target, ak_url = sb_url read,
      ak_status = status, ak_time = now\<rparr>"

definition plain_read :: "SubresourceRead \<Rightarrow> bool" where
  "plain_read read \<longleftrightarrow> CHR 0x0A \<notin> set (sb_site read) \<and> CHR 0x0A \<notin> set (NormalizeHostname (sb_host read))"

lemma read_target_Some:
  "read_target read = Some target \<Longrightarrow> snd target = NormalizeHostname (sb_host read) \<and> fst target \<in> {''http'', ''https''}"
  by (auto simp: read_target_def Let_def split: if_splits)

lemma plain_read_ask: "plain_read read \<Longrightarrow> read_target read = Some target \<Longrightarrow> plain_ask (read_ask read target status now)"
  by (drule read_target_Some) (auto simp: plain_read_def plain_ask_def read_ask_def)

definition read_key :: "SubresourceRead \<Rightarrow> string \<times> string \<Rightarrow> string" where
  "read_key read target = MemoKey (sb_site read) (fst target) (snd target) (sb_url read)"

lemma ask_key_read [simp]: "ask_key (read_ask read target status now) = read_key read target"
  by (simp add: ask_key_def read_ask_def read_key_def)

text \<open>The four ways a check without a hook ends.\<close>

lemma Check_cases:
  obtains (recorded) "anonymous_recorded read" "Check None head (Some now) read may_fetch g = (kAdmitted, g, [])"
  | (no_target) "\<not> anonymous_recorded read" "read_target read = None"
      "Check None head (Some now) read may_fetch g = (kUnknown_verdict, g, [])"
  | (hit) target e where "\<not> anonymous_recorded read" "read_target read = Some target"
      "map_of (sg_memo g) (read_key read target) = Some e" "now < ge_expires_at_ms e"
      "Check None head (Some now) read may_fetch g = (ge_verdict e, g, [])"
  | (silent) target where "\<not> anonymous_recorded read" "read_target read = Some target"
      "Check None head (Some now) read may_fetch g = (kUnknown_verdict, snd (memo_lookup (read_key read target) now g), [])"
  | (asked) target head_fn status where "\<not> anonymous_recorded read" "read_target read = Some target"
      "head = Some head_fn" "may_fetch" "sb_host_fetch_allowed read" "snd target = NormalizeHostname (sb_page_host read)"
      "status = head_fn (fst target @ ''://'' @ snd target) (fst target @ ''://'' @ snd target @ sb_url read)"
      "Check None head (Some now) read may_fetch g =
         (head_verdict status,
          memo_store (read_key read target) (head_verdict status) now (snd (memo_lookup (read_key read target) now g)),
          [read_ask read target status now])"
proof (cases "anonymous_recorded read")
  case True
  then show ?thesis using recorded by (simp add: Check_def)
next
  case False
  show ?thesis
  proof (cases "read_target read")
    case None
    then show ?thesis using no_target False by (simp add: Check_def)
  next
    case (Some target)
    obtain scheme host where t: "target = (scheme, host)" by (cases target)
    let ?key = "MemoKey (sb_site read) scheme host (sb_url read)"
    obtain hit g' where l: "memo_lookup ?key now g = (hit, g')" by (cases "memo_lookup ?key now g")
    show ?thesis
    proof (cases hit)
      case h: (Some v)
      then have "\<exists>e. map_of (sg_memo g) ?key = Some e \<and> now < ge_expires_at_ms e \<and> ge_verdict e = v \<and> g' = g"
        using l by (auto simp: memo_lookup_def split: option.splits if_splits)
      then show ?thesis using hit [OF False Some] l h Some False
        by (auto simp: t read_key_def Check_def)
    next
      case h: None
      show ?thesis
      proof (cases "\<exists>f. head = Some f \<and> may_fetch \<and> sb_host_fetch_allowed read \<and> host = NormalizeHostname (sb_page_host read)")
        case True
        then obtain f where "head = Some f" "may_fetch" "sb_host_fetch_allowed read" "host = NormalizeHostname (sb_page_host read)"
          by blast
        then show ?thesis using asked [OF False Some, of f] l h Some False
          by (simp add: t Check_def read_key_def read_ask_def Let_def)
      next
        case no: False
        then show ?thesis using silent [OF False Some] l h Some False
          by (cases head) (auto simp: t Check_def read_key_def Let_def)
      qed
    qed
  qed
qed

lemma Check_run:
  assumes "plain_read read" "Check None head (Some now) read may_fetch g = (v, g', asks)"
  shows "gate_step\<^sup>*\<^sup>* (g, log) (g', asks @ log)"
proof (rule Check_cases [of read head now may_fetch g])
  fix target assume c: "Check None head (Some now) read may_fetch g =
      (kUnknown_verdict, snd (memo_lookup (read_key read target) now g), [])"
  have "gate_step (g, log) (snd (memo_lookup (read_key read target) now g), log)" by (rule gate_lookup)
  then show ?thesis using assms(2) c by auto
next
  fix target head_fn status
  assume t: "read_target read = Some target"
    and c: "Check None head (Some now) read may_fetch g =
      (head_verdict status,
       memo_store (read_key read target) (head_verdict status) now (snd (memo_lookup (read_key read target) now g)),
       [read_ask read target status now])"
  let ?a = "read_ask read target status now" and ?g = "snd (memo_lookup (read_key read target) now g)"
  have "gate_step (g, log) (?g, log)" by (rule gate_lookup)
  moreover have "gate_step (?g, log) (memo_store (ask_key ?a) (head_verdict (ak_status ?a)) (ak_time ?a) ?g, ?a # log)"
    by (rule gate_store [OF plain_read_ask [OF assms(1) t]])
  ultimately show ?thesis using assms(2) c by (auto simp: read_ask_def [symmetric])
       (simp add: read_ask_def)
qed (use assms(2) in auto)

section \<open>Entries that survive\<close>

lemma map_of_filter_Some: "map_of xs k = Some e \<Longrightarrow> P (k, e) \<Longrightarrow> map_of (filter P xs) k = Some e"
  by (induction xs) (auto split: if_splits)

lemma make_room_keeps:
  assumes "map_of memo key = Some e" "now < ge_expires_at_ms e"
    and "length (filter (\<lambda>entry. now < ge_expires_at_ms (snd entry)) memo) < max_entries"
  shows "map_of (make_room max_entries now memo) key = Some e"
  using assms map_of_filter_Some [of memo key e "\<lambda>entry. now < ge_expires_at_ms (snd entry)"]
  by (simp add: make_room_def not_le)

lemma calm_step_keeps:
  assumes "calm_step until key s s'" "map_of (sg_memo (fst s)) key = Some e" "until < ge_expires_at_ms e"
  shows "map_of (sg_memo (fst s')) key = Some e"
  using assms
proof cases
  case (calm_lookup t g log k)
  with assms(2,3) show ?thesis
    by (cases "k = key") (auto simp: memo_lookup_def delete_conv' split: option.split)
next
  case (calm_store a g log)
  with assms(2,3) have "map_of (make_room (go_max_entries (sg_options g)) (ak_time a) (sg_memo g)) key = Some e"
    by (intro make_room_keeps) auto
  with calm_store show ?thesis by (simp add: memo_store_def Let_def update_conv')
qed

lemma calm_steps_keep:
  assumes "(calm_step until key)\<^sup>*\<^sup>* s s'" "map_of (sg_memo (fst s)) key = Some e" "until < ge_expires_at_ms e"
  shows "map_of (sg_memo (fst s')) key = Some e"
  using assms by (induction rule: rtranclp_induct) (auto intro: calm_step_keeps)

lemma calm_step_gate_step: "calm_step until key s s' \<Longrightarrow> gate_step s s'"
  by (erule calm_step.cases) (auto intro: gate_step.intros)

section \<open>Properties\<close>

text \<open>
  C12: in every state the threads can reach, the memo has one entry per key, at most the configured number of
  entries (one, when that is zero), the counters count the requests sent and those not answered 200, and every
  entry repeats the answer of a request logged under its key, with the lifetime its verdict has.
\<close>

theorem gate_invariant:
  assumes "gate_step\<^sup>*\<^sup>* (SubresourceGate_new options, []) (g, log)"
  shows "distinct (map fst (sg_memo g)) \<and> length (sg_memo g) \<le> max 1 (go_max_entries (sg_options g)) \<and>
    sg_heads_sent g = of_nat (length log) \<and>
    sg_refusals g = of_nat (length (filter (\<lambda>a. ak_status a \<noteq> Some 200) log)) \<and>
    (\<forall>key e. map_of (sg_memo g) key = Some e \<longrightarrow>
       (\<exists>a \<in> set log. ask_key a = key \<and> ge_verdict e = head_verdict (ak_status a) \<and>
          ge_expires_at_ms e = ak_time a + verdict_ttl (sg_options g) (ge_verdict e)))"
proof -
  have "gate_ok (g, log)" by (rule gate.reachable_inv [OF _ assms]) blast
  then show ?thesis by (auto simp: gate_ok_def justified_def Let_def dest: map_of_SomeD)
qed

text \<open>
  C3: a sub-resource is admitted only on evidence: the front end recorded it from an anonymous exchange in the
  page's own site and the host may not be asked, or a request for exactly this URL of this site was answered
  200, either by this check or by an earlier one whose lifetime has not passed.
\<close>

theorem Check_admitted:
  assumes "gate_step\<^sup>*\<^sup>* (SubresourceGate_new options, []) (g, log)" "plain_read read"
    and "Check None head (Some now) read may_fetch g = (kAdmitted, g', asks)"
  shows "anonymous_recorded read \<or>
    (\<exists>a \<in> set (asks @ log). ak_site a = sb_site read \<and> read_target read = Some (ak_scheme a, ak_host a) \<and>
       ak_url a = sb_url read \<and> ak_status a = Some 200 \<and>
       (a \<in> set asks \<or> now < ak_time a + go_admitted_ttl_ms (sg_options g)))"
proof (rule Check_cases [of read head now may_fetch g])
  fix target e
  assume t: "read_target read = Some target" and e: "map_of (sg_memo g) (read_key read target) = Some e"
    "now < ge_expires_at_ms e" and c: "Check None head (Some now) read may_fetch g = (ge_verdict e, g, [])"
  have ok: "gate_ok (g, log)" by (rule gate.reachable_inv [OF _ assms(1)]) blast
  then have "justified (sg_options g) log (read_key read target) e"
    using map_of_SomeD [OF e(1)] by (simp add: gate_ok_def Let_def)
  then obtain a where a: "a \<in> set log" "ask_key a = read_key read target" "ge_verdict e = head_verdict (ak_status a)"
      "ge_expires_at_ms e = ak_time a + verdict_ttl (sg_options g) (ge_verdict e)"
    unfolding justified_def by blast
  have "plain_ask a" using ok a(1) by (auto simp: gate_ok_def Let_def list_all_iff)
  with MemoKey_inj [OF this plain_read_ask [OF assms(2) t, of None 0]] a(2)
  have "ak_site a = sb_site read" "ak_scheme a = fst target" "ak_host a = snd target" "ak_url a = sb_url read"
    by (simp_all add: read_ask_def flip: ask_key_read [of read target None 0])
  moreover have "ge_verdict e = kAdmitted" using c assms(3) by simp
  ultimately show ?thesis
    using t a e(2) by (intro disjI2 bexI [of _ a]) (auto simp: verdict_ttl_def head_verdict_admitted)
next
  fix target status
  assume "read_target read = Some target"
    and "Check None head (Some now) read may_fetch g =
      (head_verdict status,
       memo_store (read_key read target) (head_verdict status) now (snd (memo_lookup (read_key read target) now g)),
       [read_ask read target status now])"
  moreover from this assms(3) have "status = Some 200" by (simp flip: head_verdict_admitted)
  ultimately show ?thesis using assms(3) by (auto simp: read_ask_def)
qed (use assms(3) in auto)

text \<open>
  a check sends at most one request, only when it may, and only to the host of the page.
\<close>

theorem Check_asks_page_host:
  "list_all (\<lambda>a. may_fetch \<and> sb_host_fetch_allowed read \<and> ak_host a = NormalizeHostname (sb_page_host read) \<and>
       ak_host a = NormalizeHostname (sb_host read) \<and> ak_scheme a \<in> {''http'', ''https''} \<and> ak_url a = sb_url read)
     (snd (snd (Check None head (Some now) read may_fetch g))) \<and>
   length (snd (snd (Check None head (Some now) read may_fetch g))) \<le> 1"
proof (rule Check_cases [of read head now may_fetch g])
  fix target status
  assume "read_target read = Some target" "may_fetch" "sb_host_fetch_allowed read"
    "snd target = NormalizeHostname (sb_page_host read)"
    "Check None head (Some now) read may_fetch g =
      (head_verdict status,
       memo_store (read_key read target) (head_verdict status) now (snd (memo_lookup (read_key read target) now g)),
       [read_ask read target status now])"
  then show ?thesis using read_target_Some [of read target] by (simp add: read_ask_def)
qed simp_all

text \<open>
  C14: an answer is remembered.  After a check that asked, the threads may look up any key and store answers for other
  keys, in any number and order, as long as the entries that have not expired leave room; until the lifetime of
  the answer has passed, a check of the same read still returns the same verdict, without a request and without a
  change of the gate, from a thread that may not fetch as well.
\<close>

theorem Check_remembers:
  assumes "Check None head (Some now) read may_fetch g = (v, g', asks)" "asks \<noteq> []"
    and "(calm_step later (ask_key (hd asks)))\<^sup>*\<^sup>* (g', log) (g'', log'')"
    and "later < now + verdict_ttl (sg_options g) v"
  shows "Check None head' (Some later) read may_fetch' g'' = (v, g'', [])"
proof (rule Check_cases [of read head now may_fetch g])
  fix target status
  assume t: "\<not> anonymous_recorded read" "read_target read = Some target"
    and c: "Check None head (Some now) read may_fetch g =
      (head_verdict status,
       memo_store (read_key read target) (head_verdict status) now (snd (memo_lookup (read_key read target) now g)),
       [read_ask read target status now])"
  let ?e = "\<lparr>ge_verdict = v, ge_expires_at_ms = now + verdict_ttl (sg_options g) v\<rparr>"
  have "sg_options (snd (memo_lookup key now g)) = sg_options g" for key
    by (auto simp: memo_lookup_def split: option.split)
  then have "map_of (sg_memo g') (read_key read target) = Some ?e"
    using assms(1) c by (auto simp: memo_store_def update_conv')
  moreover have "ask_key (hd asks) = read_key read target" using assms(1) c by auto
  ultimately have "map_of (sg_memo g'') (read_key read target) = Some ?e"
    using calm_steps_keep [OF assms(3), of ?e] assms(4) by simp
  then have "memo_lookup (read_key read target) later g'' = (Some v, g'')"
    using assms(4) by (simp add: memo_lookup_def)
  with t show ?thesis by (cases target) (simp add: Check_def read_key_def)
qed (use assms(1,2) in auto)

section \<open>Examples\<close>

definition sample_read :: SubresourceRead where
  "sample_read = \<lparr>sb_site = ''s'', sb_scheme = [], sb_host = ''h'', sb_url = ''/a.css'', sb_page_host = ''h'',
     sb_host_fetch_allowed = True, sb_entry_read = False, sb_entry_flags = 0, sb_entry_site = []\<rparr>"

definition sample_gate :: SubresourceGate where
  "sample_gate = SubresourceGate_new \<lparr>go_admitted_ttl_ms = 300000, go_refused_ttl_ms = 60000, go_max_entries = 8192\<rparr>"

definition sample_head :: "string \<Rightarrow> string \<Rightarrow> int option" where
  "sample_head origin url = (if url = ''https://h/a.css'' then Some 200 else None)"

definition sample_ask :: Ask where
  "sample_ask = \<lparr>ak_site = ''s'', ak_scheme = ''https'', ak_host = ''h'', ak_url = ''/a.css'', ak_status = Some 200, ak_time = 5\<rparr>"

lemma sample_target: "read_target sample_read = Some (''https'', ''h'')" "\<not> anonymous_recorded sample_read" "plain_read sample_read"
  by code_simp+


lemma sample_host: "NormalizeHostname ''h'' = ''h''"
  by code_simp

lemma sample_check:
  "Check None (Some sample_head) (Some 5) sample_read True sample_gate =
     (kAdmitted, memo_store (ask_key sample_ask) kAdmitted 5 sample_gate, [sample_ask])"
  using sample_target(1,2)
  by (simp add: Check_def memo_lookup_def ask_key_def sample_ask_def)
     (simp add: sample_read_def sample_gate_def SubresourceGate_new_def sample_host sample_head_def head_verdict_def Let_def)

lemma memo_store_nonempty: "sg_memo (memo_store key v now g) \<noteq> []"
proof -
  have "AList.update k e al \<noteq> []" for k :: string and e :: GateEntry and al by (cases al) auto
  then show ?thesis by (simp add: memo_store_def Let_def)
qed

theorem gate_invariant_witness:
  "\<exists>g log. gate_step\<^sup>*\<^sup>* (sample_gate, []) (g, log) \<and> sg_memo g \<noteq> [] \<and>
     distinct (map fst (sg_memo g)) \<and> length (sg_memo g) \<le> max 1 (go_max_entries (sg_options g)) \<and>
     sg_heads_sent g = of_nat (length log)"
proof -
  let ?g = "memo_store (ask_key sample_ask) kAdmitted 5 sample_gate"
  have run: "gate_step\<^sup>*\<^sup>* (sample_gate, []) (?g, [sample_ask])"
    using Check_run [OF sample_target(3) sample_check, of "[]"] by simp
  have "sg_memo ?g \<noteq> []" by (rule memo_store_nonempty)
  then show ?thesis using run gate_invariant [OF run [unfolded sample_gate_def], folded sample_gate_def] by blast
qed

theorem Check_admitted_witness:
  "\<exists>g' asks. Check None (Some sample_head) (Some 5) sample_read True sample_gate = (kAdmitted, g', asks) \<and>
     (\<exists>a \<in> set asks. ak_site a = ''s'' \<and> ak_url a = ''/a.css'' \<and> ak_status a = Some 200)"
  using Check_admitted [OF rtranclp.rtrancl_refl sample_target(3) sample_check [unfolded sample_gate_def]] sample_check
    sample_target(2) by (auto simp: sample_read_def)

definition other_ask :: Ask where
  "other_ask = \<lparr>ak_site = ''s'', ak_scheme = ''https'', ak_host = ''h'', ak_url = ''/b.css'', ak_status = Some 404, ak_time = 50\<rparr>"

theorem Check_remembers_witness:
  "\<exists>g'. Check None None (Some 100) sample_read False g' = (kAdmitted, g', []) \<and> sg_heads_sent g' = 2"
proof -
  let ?g = "memo_store (ask_key sample_ask) kAdmitted 5 sample_gate"
  let ?g' = "memo_store (ask_key other_ask) (head_verdict (ak_status other_ask)) (ak_time other_ask) ?g"
  have keys: "plain_ask other_ask" "ask_key other_ask \<noteq> ask_key sample_ask" by code_simp+
  have options: "sg_options ?g = sg_options sample_gate" "length (sg_memo ?g) = 1"
    by (simp_all add: memo_store_def sample_gate_def SubresourceGate_new_def Let_def make_room_def)
  have "length (filter P (sg_memo ?g)) < go_max_entries (sg_options ?g)" for P
    using length_filter_le [of P "sg_memo ?g"] unfolding options
    by (simp add: sample_gate_def SubresourceGate_new_def)
  then have "calm_step 100 (ask_key (hd [sample_ask])) (?g, [sample_ask]) (?g', [other_ask, sample_ask])"
    using keys by (intro calm_store) (simp_all add: other_ask_def)
  then have "Check None None (Some 100) sample_read False ?g' = (kAdmitted, ?g', [])"
    by (intro Check_remembers [OF sample_check _ r_into_rtranclp])
      (simp_all add: sample_gate_def SubresourceGate_new_def verdict_ttl_def)
  moreover have "sg_heads_sent ?g' = 2"
    by (simp add: memo_store_def Let_def sample_gate_def SubresourceGate_new_def)
  ultimately show ?thesis by blast
qed

end
