(* ===== verification/Revalidation.thy ===== *)
theory Revalidation
  imports Cache_Control_Header
begin

text \<open>
  The gates of the nginx module on stored entries: \<open>src/nginx/authz_cache_gate.cc\<close> (requests with credentials,
  stale serves) and \<open>src/nginx/revalidation_storability.cc\<close> (what a 304 does to the entry it validates).  They
  read the flags that \<open>Origin_Cache_Control\<close> accumulates from the header lines; the lemmas state the verdicts over
  the lines themselves.
\<close>

section \<open>The gates\<close>

definition AuthzCacheGateAllows :: "bool \<Rightarrow> u16 \<Rightarrow> bool" where
  "AuthzCacheGateAllows request_has_authorization origin_cc_flags =
     (if \<not> request_has_authorization then True
      else origin_cc_flags AND (kCCOriginPublic OR kCCOriginMustRevalidate OR kCCOriginSMaxagePresent) \<noteq> 0)"

definition AuthzCacheGateAllowsStale :: "bool \<Rightarrow> u16 \<Rightarrow> bool" where
  "AuthzCacheGateAllowsStale request_has_authorization origin_cc_flags =
     (if \<not> request_has_authorization then True else origin_cc_flags AND kCCOriginPublic \<noteq> 0)"

definition StaleServePermitted :: "bool \<Rightarrow> u16 \<Rightarrow> bool" where
  "StaleServePermitted request_has_authorization origin_cc_flags =
     (if ComputeSharedRevalidationRequired origin_cc_flags True then False
      else AuthzCacheGateAllowsStale request_has_authorization origin_cc_flags)"

datatype RestampVerdict = kRestamp | kSkipRestamp | kEvict

record RestampStorabilityInputs =
  ri_refreshed_cc_flags :: u16
  ri_request_has_authorization :: bool
  ri_response_has_set_cookie :: bool

definition RefreshedHeadersForbidSharedStorage :: "u16 \<Rightarrow> bool" where
  "RefreshedHeadersForbidSharedStorage flags =
     (if flags AND kCCOriginNoStore \<noteq> 0 then True
      else if flags AND kCCOriginPrivate = 0 then False
      else if flags AND kCCOriginPrivateBare \<noteq> 0 then True
      else if flags AND kCCOriginPrivateQualified \<noteq> 0 then False
      else True)"

definition EvaluateRestampStorability :: "RestampStorabilityInputs \<Rightarrow> RestampVerdict" where
  "EvaluateRestampStorability inputs =
     (if RefreshedHeadersForbidSharedStorage (ri_refreshed_cc_flags inputs) then kEvict
      else if \<not> AuthzCacheGateAllows (ri_request_has_authorization inputs) (ri_refreshed_cc_flags inputs) then kSkipRestamp
      else if ri_response_has_set_cookie inputs then kSkipRestamp
      else kRestamp)"

section \<open>The gates over header lines\<close>

lemma forbid_lines:
  "RefreshedHeadersForbidSharedStorage (lines_flags lines) \<longleftrightarrow> member_named lines ''no-store'' \<or> bare_private lines"
proof -
  have form: "member_named lines ''private'' \<longleftrightarrow> bare_private lines \<or> lines_flags lines AND kCCOriginPrivateQualified \<noteq> 0"
    unfolding lines_flags_forms member_named_def bare_private_def by blast
  show ?thesis
    unfolding RefreshedHeadersForbidSharedStorage_def if_bool_eq_disj
    using form lines_flags_iff(1,2) [of lines] lines_flags_forms(1) [of lines] by satx
qed

lemma authz_lines:
  "AuthzCacheGateAllows authz (lines_flags lines) \<longleftrightarrow>
     \<not> authz \<or> member_named lines ''public'' \<or> member_named lines ''must-revalidate'' \<or> member_named lines ''s-maxage''"
  unfolding AuthzCacheGateAllows_def AND_OR_right using lines_flags_iff [of lines] by auto

section \<open>Properties\<close>

text \<open>
  C9: what a 304 does to the stored entry, over the Cache-Control lines it is merged into: a member no-store or
  a bare private evicts it whatever else is said; otherwise its life is extended unless the request carried
  credentials and no member permits sharing, or the 304 set a cookie.
\<close>

theorem restamp_of_header_lines:
  "EvaluateRestampStorability
     \<lparr>ri_refreshed_cc_flags = lines_flags lines, ri_request_has_authorization = authz, ri_response_has_set_cookie = cookie\<rparr> =
   (if member_named lines ''no-store'' \<or> bare_private lines then kEvict
    else if cookie \<or>
      authz \<and> \<not> (member_named lines ''public'' \<or> member_named lines ''must-revalidate'' \<or> member_named lines ''s-maxage'')
    then kSkipRestamp else kRestamp)"
  by (auto simp: EvaluateRestampStorability_def forbid_lines authz_lines)

text \<open>
  a stale entry is served exactly when no line demands revalidation and, for a request with credentials, a
  line says public.
\<close>

theorem stale_serve_of_header_lines:
  "StaleServePermitted authz (lines_flags lines) \<longleftrightarrow>
     \<not> (member_named lines ''no-cache'' \<or> member_named lines ''must-revalidate'' \<or>
        member_named lines ''proxy-revalidate'' \<or> member_named lines ''s-maxage'') \<and>
     (if authz then member_named lines ''public'' else True)"
  unfolding StaleServePermitted_def ComputeSharedRevalidationRequired_def AuthzCacheGateAllowsStale_def
  using lines_flags_iff [of lines] by auto

text \<open>A permission to serve stale implies the permission to serve fresh.\<close>

lemma stale_implies_fresh: "StaleServePermitted authz flags \<Longrightarrow> AuthzCacheGateAllows authz flags"
  by (auto simp: StaleServePermitted_def AuthzCacheGateAllows_def AuthzCacheGateAllowsStale_def AND_OR_right split: if_splits)

end
