(* ===== verification/Hit_Etag.thy ===== *)
theory Hit_Etag
  imports Alternate_Metadata Template_Detector
begin

text \<open>
  The weak entity tag of a cache hit: \<open>src/nginx/etag_util.cc\<close>.  \<open>FormatHitETag\<close> returns what it returns in C++
  together with the characters it left in the caller's buffer; a null buffer is a flag.  Body lengths are 64-bit
  words.  The byte step \<open>FnvMix\<close> and its constants are those
  of \<open>template_detector.cc\<close>, so \<open>FnvHashByte\<close> stands for it.
\<close>

section \<open>The tag\<close>

definition ContentIdentity64 :: "AlternateMetadata \<Rightarrow> u64 option" where
  "ContentIdentity64 meta =
     (if am_origin_html_hash meta \<noteq> replicate 32 (CHR 0x00) then
        Some (fold (\<lambda>i v. push_bit 8 v OR of_char (am_origin_html_hash meta ! i)) [0..<8] 0)
      else if am_origin_etag meta \<noteq> [] \<or> am_origin_last_modified meta \<noteq> 0 then
        (let h = fold (\<lambda>c h. FnvHashByte h (of_char c)) (am_origin_etag meta) kFnvOffsetBasis;
             h = FnvHashByte h 0x1F;
             lm = am_origin_last_modified meta
         in Some (fold (\<lambda>i h. FnvHashByte h (ucast (drop_bit (8 * i) lm AND 0xFF))) [0..<4] h))
      else None)"

text \<open>\<open>%0Nx\<close> of a value that has at most \<open>N\<close> hexadecimal digits.\<close>

definition hex_pad :: "nat \<Rightarrow> nat \<Rightarrow> string" where
  "hex_pad n v = map (\<lambda>k. hex_char (v div 16 ^ k mod 16)) (rev [0..<n])"

definition etag_text :: "AlternateMetadata \<Rightarrow> u64 \<Rightarrow> u64 \<Rightarrow> string" where
  "etag_text meta identity body_len =
     ''W/'' @ [CHR 0x22] @ ''ps-'' @ hex_pad 8 (unat (am_full_mask meta)) @ hex_pad 2 (unat (am_flags meta)) @ ''-'' @
     hex_pad 16 (unat identity) @ ''-'' @ hex_pad 16 (unat body_len) @ [CHR 0x22]"

definition FormatHitETag :: "AlternateMetadata \<Rightarrow> u64 \<Rightarrow> bool \<Rightarrow> nat \<Rightarrow> nat \<times> string" where
  "FormatHitETag meta body_len buf_is_null buf_size =
     (if buf_is_null \<or> buf_size = 0 then (0, [])
      else
        (case ContentIdentity64 meta of
           None \<Rightarrow> (0, [])
         | Some identity \<Rightarrow>
             (let tag = etag_text meta identity body_len; n = length tag
              in if n \<ge> buf_size then (0, take (buf_size - 1) tag) else (n, tag))))"

section \<open>Lemmas\<close>

lemma length_hex_pad [simp]: "length (hex_pad n v) = n"
  by (simp add: hex_pad_def)

lemma hex_char_inj: "a < 16 \<Longrightarrow> b < 16 \<Longrightarrow> hex_char a = hex_char b \<Longrightarrow> a = b"
  by (metis HexDigitValue_hex_char of_nat_eq_iff)

lemma hex_pad_Suc: "hex_pad (Suc n) v = hex_char (v div 16 ^ n mod 16) # hex_pad n v"
  by (simp add: hex_pad_def)

lemma div_of_mod: "0 < a \<Longrightarrow> v mod (a * b) div a = v div a mod (b :: nat)"
  by (simp add: mod_mult2_eq)

lemma hex_pad_mod: "hex_pad n (v mod 16 ^ n) = hex_pad n v"
proof -
  have "v mod 16 ^ n div 16 ^ k mod 16 = v div 16 ^ k mod 16" if less: "k < n" for k
  proof -
    obtain d where d: "n = k + Suc d" using less_imp_Suc_add [OF less] by auto
    have "v mod 16 ^ n div 16 ^ k = v div 16 ^ k mod 16 ^ Suc d"
      unfolding d power_add by (rule div_of_mod) simp
    then show ?thesis by (simp add: mod_mod_cancel)
  qed
  then show ?thesis by (simp add: hex_pad_def)
qed

lemma hex_pad_inj: "v < 16 ^ n \<Longrightarrow> w < 16 ^ n \<Longrightarrow> hex_pad n v = hex_pad n w \<Longrightarrow> v = w"
proof (induction n arbitrary: v w)
  case (Suc n)
  have "v div 16 ^ n < 16" "w div 16 ^ n < 16" using Suc.prems by (simp_all add: less_mult_imp_div_less)
  moreover have "hex_char (v div 16 ^ n mod 16) = hex_char (w div 16 ^ n mod 16)"
    and low: "hex_pad n v = hex_pad n w"
    using Suc.prems(3) by (simp_all add: hex_pad_Suc)
  ultimately have "v div 16 ^ n = w div 16 ^ n" using hex_char_inj by simp
  moreover have "v mod 16 ^ n = w mod 16 ^ n"
    by (rule Suc.IH) (use low in \<open>simp_all add: hex_pad_mod\<close>)
  ultimately show ?case by (metis div_mult_mod_eq)
qed simp

lemma unat_digits: "unat (w :: u8) < 16 ^ 2" "unat (x :: u32) < 16 ^ 8" "unat (y :: u64) < 16 ^ 16"
  using unsigned_less [of w] unsigned_less [of x] unsigned_less [of y] by simp_all

lemma hex_pad_word:
  "hex_pad 2 (unat (a :: u8)) = hex_pad 2 (unat b) \<longleftrightarrow> a = b"
  "hex_pad 8 (unat (c :: u32)) = hex_pad 8 (unat d) \<longleftrightarrow> c = d"
  "hex_pad 16 (unat (e :: u64)) = hex_pad 16 (unat f) \<longleftrightarrow> e = f"
  using hex_pad_inj [OF unat_digits(1) unat_digits(1), of a b] hex_pad_inj [OF unat_digits(2) unat_digits(2), of c d]
    hex_pad_inj [OF unat_digits(3) unat_digits(3), of e f]
  by (auto simp: unsigned_word_eqI)

lemma length_etag_text: "length (etag_text meta i l) = 51"
  by (simp add: etag_text_def)

lemma etag_text_inj:
  "etag_text m i l = etag_text m' i' l' \<longleftrightarrow>
     am_full_mask m = am_full_mask m' \<and> am_flags m = am_flags m' \<and> i = i' \<and> l = l'"
  unfolding etag_text_def by (simp add: hex_pad_word)

text \<open>The first eight bytes of the stored hash, most significant first.\<close>

lemma bit_of_char_u64: "8 \<le> n \<Longrightarrow> \<not> bit (of_char c :: u64) n"
proof -
  assume "8 \<le> n"
  then have "(256 :: nat) \<le> 2 ^ n" using power_increasing [of 8 n "2 :: nat"] by simp
  then have "(of_char c :: nat) div 2 ^ n = 0"
    using less_le_trans [OF of_char_less_256 [of c]] by (intro div_less)
  then have "\<not> bit (of_char c :: nat) n" by (simp add: bit_iff_odd)
  then show ?thesis by (metis bit_of_nat_iff of_nat_of_char)
qed

lemma shift_or_byte: "push_bit 8 (v :: u64) OR of_char c = v * 256 + of_char c"
proof -
  have "push_bit 8 v OR of_char c = push_bit 8 v + (of_char c :: u64)"
    by (rule disjunctive_add [symmetric]) (use bit_of_char_u64 in \<open>auto simp: bit_simps not_le\<close>)
  then show ?thesis by (simp add: push_bit_eq_mult mult.commute)
qed

lemma shift_fold:
  "fold (\<lambda>c v. push_bit 8 v OR of_char c) s (word_of_nat n :: u64) = word_of_nat (fold (\<lambda>c v. v * 256 + of_char c) s n)"
proof (induction s arbitrary: n)
  case (Cons c s)
  have "push_bit 8 (word_of_nat n :: u64) OR of_char c = word_of_nat (n * 256 + of_char c)"
    by (simp add: shift_or_byte of_nat_of_char)
  with Cons [of "n * 256 + of_char c"] show ?case by simp
qed simp

lemma be_val_fold: "fold (\<lambda>c v. v * 256 + of_char c) s n = n * 256 ^ length s + be_val s"
proof (induction s arbitrary: n)
  case (Cons c s)
  have snoc: "le_val (t @ [c]) = le_val t + 256 ^ length t * of_char c" for t
    by (induction t) (simp_all add: algebra_simps)
  from Cons show ?case by (simp add: be_val_def snoc algebra_simps)
qed (simp add: be_val_def)

lemma identity_of_hash:
  assumes "length (am_origin_html_hash meta) = 32" "am_origin_html_hash meta \<noteq> replicate 32 (CHR 0x00)"
  shows "ContentIdentity64 meta = Some (word_of_nat (be_val (take 8 (am_origin_html_hash meta))))"
proof -
  let ?h = "am_origin_html_hash meta"
  have "map (\<lambda>i. ?h ! i) [0..<8] = take 8 ?h" using assms(1) by (simp add: list_eq_iff_nth_eq)
  then have "fold (\<lambda>i v. push_bit 8 v OR of_char (?h ! i)) [0..<8] (0 :: u64) = fold (\<lambda>c v. push_bit 8 v OR of_char c) (take 8 ?h) 0"
    by (simp only: fold_map comp_def flip: \<open>map (\<lambda>i. ?h ! i) [0..<8] = take 8 ?h\<close>)
  then show ?thesis
    using assms(2) shift_fold [of "take 8 ?h" 0] be_val_fold [of "take 8 ?h" 0] by (simp add: ContentIdentity64_def del: upt_rec_numeral)
qed

lemma be_val_inj: "length s = length t \<Longrightarrow> be_val s = be_val t \<Longrightarrow> s = t"
  by (metis be_val_def le_bytes_le_val length_rev rev_rev_ident)

lemma identity_inj:
  assumes "length s = 8" "length t = 8"
  shows "(word_of_nat (be_val s) :: u64) = word_of_nat (be_val t) \<longleftrightarrow> s = t"
proof -
  have "be_val s < 2 ^ 64" "be_val t < 2 ^ 64" using be_val_less [of s] be_val_less [of t] assms by simp_all
  then have "(word_of_nat (be_val s) :: u64) = word_of_nat (be_val t) \<longleftrightarrow> be_val s = be_val t"
    by (simp add: word_of_nat_eq_iff take_bit_nat_eq_self)
  with be_val_inj assms show ?thesis by metis
qed

section \<open>Properties\<close>

text \<open>
  a tag is complete or absent: the returned count is zero, or the buffer holds the whole 51-character tag
  with room for the final NUL.  It is absent exactly when there is no buffer, no room, or no content identity.
\<close>

theorem FormatHitETag_complete_or_absent:
  "case FormatHitETag meta body_len null cap of (n, buf) \<Rightarrow>
     (n = 0 \<longleftrightarrow> null \<or> cap \<le> 51 \<or> ContentIdentity64 meta = None) \<and>
     (n = 0 \<or> (n = 51 \<and> length buf = n \<and> n < cap))"
  by (auto simp: FormatHitETag_def Let_def length_etag_text split: option.split)

text \<open>
  C15: a tag identifies one representation: two hits carry the same tag exactly when they agree on the
  capability mask, the flags, the served length and the content identity; for entries with a stored hash the
  last means the first eight bytes of the hashes.
\<close>

theorem FormatHitETag_identifies:
  assumes "length (am_origin_html_hash m) = 32" "am_origin_html_hash m \<noteq> replicate 32 (CHR 0x00)"
    and "length (am_origin_html_hash m') = 32" "am_origin_html_hash m' \<noteq> replicate 32 (CHR 0x00)"
    and "cap > 51" "cap' > 51"
  shows "snd (FormatHitETag m l False cap) = snd (FormatHitETag m' l' False cap') \<longleftrightarrow>
    am_full_mask m = am_full_mask m' \<and> am_flags m = am_flags m' \<and> l = l' \<and>
    take 8 (am_origin_html_hash m) = take 8 (am_origin_html_hash m')"
proof -
  have "length (take 8 (am_origin_html_hash m)) = 8" "length (take 8 (am_origin_html_hash m')) = 8"
    using assms(1,3) by simp_all
  note inj = identity_inj [OF this]
  show ?thesis
    using assms(5,6) inj
    by (auto simp: FormatHitETag_def identity_of_hash [OF assms(1,2)] identity_of_hash [OF assms(3,4)] Let_def
        length_etag_text etag_text_inj)
qed

theorem FormatHitETag_identifies_witness:
  "snd (FormatHitETag (AlternateMetadata_default\<lparr>am_origin_html_hash := replicate 32 (CHR ''a'')\<rparr>) 7 False 52) \<noteq>
   snd (FormatHitETag (AlternateMetadata_default\<lparr>am_origin_html_hash := replicate 32 (CHR ''b'')\<rparr>) 7 False 52)"
  using FormatHitETag_identifies [of "AlternateMetadata_default\<lparr>am_origin_html_hash := replicate 32 (CHR ''a'')\<rparr>"
      "AlternateMetadata_default\<lparr>am_origin_html_hash := replicate 32 (CHR ''b'')\<rparr>" 52 52 7 7]
  by (simp add: numeral_eq_Suc)

end
