(* ===== verification/Early_Hints.thy ===== *)
theory Early_Hints
  imports String_Util
begin

text \<open>
  Early hints: \<open>src/nginx/early_hints_util.cc\<close>.  The link header is built from the lines of a stored hint list; the
  lemmas read it back with a scanner for the angle brackets.  \<open>FlushWithRetry\<close> drives a writer it is given: the
  writer is the sequence of its answers, indexed by the number of calls, and the loop is a partial function, since
  whether it returns depends on that sequence.
\<close>

section \<open>The link header\<close>

record PreloadResource =
  pr_url :: string
  pr_as_type :: string
  pr_rel :: string
  pr_extra :: string

definition SanitizeLinkUrl :: "string \<Rightarrow> string" where
  "SanitizeLinkUrl url =
     (if list_ex (\<lambda>i. i + 2 < length url \<and> url ! i = CHR ''%'' \<and> LowerChar (url ! (i + 1)) = CHR ''0'' \<and>
            LowerChar (url ! (i + 2)) \<in> {CHR ''d'', CHR ''a'', CHR ''0''}) [0..<length url]
      then []
      else filter (\<lambda>c. c \<noteq> CHR 0x0D \<and> c \<noteq> CHR 0x0A \<and> c \<noteq> CHR 0x00 \<and> c \<noteq> CHR ''<'' \<and> c \<noteq> CHR ''>'') url)"

definition SanitizeHeaderValue :: "string \<Rightarrow> string" where
  "SanitizeHeaderValue v = filter (\<lambda>c. c \<noteq> CHR 0x0D \<and> c \<noteq> CHR 0x0A) v"

definition FormatLinkHeader :: "PreloadResource list \<Rightarrow> string" where
  "FormatLinkHeader resources =
     foldl (\<lambda>result resource.
       (let sanitized = SanitizeLinkUrl (pr_url resource)
        in if sanitized = [] then result
           else
             (let result = (if result \<noteq> [] then result @ '', '' else result);
                  result = result @ ''<'' @ sanitized @ ''>; rel='';
                  rel = SanitizeHeaderValue (if pr_rel resource = [] then ''preload'' else pr_rel resource);
                  result = result @ rel;
                  result = (if pr_as_type resource \<noteq> [] then result @ ''; as='' @ SanitizeHeaderValue (pr_as_type resource)
                            else result)
              in if pr_extra resource \<noteq> [] then result @ ''; '' @ SanitizeHeaderValue (pr_extra resource) else result)))
       [] resources"

definition ParseHintLine :: "string \<Rightarrow> PreloadResource" where
  "ParseHintLine line =
     (if starts_with ''image:'' line then
        \<lparr>pr_url = drop 6 line, pr_as_type = ''image'', pr_rel = ''preload'', pr_extra = ''fetchpriority=high''\<rparr>
      else if starts_with ''font:'' line then
        \<lparr>pr_url = drop 5 line, pr_as_type = ''font'', pr_rel = ''preload'', pr_extra = ''crossorigin''\<rparr>
      else if starts_with ''preconnect:'' line then
        \<lparr>pr_url = drop 11 line, pr_as_type = [], pr_rel = ''preconnect'', pr_extra = []\<rparr>
      else if starts_with ''preconnect-cors:'' line then
        \<lparr>pr_url = drop 16 line, pr_as_type = [], pr_rel = ''preconnect'', pr_extra = ''crossorigin''\<rparr>
      else \<lparr>pr_url = line, pr_as_type = ''style'', pr_rel = ''preload'', pr_extra = []\<rparr>)"

section \<open>The flush loop\<close>

datatype FlushStatus = kComplete | kWouldBlock | kError

text \<open>The loop from call \<open>n\<close> on, with the previous count (\<open>-1\<close> before the first) and the stalls so far.\<close>

partial_function (option) flush_loop :: "(nat \<Rightarrow> int) \<Rightarrow> int \<Rightarrow> nat \<Rightarrow> int \<Rightarrow> int \<Rightarrow> FlushStatus option" where
  "flush_loop send_remaining max_stalls n prev_pending stalls =
     (let pending = send_remaining n
      in if pending < 0 then Some kError
         else if pending = 0 then Some kComplete
         else if prev_pending \<ge> 0 \<and> pending \<ge> prev_pending then
           (if stalls + 1 \<ge> max_stalls then Some kWouldBlock
            else flush_loop send_remaining max_stalls (n + 1) pending (stalls + 1))
         else flush_loop send_remaining max_stalls (n + 1) pending 0)"

definition FlushWithRetry :: "(nat \<Rightarrow> int) \<Rightarrow> int \<Rightarrow> FlushStatus option" where
  "FlushWithRetry send_remaining max_stalls = flush_loop send_remaining max_stalls 0 (-1) 0"

section \<open>Reading the header back\<close>

text \<open>The texts between an opening and the next closing angle bracket.\<close>

function link_targets :: "string \<Rightarrow> string list" where
  "link_targets s =
     (case sv_find (CHR ''<'') s of
        None \<Rightarrow> []
      | Some i \<Rightarrow> (let r = drop (i + 1) s in before (sv_find (CHR ''>'') r) r # link_targets (after (sv_find (CHR ''>'') r) r)))"
  by pat_completeness auto
termination
proof (relation "measure length", goal_cases)
  case (2 s i r)
  then have "length (after (sv_find (CHR ''>'') r) r) \<le> length r" "length r < length s"
    by (auto simp: after_def sv_find_Some split: option.split)
  then show ?case by simp
qed simp

declare link_targets.simps [simp del]

lemma link_targets_none: "CHR ''<'' \<notin> set s \<Longrightarrow> link_targets s = []"
  by (simp add: link_targets.simps sv_find_notin)

lemma link_targets_skip:
  assumes "CHR ''<'' \<notin> set s" "CHR ''>'' \<notin> set u"
  shows "link_targets (s @ ''<'' @ u @ ''>'' @ r) = u # link_targets r"
  using assms sv_find_append_Cons [OF assms(1), of "u @ ''>'' @ r"]
  by (subst link_targets.simps) (simp add: before_append_Cons after_append_Cons sv_find_append_Cons)

lemma SanitizeLinkUrl_clean: "c \<in> {CHR 0x0D, CHR 0x0A, CHR 0x00, CHR ''<'', CHR ''>''} \<Longrightarrow> c \<notin> set (SanitizeLinkUrl url)"
  by (auto simp: SanitizeLinkUrl_def)

lemma SanitizeHeaderValue_clean: "c \<in> {CHR 0x0D, CHR 0x0A} \<Longrightarrow> c \<notin> set (SanitizeHeaderValue v)"
  by (auto simp: SanitizeHeaderValue_def)

text \<open>The text of one resource, and the header as a concatenation.\<close>

definition link_tail :: "PreloadResource \<Rightarrow> string" where
  "link_tail r = ''; rel='' @ SanitizeHeaderValue (if pr_rel r = [] then ''preload'' else pr_rel r) @
     (if pr_as_type r \<noteq> [] then ''; as='' @ SanitizeHeaderValue (pr_as_type r) else []) @
     (if pr_extra r \<noteq> [] then ''; '' @ SanitizeHeaderValue (pr_extra r) else [])"

definition link_text :: "PreloadResource \<Rightarrow> string" where
  "link_text r = ''<'' @ SanitizeLinkUrl (pr_url r) @ ''>'' @ link_tail r"

definition kept_links :: "PreloadResource list \<Rightarrow> PreloadResource list" where
  "kept_links rs = filter (\<lambda>r. SanitizeLinkUrl (pr_url r) \<noteq> []) rs"

definition add_link :: "string \<Rightarrow> PreloadResource \<Rightarrow> string" where
  "add_link acc r =
    (if SanitizeLinkUrl (pr_url r) = [] then acc else acc @ (if acc = [] then [] else '', '') @ link_text r)"

lemma FormatLinkHeader_foldl: "FormatLinkHeader rs = foldl add_link [] rs"
  unfolding FormatLinkHeader_def
  by (rule foldl_cong) (auto simp: Let_def add_link_def link_text_def link_tail_def)

lemma foldl_add_link:
  "acc \<noteq> [] \<Longrightarrow> foldl add_link acc rs = acc @ concat (map (\<lambda>r. '', '' @ link_text r) (kept_links rs))"
  by (induction rs arbitrary: acc) (simp_all add: add_link_def kept_links_def)

lemma FormatLinkHeader_join:
  "FormatLinkHeader rs =
    (case kept_links rs of [] \<Rightarrow> [] | r # ks \<Rightarrow> link_text r @ concat (map (\<lambda>r. '', '' @ link_text r) ks))"
  unfolding FormatLinkHeader_foldl
proof (induction rs)
  case (Cons r rs)
  have "SanitizeLinkUrl (pr_url r) \<noteq> [] \<Longrightarrow> add_link [] r = link_text r" "link_text r \<noteq> []"
    by (simp_all add: add_link_def link_text_def)
  moreover have "SanitizeLinkUrl (pr_url r) = [] \<Longrightarrow> add_link [] r = []" by (simp add: add_link_def)
  ultimately show ?case
    using Cons by (cases "SanitizeLinkUrl (pr_url r) = []") (simp_all add: kept_links_def foldl_add_link)
qed (simp add: kept_links_def)

lemma link_text_clean: "c \<in> {CHR 0x0D, CHR 0x0A} \<Longrightarrow> c \<notin> set (link_text r)"
  using SanitizeLinkUrl_clean [of c] SanitizeHeaderValue_clean [of c] by (auto simp: link_text_def link_tail_def)

lemma link_targets_concat:
  "CHR ''<'' \<notin> set p \<Longrightarrow> list_all (\<lambda>r. CHR ''<'' \<notin> set (link_tail r)) rs \<Longrightarrow>
     link_targets (p @ concat (map (\<lambda>r. '', '' @ link_text r) rs)) = map (\<lambda>r. SanitizeLinkUrl (pr_url r)) rs"
proof (induction rs arbitrary: p)
  case (Cons r rs)
  have "link_targets ((p @ '', '') @ ''<'' @ SanitizeLinkUrl (pr_url r) @ ''>'' @
      (link_tail r @ concat (map (\<lambda>r. '', '' @ link_text r) rs))) =
    SanitizeLinkUrl (pr_url r) # link_targets (link_tail r @ concat (map (\<lambda>r. '', '' @ link_text r) rs))"
    by (rule link_targets_skip) (use Cons.prems SanitizeLinkUrl_clean in auto)
  with Cons show ?case by (simp add: link_text_def)
qed (simp add: link_targets_none)

lemma hint_tail_clean: "CHR ''<'' \<notin> set (link_tail (ParseHintLine line))"
  by (simp add: link_tail_def ParseHintLine_def SanitizeHeaderValue_def)

lemma LowerChar_hex_values:
  "LowerChar c = CHR ''0'' \<longleftrightarrow> c = CHR ''0''"
  "LowerChar c \<in> {CHR ''d'', CHR ''a'', CHR ''0''} \<longleftrightarrow> c \<in> set ''dDaA0''"
proof -
  have "LowerChar c = x \<longleftrightarrow> c = x \<or> c = UpperChar x" if "x \<in> set ''da0''" for x
  proof
    assume x: "LowerChar c = x"
    have "LowerChar c = c \<or> UpperChar c = c" by (auto simp: LowerChar_def UpperChar_def less_eq_char_def)
    then show "c = x \<or> c = UpperChar x" using UpperChar_LowerChar [of c] unfolding x by auto
  next
    assume "c = x \<or> c = UpperChar x"
    moreover have "LowerChar x = x" using that by (auto simp: LowerChar_def less_eq_char_def)
    ultimately show "LowerChar c = x" by auto
  qed
  moreover have "UpperChar (CHR ''d'') = CHR ''D''" "UpperChar (CHR ''a'') = CHR ''A''" "UpperChar (CHR ''0'') = CHR ''0''"
    by code_simp+
  ultimately show "LowerChar c = CHR ''0'' \<longleftrightarrow> c = CHR ''0''"
    "LowerChar c \<in> {CHR ''d'', CHR ''a'', CHR ''0''} \<longleftrightarrow> c \<in> set ''dDaA0''" by auto
qed

text \<open>An escape of a line break or of the zero byte.\<close>

definition has_unsafe_escape :: "string \<Rightarrow> bool" where
  "has_unsafe_escape url \<longleftrightarrow> (\<exists>x h y. url = x @ ''%0'' @ h # y \<and> h \<in> set ''dDaA0'')"

lemma SanitizeLinkUrl_eq:
  "SanitizeLinkUrl url =
     (if has_unsafe_escape url then []
      else filter (\<lambda>c. c \<notin> {CHR 0x0D, CHR 0x0A, CHR 0x00, CHR ''<'', CHR ''>''}) url)"
proof -
  have "list_ex (\<lambda>i. i + 2 < length url \<and> url ! i = CHR ''%'' \<and> LowerChar (url ! (i + 1)) = CHR ''0'' \<and>
      LowerChar (url ! (i + 2)) \<in> {CHR ''d'', CHR ''a'', CHR ''0''}) [0..<length url] \<longleftrightarrow> has_unsafe_escape url"
    (is "list_ex ?P _ \<longleftrightarrow> _")
  proof
    assume "list_ex ?P [0..<length url]"
    then obtain i where i: "i + 2 < length url" "url ! i = CHR ''%''" "url ! (i + 1) = CHR ''0''" "url ! (i + 2) \<in> set ''dDaA0''"
      unfolding LowerChar_hex_values list_ex_iff by blast
    then have "drop i url = ''%0'' @ url ! (i + 2) # drop (i + 3) url"
      by (simp add: Cons_nth_drop_Suc [symmetric] numeral_eq_Suc)
    then have "url = take i url @ ''%0'' @ url ! (i + 2) # drop (i + 3) url"
      by (metis append_take_drop_id)
    with i(4) show "has_unsafe_escape url" unfolding has_unsafe_escape_def by blast
  next
    assume "has_unsafe_escape url"
    then obtain x h y where "url = x @ ''%0'' @ h # y" "h \<in> set ''dDaA0''" unfolding has_unsafe_escape_def by blast
    then show "list_ex ?P [0..<length url]"
      unfolding LowerChar_hex_values list_ex_iff by (intro bexI [of _ "length x"]) (auto simp: nth_append)
  qed
  then show ?thesis by (simp add: SanitizeLinkUrl_def)
qed

section \<open>Properties\<close>

text \<open>
  C39: the link header never contains a line break, and the targets a reader finds in the header of a hint list
  are the sanitized URLs of its lines, in order, without those the sanitizer rejects.  The URL of a line is what
  follows its prefix, and a sanitized URL is the URL without line breaks, zero bytes and angle brackets, or
  nothing when the URL holds an escape of a line break or of the zero byte.
\<close>

theorem FormatLinkHeader_reads_back:
  "CHR 0x0D \<notin> set (FormatLinkHeader resources) \<and> CHR 0x0A \<notin> set (FormatLinkHeader resources) \<and>
   link_targets (FormatLinkHeader (map ParseHintLine lines)) =
     filter (\<lambda>u. u \<noteq> []) (map (\<lambda>l. SanitizeLinkUrl (pr_url (ParseHintLine l))) lines) \<and>
   (pr_url (ParseHintLine (''image:'' @ url)) = url \<and> pr_url (ParseHintLine (''font:'' @ url)) = url \<and>
    pr_url (ParseHintLine (''preconnect:'' @ url)) = url \<and> pr_url (ParseHintLine (''preconnect-cors:'' @ url)) = url \<and>
    pr_url (ParseHintLine (''/'' @ url)) = ''/'' @ url) \<and>
   SanitizeLinkUrl url =
     (if \<exists>x h y. url = x @ ''%0'' @ h # y \<and> h \<in> set ''dDaA0'' then []
      else filter (\<lambda>c. c \<notin> {CHR 0x0D, CHR 0x0A, CHR 0x00, CHR ''<'', CHR ''>''}) url)"
proof (intro conjI)
  show "pr_url (ParseHintLine (''image:'' @ url)) = url" "pr_url (ParseHintLine (''font:'' @ url)) = url"
    "pr_url (ParseHintLine (''preconnect:'' @ url)) = url" "pr_url (ParseHintLine (''preconnect-cors:'' @ url)) = url"
    "pr_url (ParseHintLine (''/'' @ url)) = ''/'' @ url"
    by (simp_all add: ParseHintLine_def starts_with_def)
  show "SanitizeLinkUrl url =
     (if \<exists>x h y. url = x @ ''%0'' @ h # y \<and> h \<in> set ''dDaA0'' then []
      else filter (\<lambda>c. c \<notin> {CHR 0x0D, CHR 0x0A, CHR 0x00, CHR ''<'', CHR ''>''}) url)"
    unfolding SanitizeLinkUrl_eq has_unsafe_escape_def by (rule refl)
  have clean: "c \<notin> set (FormatLinkHeader resources)" if "c \<in> {CHR 0x0D, CHR 0x0A}" for c
    using that link_text_clean [OF that] by (cases "kept_links resources") (auto simp: FormatLinkHeader_join)
  show "CHR 0x0D \<notin> set (FormatLinkHeader resources)" "CHR 0x0A \<notin> set (FormatLinkHeader resources)"
    using clean by simp_all
  let ?ks = "kept_links (map ParseHintLine lines)"
  have tails: "list_all (\<lambda>r. CHR ''<'' \<notin> set (link_tail r)) ?ks"
    by (auto simp: list_all_iff kept_links_def hint_tail_clean)
  have "link_targets (FormatLinkHeader (map ParseHintLine lines)) = map (\<lambda>r. SanitizeLinkUrl (pr_url r)) ?ks"
  proof (cases ?ks)
    case Nil
    then show ?thesis by (simp add: FormatLinkHeader_join link_targets_none)
  next
    case (Cons r ks)
    have "link_targets ([] @ ''<'' @ SanitizeLinkUrl (pr_url r) @ ''>'' @ (link_tail r @ concat (map (\<lambda>r. '', '' @ link_text r) ks))) =
        SanitizeLinkUrl (pr_url r) # link_targets (link_tail r @ concat (map (\<lambda>r. '', '' @ link_text r) ks))"
      by (rule link_targets_skip) (use SanitizeLinkUrl_clean in auto)
    then show ?thesis
      using link_targets_concat [of "link_tail r" ks] tails Cons by (simp add: FormatLinkHeader_join link_text_def)
  qed
  also have "\<dots> = filter (\<lambda>u. u \<noteq> []) (map (\<lambda>l. SanitizeLinkUrl (pr_url (ParseHintLine l))) lines)"
    by (simp add: kept_links_def filter_map comp_def)
  finally show "link_targets (FormatLinkHeader (map ParseHintLine lines)) =
    filter (\<lambda>u. u \<noteq> []) (map (\<lambda>l. SanitizeLinkUrl (pr_url (ParseHintLine l))) lines)" .
qed

section \<open>Where the flush loop stops\<close>

text \<open>
  The calls of the writer are numbered.  A call without progress leaves at least as much pending as the call before it.
  The loop stops at a call that reports an error or nothing left, and at the call that completes a run of as many
  calls without progress as the stall budget (of at least one).
\<close>

definition stalled :: "(nat \<Rightarrow> int) \<Rightarrow> nat \<Rightarrow> nat \<Rightarrow> bool" where
  "stalled send k n \<longleftrightarrow> k \<le> n \<and> (\<forall>j < k. send (n - Suc j) \<le> send (n - j))"

definition flush_stop :: "(nat \<Rightarrow> int) \<Rightarrow> int \<Rightarrow> nat \<Rightarrow> FlushStatus option" where
  "flush_stop send max_stalls n =
     (if send n < 0 then Some kError
      else if send n = 0 then Some kComplete
      else if stalled send (max 1 (nat max_stalls)) n then Some kWouldBlock
      else None)"

text \<open>The length of the run of calls without progress that ends at a call; the loop counts it.\<close>

fun stall_run :: "(nat \<Rightarrow> int) \<Rightarrow> nat \<Rightarrow> nat" where
  "stall_run send 0 = 0"
| "stall_run send (Suc n) = (if send n \<le> send (Suc n) then Suc (stall_run send n) else 0)"

lemma stalled_iff: "stalled send k n \<longleftrightarrow> k \<le> stall_run send n"
proof (induction n arbitrary: k)
  case 0
  then show ?case by (auto simp: stalled_def)
next
  case (Suc n)
  have "stalled send (Suc k) (Suc n) \<longleftrightarrow> send n \<le> send (Suc n) \<and> stalled send k n" for k
    unfolding stalled_def by (auto simp: All_less_Suc2)
  moreover have "stalled send 0 (Suc n)" by (simp add: stalled_def)
  ultimately show ?case using Suc by (cases k) auto
qed

lemma flush_running:
  assumes "\<forall>i \<le> n. flush_stop send m i = None"
  shows "FlushWithRetry send m = flush_loop send m (Suc n) (send n) (int (stall_run send n))"
  using assms
proof (induction n)
  case 0
  then have "0 < send 0" by (auto simp: flush_stop_def split: if_splits)
  then show ?case unfolding FlushWithRetry_def by (subst flush_loop.simps) (simp add: Let_def)
next
  case (Suc n)
  have "0 < send n" "0 < send (Suc n)" "\<not> max 1 (nat m) \<le> stall_run send (Suc n)"
    using Suc.prems [rule_format, of n] Suc.prems [rule_format, of "Suc n"]
    by (auto simp: flush_stop_def stalled_iff split: if_splits)
  moreover have "FlushWithRetry send m = flush_loop send m (Suc n) (send n) (int (stall_run send n))"
    using Suc by simp
  ultimately show ?case by (subst (asm) flush_loop.simps) (auto simp: Let_def add.commute split: if_splits)
qed

lemma flush_stops:
  assumes "flush_stop send m n = Some st" "\<forall>i < n. flush_stop send m i = None"
  shows "FlushWithRetry send m = Some st"
proof (cases n)
  case 0
  then show ?thesis
    using assms(1) unfolding FlushWithRetry_def
    by (subst flush_loop.simps) (auto simp: Let_def flush_stop_def stalled_iff split: if_splits)
next
  case (Suc p)
  then have "0 < send p" using assms(2) by (auto simp: flush_stop_def split: if_splits dest: spec [of _ p])
  moreover have "FlushWithRetry send m = flush_loop send m (Suc p) (send p) (int (stall_run send p))"
    using assms(2) Suc by (intro flush_running) auto
  ultimately show ?thesis
    using assms(1) Suc
    by (subst (asm) flush_loop.simps) (auto simp: Let_def flush_stop_def stalled_iff split: if_splits)
qed

lemma flush_never_stops:
  assumes "\<forall>i. flush_stop send m i = None"
  shows "FlushWithRetry send m = None"
proof -
  let ?on = "\<lambda>n prev st. (n = 0 \<and> prev = -1 \<and> st = 0) \<or> (\<exists>p. n = Suc p \<and> prev = send p \<and> st = int (stall_run send p))"
  have "\<not> (s = send \<and> b = m \<and> ?on n prev st)" if "flush_loop s b n prev st = Some y" for s b n prev st y
    using that
  proof (rule flush_loop.raw_induct [where P = "\<lambda>s b n prev st y. \<not> (s = send \<and> b = m \<and> ?on n prev st)", rotated])
    fix f s b n prev st y
    assume IH: "\<And>s b n prev st y. f s b n prev st = Some (y :: FlushStatus) \<Longrightarrow> \<not> (s = send \<and> b = m \<and> ?on n prev st)"
      and body: "(let pending = s n in if pending < 0 then Some kError else if pending = 0 then Some kComplete
        else if 0 \<le> prev \<and> prev \<le> pending then if b \<le> st + 1 then Some kWouldBlock else f s b (n + 1) pending (st + 1)
        else f s b (n + 1) pending 0) = Some y"
    show "\<not> (s = send \<and> b = m \<and> ?on n prev st)"
    proof
      assume s: "s = send \<and> b = m \<and> ?on n prev st"
      have "0 < send i" "\<not> max 1 (nat m) \<le> stall_run send i" for i
        using spec [OF assms, of i] by (auto simp: flush_stop_def stalled_iff split: if_splits)
      note this [of n] this(1) [of "n - 1"]
      then have "f send m (Suc n) (send n) (int (stall_run send n)) = Some y"
        using body s by (auto simp: Let_def add.commute split: if_splits)
      then show False using IH by blast
    qed
  qed
  then have "FlushWithRetry send m \<noteq> Some y" for y unfolding FlushWithRetry_def by blast
  then show ?thesis by (cases "FlushWithRetry send m") auto
qed

lemma flush_stop_exists:
  assumes mono: "\<And>n. send (Suc n) \<le> send n"
  shows "\<exists>n. flush_stop send m n \<noteq> None"
proof (rule ccontr)
  let ?k = "max 1 (nat m)"
  assume "\<not> ?thesis"
  then have none: "flush_stop send m n = None" for n by simp
  have pos: "0 < send n" and run: "\<not> stalled send ?k n" for n
    using none [of n] by (auto simp: flush_stop_def split: if_splits)
  have anti: "i \<le> j \<Longrightarrow> send j \<le> send i" for i j by (rule lift_Suc_antimono_le [of send, OF mono])
  have drop: "send (n + ?k) < send n" for n
  proof -
    obtain j where "j < ?k" "send (n + ?k - j) < send (n + ?k - Suc j)"
      using run [of "n + ?k"] by (auto simp: stalled_def not_le)
    moreover have "send (n + ?k) \<le> send (n + ?k - j)" "send (n + ?k - Suc j) \<le> send n"
      using \<open>j < ?k\<close> by (intro anti; linarith)+
    ultimately show ?thesis by linarith
  qed
  have "\<exists>n. send n \<le> send 0 - int v" for v
  proof (induction v)
    case (Suc v)
    then obtain n where "send n \<le> send 0 - int v" by blast
    with drop [of n] show ?case by (intro exI [of _ "n + ?k"]) simp
  qed auto
  from this [of "nat (send 0)"] obtain n where "send n \<le> 0" using pos [of 0] by auto
  with pos [of n] show False by simp
qed

text \<open>
  C40: for every writer the flush loop returns exactly when some call stops it, and then with the status of the
  first such call: an error or completion as soon as the writer reports one, and blocked at the call that completes
  a run of calls without progress as long as the stall budget, not before and not after.  With a writer whose
  pending count never grows there is such a call, so the loop returns.
\<close>

theorem FlushWithRetry_returns:
  "(FlushWithRetry send_remaining max_stalls = Some status \<longleftrightarrow>
      (\<exists>n. flush_stop send_remaining max_stalls n = Some status \<and>
           (\<forall>i < n. flush_stop send_remaining max_stalls i = None))) \<and>
   ((\<forall>n. send_remaining (Suc n) \<le> send_remaining n) \<longrightarrow>
      (\<exists>st. FlushWithRetry send_remaining max_stalls = Some st))"
proof -
  let ?stop = "flush_stop send_remaining max_stalls"
  have first: "\<exists>n st. ?stop n = Some st \<and> (\<forall>i < n. ?stop i = None)" if "\<exists>n. ?stop n \<noteq> None"
    using exists_least_iff [of "\<lambda>n. ?stop n \<noteq> None"] that by auto
  have never: "FlushWithRetry send_remaining max_stalls = None" if "\<not> (\<exists>n. ?stop n \<noteq> None)"
    using flush_never_stops that by simp
  have returns: "\<exists>n st. ?stop n = Some st \<and> (\<forall>i < n. ?stop i = None) \<and> FlushWithRetry send_remaining max_stalls = Some st"
    if "\<exists>n. ?stop n \<noteq> None"
    using first [OF that] flush_stops by blast
  show ?thesis
  proof (intro conjI iffI impI)
    assume some: "FlushWithRetry send_remaining max_stalls = Some status"
    then obtain n st where "?stop n = Some st" "\<forall>i < n. ?stop i = None" "FlushWithRetry send_remaining max_stalls = Some st"
      using never returns by (metis option.distinct(1))
    with some show "\<exists>n. ?stop n = Some status \<and> (\<forall>i < n. ?stop i = None)" by auto
  next
    assume "\<exists>n. ?stop n = Some status \<and> (\<forall>i < n. ?stop i = None)"
    then show "FlushWithRetry send_remaining max_stalls = Some status" using flush_stops by blast
  next
    assume "\<forall>n. send_remaining (Suc n) \<le> send_remaining n"
    then show "\<exists>st. FlushWithRetry send_remaining max_stalls = Some st"
      using returns flush_stop_exists [of send_remaining max_stalls] by blast
  qed
qed

theorem FlushWithRetry_returns_witness:
  "FlushWithRetry (\<lambda>n. if n < 2 then 5 - int n else 3) 2 = Some kWouldBlock \<and>
   (\<exists>st. FlushWithRetry (\<lambda>n. 3 - int n) 16 = Some st)"
proof
  let ?s = "\<lambda>n :: nat. if n < 2 then 5 - int n else 3"
  have "flush_stop ?s 2 4 = Some kWouldBlock" by (simp add: flush_stop_def stalled_iff numeral_eq_Suc)
  moreover have "\<forall>i < 4. flush_stop ?s 2 i = None"
    by (simp add: flush_stop_def stalled_iff numeral_eq_Suc All_less_Suc)
  ultimately show "FlushWithRetry ?s 2 = Some kWouldBlock"
    using FlushWithRetry_returns [of ?s 2 kWouldBlock] by blast
  show "\<exists>st. FlushWithRetry (\<lambda>n. 3 - int n) 16 = Some st"
    using FlushWithRetry_returns [of "\<lambda>n. 3 - int n" 16, THEN conjunct2] by simp
qed

text \<open>
  the stall budget alone does not make the loop end: any decrease resets it, so a writer whose count goes up
  and down is called forever.
\<close>

theorem FlushWithRetry_may_not_return:
  assumes "max_stalls > 1"
  shows "FlushWithRetry (\<lambda>n. if even n then 1 else 2) max_stalls = None"
proof (rule flush_never_stops)
  let ?send = "\<lambda>n. if even n then 1 else (2 :: int)"
  have "stall_run ?send n = (if even n then 0 else 1)" for n by (induction n) auto
  then show "\<forall>i. flush_stop ?send max_stalls i = None"
    using assms by (auto simp: flush_stop_def stalled_iff)
qed

theorem FlushWithRetry_may_not_return_witness: "FlushWithRetry (\<lambda>n. if even n then 1 else 2) 16 = None"
  by (rule FlushWithRetry_may_not_return) simp

end
