(* ===== verification/Spec2Isabelle.thy ===== *)
theory Spec2Isabelle
  imports Selector Worker_Ipc Cache_Control_Header Html_Cache_Decision Url_Registry Analysis_Queue
    Template_Detector Fetch_Policy Url_Util Subresource_Gate Revalidation Hit_Etag Early_Hints
begin

text \<open>
  A verification library for the PageSpeed optimizer: a server module (nginx, or a C interface for other hosts)
  that answers requests from a cache of optimized variants, and a worker that produces them.  Sources are named
  relative to the repository: \<open>lib/\<close> is the shared library, \<open>src/\<close> the module, the worker and the browser client.

  \<^bold>\<open>How the parts interact.\<close>  A request's headers become a capability mask (\<open>lib/classify/capability_mask.cc\<close>);
  its URL and host become a cache key (\<open>url_normalizer.cc\<close>, \<open>hostname.cc\<close>, \<open>option_context.cc\<close>).  The cache lists
  the alternates stored under the key, each an 8-bit id (\<open>alternate_id.h\<close>) with a metadata blob in front of it
  (\<open>alternate_metadata.cc\<close>), and the selector (\<open>pagespeed_selector.cc\<close>) picks one.  Freshness
  (\<open>lib/cache/freshness.cc\<close>) decides whether it is served, the gates of the module (\<open>src/nginx/\<close>) whether a stale
  one is, or one for a request with credentials, and what a 304 does to it; the header builders
  (\<open>cache_control_header.cc\<close>, \<open>vary_emission.cc\<close>, \<open>etag_util.cc\<close>, \<open>early_hints_util.cc\<close>) make the response headers.
  A miss is recorded: the origin's Cache-Control is parsed (\<open>origin_cache_control.cc\<close>), the policies decide whether
  it is stored (\<open>vary_storability.cc\<close>, \<open>headers_sidecar.cc\<close>, \<open>html_cache_policy.cc\<close>) and log the decision
  (\<open>html_cache_decision.cc\<close>), and the worker is notified (\<open>src/proto/worker_ipc.cc\<close>).  The worker keeps a registry
  of URLs (\<open>src/worker/url_registry.cc\<close>), asks the site before it uses one URL's bytes in another's output
  (\<open>subresource_gate.cc\<close>), resolves references (\<open>lib/base/url_util.cc\<close>), and queues pages for a browser
  (\<open>src/browser/analysis_queue.cc\<close>, \<open>template_detector.cc\<close>), whose fetches pass \<open>lib/net/fetch_policy.cc\<close>,
  \<open>upstream_pin.cc\<close> and \<open>ssrf_guard.cc\<close>.

  \<^bold>\<open>Conventions.\<close>  A struct is a record whose field names carry a prefix per record, an enum a datatype with the
  source's enumerators (a suffix where two enums share one), a fixed-width integer a word of that width, a
  \<open>size_t\<close> a \<open>nat\<close>, text a \<open>string\<close> of bytes, a \<open>std::optional\<close> or a rejected parse an \<open>option\<close>.  A loop is a
  recursive function, a mutated object a record passed through.  Operations that hold a mutex are the steps of a
  step relation, so its runs are the interleavings of the threads.  Code outside the repository is an argument: the
  address functions of the operating system (\<open>inet_lib\<close>), SHA-256, the iteration order of a hash map, the
  unstable sort of the standard library (locale \<open>std_sort\<close>), the HEAD request and the clock of the sub-resource
  gate, the writer of the flush loop.

  \<^bold>\<open>The theories.\<close>
  \<^item> \<open>PS_Prelude\<close>: word and string-view library, byte codecs, and the locales \<open>framed_codec\<close>, \<open>stream_codec\<close>,
    \<open>std_sort\<close> and \<open>best_scan\<close>.  \<open>State_Machine\<close>: the locales \<open>invariant_machine\<close> and \<open>simulation\<close>.
  \<^item> \<open>String_Util\<close>: \<open>lib/base/string_util\<close>; escaping is lossless and safe, the transformations equal their
    reference definitions.
  \<^item> \<open>Capability_Mask\<close>, \<open>Alternate_Id\<close>, \<open>Selector\<close>: header parsers, the 32-bit encoding and its round trip, the
    dimension iterator, the sentinel registry; selection returns the maximum of a key (interpretation \<open>sel\<close> of
    \<open>best_scan\<close>), whatever the order of the candidates.
  \<^item> \<open>Option_Context\<close>, \<open>Url_Normalizer\<close>, \<open>Url_Util\<close>: keys and references.  The cache URL lists the
    key and value of the kept parameters in order and depends only on their set, up to the equals sign of an empty value
    (\<open>std_sort\<close>); a resolved reference stays in its origin and follows its segments, and references with a dot
    segment after their last step above the root climb above it.
  \<^item> \<open>Worker_Ipc\<close>, \<open>Alternate_Metadata\<close>: the notification frame and the metadata blob, written and read
    (interpretations \<open>ipc\<close> and \<open>meta\<close> of \<open>framed_codec\<close>): round trips, refusals, accepted values.
  \<^item> \<open>Origin_Cache_Control\<close>, \<open>Freshness\<close>, \<open>Cache_Control_Header\<close>, \<open>Vary\<close>, \<open>Revalidation\<close>, \<open>Hit_Etag\<close>: the
    caching rules as exact conditions on header lines, the bounded buffer of the outgoing header, the verdict on a
    304, and the entity tag, which identifies one representation.
  \<^item> \<open>Headers_Sidecar\<close>, \<open>Http_Date\<close>, \<open>Personalisation\<close>, \<open>Html_Cache_Policy\<close>, \<open>Html_Cache_Decision\<close>: what makes an
    HTML page storable and servable, and the log line of each decision, which reads back.
  \<^item> \<open>Url_Registry\<close>, \<open>Analysis_Queue\<close>, \<open>Template_Detector\<close>, \<open>Subresource_Gate\<close>: the stateful components, each with
    an invariant over all runs; the first three refine a bounded recency list, a bounded priority queue and a
    first-in first-out table (interpretations \<open>registry\<close>, \<open>analysis\<close>, \<open>detector\<close>, \<open>gate\<close>), and an answer of the
    last survives what other threads do until it expires, as long as the memo has room.
  \<^item> \<open>Ssrf_Guard\<close>, \<open>Fetch_Policy\<close>: address rules as membership in networks, the URL parser, the decision on a fetch.
  \<^item> \<open>Early_Hints\<close>: the link header, and the call at which the flush loop stops.
  \<^item> This theory: from request headers to the served variant, from the store policy to the revalidation gate, and
    from a stored blob to its entity tag.

  \<^bold>\<open>Bounds and termination.\<close>  Every loop is a total function with a measure, except \<open>flush_loop\<close>, a partial
  function whose end depends on its writer: for every writer it returns exactly when a call
  stops it, which is so for every writer whose pending count never grows and not for one whose count goes up and down.  \<open>collect_pages\<close> takes fuel; \<open>listing_complete\<close> shows that one unit per page is
  enough.  Machine words keep their width where the code computes with them; lengths, indices and counters bounded
  by memory are natural numbers, and monotonic clock values are integers.

  \<^bold>\<open>Not modelled.\<close>  Generated image predictors and the image pipeline (data and external codecs); the HTML,
  JavaScript and CSS parsers and what is built on them (no stated contract short of the grammars); the cache class
  over the Cyclone library, the C interface, the nginx module, the worker's event loop, servers and files, the
  browser client, processes, sockets and cryptography (effects of systems outside the repository).  Of the modelled
  files, \<open>ApplyRestampVerdict\<close>, \<open>MakeAnonymousHeadFn\<close>, \<open>ShouldSendHintsOnMiss\<close>, \<open>ExtractStylesheetPreloads\<close> and the
  Windows branch of the legacy IPv4 parser are left out.
\<close>

section \<open>Properties that span components\<close>

lemma ucast_u8_low: "(ucast (x :: u8) :: u32) AND 0xFF = ucast x"
proof -
  have "take_bit 8 (ucast x :: u32) = ucast x"
    by (rule bit_word_eqI) (auto simp: bit_take_bit_iff bit_unsigned_iff dest: bit_imp_le_length)
  then show ?thesis by (simp add: take_bit_eq_mask mask_eq_exp_minus_1)
qed

lemma ExtractFormat_Encode: "ExtractFormat (Encode m) = uint (ImageFormat_raw (image_format m))"
  by (cases m; cases "image_format m"; cases "viewport m"; cases "pixel_density m"; cases "save_data m"; cases "transfer_encoding m")
     (simp_all add: ExtractFormat_def Encode_def)

lemma ExtractEncoding_Encode: "ExtractEncoding (Encode m) = uint (TransferEncoding_raw (transfer_encoding m))"
  by (cases m; cases "image_format m"; cases "viewport m"; cases "pixel_density m"; cases "save_data m"; cases "transfer_encoding m")
     (simp_all add: ExtractEncoding_def Encode_def)

lemma FromHeaders_image_format:
  "image_format (FromHeaders accept ua sd ae dpr) =
     (if AcceptContains accept ''image/avif'' then kAvif
      else if accept = [] \<or> AcceptContains accept ''image/webp'' \<or> AcceptContains accept ''image/*'' \<or>
              AcceptContains accept ''*/*'' then kWebP
      else kOriginal)"
  by (cases "DprHintIsHighDensity dpr") (simp_all add: FromHeaders_def Let_def)

text \<open>
  C6: from the request headers to the served bytes: when the selector is given the mask of the client's headers,
  a selected variant is AVIF only if the Accept header names it, WebP only if the header names it or a wildcard or
  is absent, and brotli or gzip only if the Accept-Encoding parser chose that encoding.
\<close>

theorem served_variant_negotiated:
  assumes "metadata_client_mask meta = Encode (FromHeaders accept ua sd ae dpr)"
    and "select alts meta = Some i" "\<not> IsSentinel (alts ! i)"
  shows "case Decode (ucast (alts ! i)) of variant \<Rightarrow>
    (image_format variant = kAvif \<longrightarrow> AcceptContains accept ''image/avif'') \<and>
    (image_format variant = kWebP \<longrightarrow> accept = [] \<or> AcceptContains accept ''image/webp'' \<or>
       AcceptContains accept ''image/*'' \<or> AcceptContains accept ''*/*'') \<and>
    (transfer_encoding variant \<noteq> kIdentity \<longrightarrow> transfer_encoding variant = ParseAcceptEncoding ae)"
proof -
  let ?v = "Decode (ucast (alts ! i))" and ?c = "FromHeaders accept ua sd ae dpr"
  obtain k where "select_key (Encode ?c) (metadata_agent_request meta) (alts ! i) = Some k"
    using select_some [OF assms(2)] assms(1) by auto
  then have "0 < ScoreAlternate (Encode ?c) (ucast (alts ! i))"
    using assms(3) by (auto simp: select_key_def split: if_splits)
  note d = score_positive_decodable [OF this]
  have "Encode ?v = ucast (alts ! i)" by (simp add: Encode_Decode ucast_u8_low)
  then have "ExtractFormat (ucast (alts ! i)) = uint (ImageFormat_raw (image_format ?v))"
    "ExtractEncoding (ucast (alts ! i)) = uint (TransferEncoding_raw (transfer_encoding ?v))"
    by (metis ExtractFormat_Encode) (metis \<open>Encode ?v = ucast (alts ! i)\<close> ExtractEncoding_Encode)
  with d have "uint (ImageFormat_raw (image_format ?v)) \<in> {uint (ImageFormat_raw (image_format ?c)), 0, 3}"
    "uint (TransferEncoding_raw (transfer_encoding ?v)) \<in> {uint (TransferEncoding_raw (transfer_encoding ?c)), 0}"
    by (simp_all add: ExtractFormat_Encode ExtractEncoding_Encode kSvgFormat_def)
  note raw = this
  have "image_format ?v \<in> {image_format ?c, kOriginal, kSvg}"
    using raw(1) by (cases "image_format ?v"; cases "image_format ?c") simp_all
  moreover have "transfer_encoding ?v \<in> {transfer_encoding ?c, kIdentity}"
    using raw(2) by (cases "transfer_encoding ?v"; cases "transfer_encoding ?c") simp_all
  ultimately show ?thesis
    by (auto simp: FromHeaders_image_format FromHeaders_fields(3) split: if_splits)
qed

text \<open>
  C10: a page the store policy accepts is kept alive by a 304 that repeats its headers: the revalidation gate
  neither evicts it nor declines to extend its life for an anonymous exchange without a cookie.
\<close>

theorem stored_page_survives_revalidation:
  assumes "stores (ClassifyHtmlForStore request response policy)"
  shows "EvaluateRestampStorability
    \<lparr>ri_refreshed_cc_flags = occ_flags (cs_cc (summarise_cc (sr_headers response))),
     ri_request_has_authorization = sq_has_authorization request, ri_response_has_set_cookie = False\<rparr> = kRestamp"
proof -
  have "sharing_rules request response" "request_rules request response"
    using assms by (simp_all add: ClassifyHtmlForStore_stores ApplyStoreRules_stores)
  then show ?thesis
    by (simp add: sharing_rules_def request_rules_def Let_def EvaluateRestampStorability_def
        RefreshedHeadersForbidSharedStorage_def AuthzCacheGateAllows_def)
qed

text \<open>
  the entity tag of a hit does not change when the entry goes through the cache: the metadata read back from
  the stored blob gives the same tag, for an origin tag of up to 65535 bytes.
\<close>

theorem tag_survives_storage:
  assumes "hashes_ok m" "length (am_origin_etag m) \<le> 65535"
  shows "map_option (\<lambda>m'. FormatHitETag m' body_len null cap) (Metadata_Deserialize (Metadata_Serialize m @ content)) =
    Some (FormatHitETag m body_len null cap)"
proof -
  have "ContentIdentity64 (stored_view m) = ContentIdentity64 m" "\<And>i. etag_text (stored_view m) i body_len = etag_text m i body_len"
    using assms(2) by (simp_all add: ContentIdentity64_def etag_text_def stored_view_def Let_def)
  then have "FormatHitETag (stored_view m) body_len null cap = FormatHitETag m body_len null cap"
    by (simp add: FormatHitETag_def Let_def split: option.split)
  then show ?thesis using meta.dec_enc [OF assms(1), of content] by simp
qed


section \<open>Examples\<close>

theorem served_variant_negotiated_witness:
  "select [0x08, 0x0A] [CHR 0x0A, CHR 0x00, CHR 0x00, CHR 0x00] = Some 1 \<and> AcceptContains ''image/avif'' ''image/avif''"
proof -
  let ?meta = "[CHR 0x0A, CHR 0x00, CHR 0x00, CHR 0x00]" and ?alts = "[0x08, 0x0A :: u8]"
  have m: "metadata_client_mask ?meta = Encode (FromHeaders ''image/avif'' [] [] [] [])"
    by code_simp
  have s: "select ?alts ?meta = Some 1" by code_simp
  have v: "image_format (Decode (ucast (?alts ! 1))) = kAvif" by code_simp
  have "\<not> IsSentinel (?alts ! 1)" by code_simp
  from served_variant_negotiated [OF m s this] v s show ?thesis by simp
qed

theorem stored_page_survives_revalidation_witness:
  "EvaluateRestampStorability
    \<lparr>ri_refreshed_cc_flags = occ_flags (cs_cc (summarise_cc (sr_headers sample_response))),
     ri_request_has_authorization = sq_has_authorization sample_request, ri_response_has_set_cookie = False\<rparr> = kRestamp"
  by (rule stored_page_survives_revalidation [OF sample_stores])

theorem tag_survives_storage_witness:
  "map_option (\<lambda>m'. FormatHitETag m' 7 False 52)
     (Metadata_Deserialize (Metadata_Serialize (AlternateMetadata_default\<lparr>am_origin_etag := ''abc''\<rparr>) @ ''body'')) =
   Some (FormatHitETag (AlternateMetadata_default\<lparr>am_origin_etag := ''abc''\<rparr>) 7 False 52)"
  by (rule tag_survives_storage) (simp_all add: hashes_ok_def AlternateMetadata_default_def kHashSize_def)

end
